(* ===== verification/Prelude.thy ===== *)
theory Prelude
  imports Main "HOL-Library.Char_ord" "HOL-Library.List_Lexorder" "HOL-Library.Sublist"
begin

text \<open>
  Shared by every component: operations that may fail and carry a state (Go's
  \<open>value, err := f(); if err != nil { return err }\<close>), the table operations that the SQL
  statements of \<open>internal/meta\<close> denote, and the functions of Go's \<open>strings\<close> and
  \<open>strconv\<close> packages that the sources call. A Go string is a sequence of bytes, which
  is what a HOL \<^typ>\<open>string\<close> is. White space is the ASCII white space.
\<close>

named_theorems keeps_intro \<open>introduction rules for preservation of an invariant\<close>
named_theorems go_string \<open>facts about Go's string functions\<close>
named_theorems table \<open>facts about the table operations\<close>

type_synonym time = int
type_synonym bytes = string

subsection \<open>Operations with a state and an error\<close>

definition retE :: "'a \<Rightarrow> 's \<Rightarrow> ('e + 'a) \<times> 's" where
  "retE x s = (Inr x, s)"

definition errE :: "'e \<Rightarrow> 's \<Rightarrow> ('e + 'a) \<times> 's" where
  "errE e s = (Inl e, s)"

definition bindE :: "('s \<Rightarrow> ('e + 'a) \<times> 's) \<Rightarrow> ('a \<Rightarrow> 's \<Rightarrow> ('e + 'b) \<times> 's)
    \<Rightarrow> 's \<Rightarrow> ('e + 'b) \<times> 's" where
  "bindE m k s = (case m s of (Inl e, t) \<Rightarrow> (Inl e, t) | (Inr x, t) \<Rightarrow> k x t)"

text \<open>\<open>handleE\<close> passes the result, error or value, on: the caller inspects \<open>err\<close> itself.\<close>

definition handleE :: "('s \<Rightarrow> 'r \<times> 's) \<Rightarrow> ('r \<Rightarrow> 's \<Rightarrow> 'q \<times> 's) \<Rightarrow> 's \<Rightarrow> 'q \<times> 's" where
  "handleE m k s = (case m s of (r, t) \<Rightarrow> k r t)"

definition keeps :: "('s \<Rightarrow> bool) \<Rightarrow> ('s \<Rightarrow> 'r \<times> 's) \<Rightarrow> bool" where
  "keeps P m \<longleftrightarrow> (\<forall>s. P s \<longrightarrow> P (snd (m s)))"

lemma keepsI [intro?]: "(\<And>s. P s \<Longrightarrow> P (snd (m s))) \<Longrightarrow> keeps P m"
  by (simp add: keeps_def)

lemma keepsD: "keeps P m \<Longrightarrow> P s \<Longrightarrow> P (snd (m s))"
  by (simp add: keeps_def)

lemma keeps_result: "keeps P m \<Longrightarrow> m s = (r, t) \<Longrightarrow> P s \<Longrightarrow> P t"
  using keepsD by fastforce

lemma keeps_retE [keeps_intro]: "keeps P (retE x)"
  by (simp add: keeps_def retE_def)

lemma keeps_ret [keeps_intro]: "keeps P (\<lambda>s. (r, s))" "keeps P (\<lambda>s. (f s, s))"
  by (simp_all add: keeps_def)

lemma keeps_errE [keeps_intro]: "keeps P (errE x)"
  by (simp add: keeps_def errE_def)

lemma keeps_bindE [keeps_intro]:
  "keeps P m \<Longrightarrow> (\<And>x. keeps P (k x)) \<Longrightarrow> keeps P (bindE m k)"
  by (fastforce simp: keeps_def bindE_def split: prod.splits sum.splits)

lemma keeps_handleE [keeps_intro]:
  "keeps P m \<Longrightarrow> (\<And>r. keeps P (k r)) \<Longrightarrow> keeps P (handleE m k)"
  by (fastforce simp: keeps_def handleE_def split: prod.splits)

lemma keeps_if [keeps_intro]: "keeps P m \<Longrightarrow> keeps P n \<Longrightarrow> keeps P (if b then m else n)"
  by simp

lemma keeps_sum [keeps_intro]:
  "(\<And>e. keeps P (f e)) \<Longrightarrow> (\<And>x. keeps P (g x)) \<Longrightarrow>
   keeps P (case r of Inl e \<Rightarrow> f e | Inr x \<Rightarrow> g x)"
  by (simp split: sum.split)

lemma keeps_option [keeps_intro]:
  "keeps P m \<Longrightarrow> (\<And>x. keeps P (g x)) \<Longrightarrow> keeps P (case r of None \<Rightarrow> m | Some x \<Rightarrow> g x)"
  by (simp split: option.split)

lemma bindE_Inr:
  "bindE m k s = (Inr y, u) \<longleftrightarrow> (\<exists>x t. m s = (Inr x, t) \<and> k x t = (Inr y, u))"
  by (auto simp: bindE_def split: prod.splits sum.splits)

lemma bindE_eq_Inr: "m s = (Inr x, t) \<Longrightarrow> bindE m k s = k x t"
  by (simp add: bindE_def)

lemma bindE_eq_Inl: "m s = (Inl e, t) \<Longrightarrow> bindE m k s = (Inl e, t)"
  by (simp add: bindE_def)

lemma handleE_eq: "m s = (r, t) \<Longrightarrow> handleE m k s = k r t"
  by (simp add: handleE_def)

lemmas go_step = bindE_eq_Inr bindE_eq_Inl handleE_eq retE_def errE_def

subsection \<open>Resources that are handed out once\<close>

text \<open>
  A job of the queue, a nonce of a push session: callers interleave operations in any
  order, and at most one of those that take the resource succeeds. \<open>exec_all\<close> runs a list of
  operations and returns each with whether it succeeded.
\<close>

fun exec_all :: "('op \<Rightarrow> 's \<Rightarrow> bool \<times> 's) \<Rightarrow> 'op list \<Rightarrow> 's \<Rightarrow> ('op \<times> bool) list \<times> 's" where
  "exec_all f [] s = ([], s)"
| "exec_all f (x # xs) s =
     (case f x s of (b, t) \<Rightarrow> (case exec_all f xs t of (rs, u) \<Rightarrow> ((x, b) # rs, u)))"

lemma fst_exec_all [simp]:
  "fst (exec_all f (x # xs) s) = (x, fst (f x s)) # fst (exec_all f xs (snd (f x s)))"
  by (simp add: case_prod_beta)

declare exec_all.simps(2) [simp del]

locale one_shot =
  fixes exec :: "'op \<Rightarrow> 's \<Rightarrow> bool \<times> 's"
    and takes :: "'op \<Rightarrow> bool"
    and allowed :: "'op \<Rightarrow> bool"
    and spent :: "'s \<Rightarrow> bool"
  assumes spends: "takes x \<Longrightarrow> exec x s = (True, t) \<Longrightarrow> spent t"
    and stays: "allowed x \<Longrightarrow> spent s \<Longrightarrow> spent (snd (exec x s))"
    and refuses: "takes x \<Longrightarrow> spent s \<Longrightarrow> \<not> fst (exec x s)"
begin

lemma none_when_spent:
  "spent s \<Longrightarrow> \<forall>x \<in> set xs. allowed x \<Longrightarrow>
   filter (\<lambda>(x, b). takes x \<and> b) (fst (exec_all exec xs s)) = []"
proof (induction xs arbitrary: s)
  case (Cons x xs)
  obtain b t where e: "exec x s = (b, t)" by (cases "exec x s")
  with Cons.prems stays[of x s] refuses[of x s] have "spent t" "takes x \<longrightarrow> \<not> b" by auto
  with Cons e show ?case by simp
qed simp

lemma at_most_once:
  "\<forall>x \<in> set xs. allowed x \<Longrightarrow> length (filter (\<lambda>(x, b). takes x \<and> b) (fst (exec_all exec xs s))) \<le> 1"
proof (induction xs arbitrary: s)
  case (Cons x xs)
  obtain b t where e: "exec x s = (b, t)" by (cases "exec x s")
  show ?case
  proof (cases "takes x \<and> b")
    case True
    with e spends[of x s t] have "spent t" by auto
    with none_when_spent[of t xs] Cons.prems e True show ?thesis by simp
  next
    case False
    with Cons.IH[of t] Cons.prems e show ?thesis by auto
  qed
qed simp

end

subsection \<open>Tables\<close>

text \<open>
  A table is the list of its rows. \<open>update_where\<close> and \<open>delete_where\<close> are UPDATE and
  DELETE; \<open>first_where\<close> reads a single row; \<open>next_id\<close> is the row id that SQLite
  gives to an insert that names none: one more than the largest in the table.
\<close>

definition update_where :: "('r \<Rightarrow> bool) \<Rightarrow> ('r \<Rightarrow> 'r) \<Rightarrow> 'r list \<Rightarrow> 'r list" where
  "update_where P f rows = map (\<lambda>r. if P r then f r else r) rows"

definition delete_where :: "('r \<Rightarrow> bool) \<Rightarrow> 'r list \<Rightarrow> 'r list" where
  "delete_where P rows = filter (\<lambda>r. \<not> P r) rows"

definition first_where :: "('r \<Rightarrow> bool) \<Rightarrow> 'r list \<Rightarrow> 'r option" where
  "first_where P rows = find P rows"

definition next_id :: "('r \<Rightarrow> int) \<Rightarrow> 'r list \<Rightarrow> int" where
  "next_id key rows = 1 + fold (\<lambda>r m. max (key r) m) rows 0"

lemma fold_max_ge: "m \<le> fold (\<lambda>r m. max (key r) m) rows (m :: int)"
proof (induction rows arbitrary: m)
  case (Cons a rows)
  have "m \<le> max (key a) m" by simp
  also have "\<dots> \<le> fold (\<lambda>r m. max (key r) m) rows (max (key a) m)" by (rule Cons.IH)
  finally show ?case by simp
qed simp

lemma fold_max_key: "r \<in> set rows \<Longrightarrow> key r \<le> fold (\<lambda>r m. max (key r) m) rows (m :: int)"
proof (induction rows arbitrary: m)
  case (Cons a rows)
  show ?case
  proof (cases "r = a")
    case True
    have "key a \<le> max (key a) m" by simp
    also have "\<dots> \<le> fold (\<lambda>r m. max (key r) m) rows (max (key a) m)" by (rule fold_max_ge)
    finally show ?thesis using True by simp
  next
    case False
    with Cons.prems have "r \<in> set rows" by simp
    then show ?thesis using Cons.IH by simp
  qed
qed simp

lemma next_id_fresh [table]: "r \<in> set rows \<Longrightarrow> key r < next_id key rows"
  using fold_max_key[of r rows key 0] by (simp add: next_id_def)

lemma next_id_notin [table]: "next_id key rows \<notin> key ` set rows"
  using next_id_fresh[of _ rows key] by fastforce

lemma next_id_pos [table]: "0 < next_id key rows"
  using fold_max_ge[of 0 key rows] by (simp add: next_id_def)

lemma set_delete_where [simp]: "set (delete_where P rows) = {r \<in> set rows. \<not> P r}"
  by (simp add: delete_where_def)

lemma set_update_where:
  "set (update_where P f rows) = {r \<in> set rows. \<not> P r} \<union> f ` {r \<in> set rows. P r}"
  by (auto simp: update_where_def image_iff)

lemma ball_update_where:
  "\<forall>r \<in> set rows. Q r \<Longrightarrow> (\<And>r. Q r \<Longrightarrow> Q (f r)) \<Longrightarrow> \<forall>r \<in> set (update_where P f rows). Q r"
  by (auto simp: update_where_def)

lemma map_update_where [table]:
  "(\<And>r. key (f r) = key r) \<Longrightarrow> map key (update_where P f rows) = map key rows"
  by (simp add: update_where_def)

lemma distinct_map_delete_where [table]:
  "distinct (map key rows) \<Longrightarrow> distinct (map key (delete_where P rows))"
  by (simp add: delete_where_def distinct_map_filter)

lemma first_where_Some:
  "first_where P rows = Some r \<Longrightarrow> r \<in> set rows \<and> P r"
  by (auto simp: first_where_def find_Some_iff)

lemma first_where_None: "first_where P rows = None \<longleftrightarrow> (\<forall>r \<in> set rows. \<not> P r)"
  by (auto simp: first_where_def find_None_iff)

lemma first_where_unique:
  assumes "distinct (map key rows)" "r \<in> set rows" "\<And>x. P x \<longleftrightarrow> key x = key r"
  shows "first_where P rows = Some r"
proof -
  obtain y where y: "first_where P rows = Some y"
    using assms(2,3) by (cases "first_where P rows") (auto simp: first_where_None)
  then have "y \<in> set rows" "key y = key r" using first_where_Some assms(3) by fast+
  with assms(1,2) have "y = r" by (meson distinct_map inj_onD)
  with y show ?thesis by simp
qed

lemma first_where_append:
  "first_where P (xs @ ys) = (case first_where P xs of None \<Rightarrow> first_where P ys | Some r \<Rightarrow> Some r)"
  by (induction xs) (auto simp: first_where_def)

lemma first_where_Nil [simp]: "first_where P [] = None"
  by (simp add: first_where_def)

lemma first_where_False [simp]: "first_where (\<lambda>_. False) rows = None"
  by (simp add: first_where_None)

lemma first_where_Cons [simp]:
  "first_where P (x # xs) = (if P x then Some x else first_where P xs)"
  by (simp add: first_where_def)

lemma first_where_update_where:
  "(\<And>r. P (f r) = P r) \<Longrightarrow>
   first_where P (update_where Q f rows) = map_option (\<lambda>r. if Q r then f r else r) (first_where P rows)"
  by (induction rows) (auto simp: update_where_def)

subsection \<open>Go's strings package\<close>

definition has_prefix :: "string \<Rightarrow> string \<Rightarrow> bool" where
  "has_prefix p s \<longleftrightarrow> take (length p) s = p"

definition has_suffix :: "string \<Rightarrow> string \<Rightarrow> bool" where
  "has_suffix p s \<longleftrightarrow> length p \<le> length s \<and> drop (length s - length p) s = p"

definition trim_prefix :: "string \<Rightarrow> string \<Rightarrow> string" where
  "trim_prefix p s = (if has_prefix p s then drop (length p) s else s)"

definition cut_prefix :: "string \<Rightarrow> string \<Rightarrow> string option" where
  "cut_prefix p s = (if has_prefix p s then Some (drop (length p) s) else None)"

definition trim_suffix :: "string \<Rightarrow> string \<Rightarrow> string" where
  "trim_suffix p s = (if has_suffix p s then take (length s - length p) s else s)"

text \<open>\<open>cut sep s\<close> is \<open>strings.Cut\<close>: the text before and after the first \<open>sep\<close>.\<close>

fun cut :: "string \<Rightarrow> string \<Rightarrow> (string \<times> string) option" where
  "cut sep [] = (if sep = [] then Some ([], []) else None)"
| "cut sep (c # cs) =
     (if has_prefix sep (c # cs) then Some ([], drop (length sep) (c # cs))
      else map_option (\<lambda>(a, b). (c # a, b)) (cut sep cs))"

text \<open>\<open>split_on c s\<close> is \<open>strings.Split\<close> with a separator of one byte.\<close>

fun split_on :: "char \<Rightarrow> string \<Rightarrow> string list" where
  "split_on c [] = [[]]"
| "split_on c (x # xs) =
     (if x = c then [] # split_on c xs
      else (case split_on c xs of [] \<Rightarrow> [[x]] | y # ys \<Rightarrow> (x # y) # ys))"

fun join_with :: "string \<Rightarrow> string list \<Rightarrow> string" where
  "join_with sep [] = []"
| "join_with sep [x] = x"
| "join_with sep (x # y # ys) = x @ sep @ join_with sep (y # ys)"

definition trim_char :: "char \<Rightarrow> string \<Rightarrow> string" where
  "trim_char c s = rev (dropWhile (\<lambda>x. x = c) (rev (dropWhile (\<lambda>x. x = c) s)))"

definition is_space :: "char \<Rightarrow> bool" where
  "is_space c \<longleftrightarrow> of_char c \<in> ({9, 10, 11, 12, 13, 32} :: nat set)"

definition trim_space :: "string \<Rightarrow> string" where
  "trim_space s = rev (dropWhile is_space (rev (dropWhile is_space s)))"

definition to_upper :: "char \<Rightarrow> char" where
  "to_upper c = (if 97 \<le> (of_char c :: nat) \<and> (of_char c :: nat) \<le> 122
     then char_of ((of_char c :: nat) - 32) else c)"

definition to_lower :: "char \<Rightarrow> char" where
  "to_lower c = (if 65 \<le> (of_char c :: nat) \<and> (of_char c :: nat) \<le> 90
     then char_of ((of_char c :: nat) + 32) else c)"

text \<open>\<open>str_fields\<close> is \<open>strings.Fields\<close>; \<open>scan_lines\<close> what \<open>bufio.Scanner\<close> delivers line by line.\<close>

fun fields_acc :: "string \<Rightarrow> string \<Rightarrow> string list" where
  "fields_acc w [] = (if w = [] then [] else [w])"
| "fields_acc w (c # cs) =
     (if is_space c then (if w = [] then fields_acc [] cs else w # fields_acc [] cs)
      else fields_acc (w @ [c]) cs)"

definition str_fields :: "string \<Rightarrow> string list" where
  "str_fields s = fields_acc [] s"

definition newline :: char where "newline = CHR 0x0A"

definition raw_lines :: "string \<Rightarrow> string list" where
  "raw_lines s = (let ls = split_on newline s in if last ls = [] then butlast ls else ls)"

definition scan_lines :: "string \<Rightarrow> string list" where
  "scan_lines s = map (trim_suffix [CHR 0x0D]) (raw_lines s)"

definition word :: "string \<Rightarrow> bool" where
  "word w \<longleftrightarrow> w \<noteq> [] \<and> (\<forall>c \<in> set w. \<not> is_space c)"

lemma fields_acc_word:
  "\<forall>c \<in> set v. \<not> is_space c \<Longrightarrow> fields_acc w (v @ s) = fields_acc (w @ v) s"
  by (induction v arbitrary: w) auto

lemma is_space_sep [simp]: "is_space (CHR '' '')" "is_space newline"
  by (simp_all add: is_space_def newline_def)

lemma fields_join [go_string]: "\<forall>w \<in> set ws. word w \<Longrightarrow> str_fields (join_with '' '' ws) = ws"
proof (induction ws)
  case (Cons w ws)
  then have w: "w \<noteq> []" "\<forall>c \<in> set w. \<not> is_space c" by (auto simp: word_def)
  show ?case
  proof (cases ws)
    case Nil
    with w fields_acc_word[of w "[]" "[]"] show ?thesis by (simp add: str_fields_def)
  next
    case (Cons v vs)
    with w fields_acc_word[of w "[]" "CHR '' '' # join_with '' '' ws"] Cons.IH Cons.prems
    show ?thesis by (simp add: str_fields_def)
  qed
qed (simp add: str_fields_def)

lemma has_prefix_append [simp, go_string]: "has_prefix p (p @ s)"
  by (simp add: has_prefix_def)

lemma has_prefix_iff [go_string]: "has_prefix p s \<longleftrightarrow> (\<exists>t. s = p @ t)"
  by (metis append_take_drop_id has_prefix_append has_prefix_def)

lemma has_suffix_iff [go_string]: "has_suffix p s \<longleftrightarrow> (\<exists>t. s = t @ p)"
proof
  assume "has_suffix p s"
  then show "\<exists>t. s = t @ p" by (metis append_take_drop_id has_suffix_def)
qed (auto simp: has_suffix_def)

lemma has_suffix_append [simp, go_string]: "has_suffix p (s @ p)"
  by (simp add: has_suffix_def)

lemma cut_prefix_append [simp, go_string]: "cut_prefix p (p @ s) = Some s"
  by (simp add: cut_prefix_def)

lemma cut_prefix_Some [go_string]: "cut_prefix p s = Some t \<longleftrightarrow> s = p @ t"
  by (auto simp: cut_prefix_def has_prefix_iff)

lemma cut_prefix_None [go_string]: "cut_prefix p s = None \<longleftrightarrow> \<not> has_prefix p s"
  by (simp add: cut_prefix_def)

lemma trim_prefix_append [simp, go_string]: "trim_prefix p (p @ s) = s"
  by (simp add: trim_prefix_def)

lemma trim_suffix_append [simp, go_string]: "trim_suffix p (s @ p) = s"
  by (simp add: trim_suffix_def)

lemma trim_suffix_id [go_string]: "\<not> has_suffix p s \<Longrightarrow> trim_suffix p s = s"
  by (simp add: trim_suffix_def)

lemma cut_Some: "cut sep s = Some (a, b) \<Longrightarrow> s = a @ sep @ b"
proof (induction sep s arbitrary: a b rule: cut.induct)
  case (2 sep c cs)
  show ?case
  proof (cases "has_prefix sep (c # cs)")
    case True
    with "2.prems" show ?thesis by (auto simp: has_prefix_iff)
  next
    case False
    with "2.prems" obtain a' where "cut sep cs = Some (a', b)" "a = c # a'" by auto
    with "2.IH"[OF False] show ?thesis by simp
  qed
qed (auto split: if_splits)

lemma cut_char [go_string]: "d \<notin> set a \<Longrightarrow> cut [d] (a @ d # b) = Some (a, b)"
  by (induction a) (auto simp: has_prefix_def)

lemma cut_char_None [go_string]: "cut [d] s = None \<longleftrightarrow> d \<notin> set s"
  by (induction s) (auto simp: has_prefix_def)

lemma cut_char_fst: "cut [d] s = Some (a, b) \<Longrightarrow> d \<notin> set a"
  by (induction s arbitrary: a) (auto simp: has_prefix_def split: if_splits)

lemma split_on_ne [simp]: "split_on c s \<noteq> []"
  by (induction s) (auto split: list.splits)

lemma split_on_no_sep [go_string]: "c \<notin> set s \<Longrightarrow> split_on c s = [s]"
  by (induction s) auto

lemma split_on_append [go_string]: "c \<notin> set a \<Longrightarrow> split_on c (a @ c # b) = a # split_on c b"
  by (induction a) auto

lemma split_on_parts: "p \<in> set (split_on c s) \<Longrightarrow> c \<notin> set p"
proof (induction s arbitrary: p)
  case (Cons x xs)
  then show ?case by (cases "split_on c xs") (auto split: if_splits)
qed simp

lemma join_with_Cons: "ys \<noteq> [] \<Longrightarrow> join_with sep (x # ys) = x @ sep @ join_with sep ys"
  by (cases ys) auto

lemma join_split_on [simp, go_string]: "join_with [c] (split_on c s) = s"
proof (induction s)
  case (Cons x xs)
  obtain y ys where s: "split_on c xs = y # ys" by (metis neq_Nil_conv split_on_ne)
  have "join_with [c] ((x # y) # ys) = x # join_with [c] (y # ys)"
    by (cases ys) auto
  with Cons s show ?case by (simp add: join_with_Cons)
qed simp

lemma split_on_join [go_string]:
  "xs \<noteq> [] \<Longrightarrow> (\<forall>x \<in> set xs. c \<notin> set x) \<Longrightarrow> split_on c (join_with [c] xs) = xs"
proof (induction xs)
  case (Cons x xs)
  then show ?case
    by (cases xs) (auto simp: split_on_no_sep split_on_append)
qed simp

lemma raw_lines_concat [go_string]:
  assumes "\<forall>l \<in> set ls. newline \<notin> set l"
  shows "raw_lines (concat (map (\<lambda>l. l @ [newline]) ls)) = ls"
proof -
  have "split_on newline (concat (map (\<lambda>l. l @ [newline]) ls)) = ls @ [[]]"
    using assms by (induction ls) (auto simp: split_on_append)
  then show ?thesis by (simp add: raw_lines_def)
qed

lemma scan_lines_concat [go_string]:
  assumes "\<forall>l \<in> set ls. newline \<notin> set l \<and> \<not> has_suffix [CHR 0x0D] l"
  shows "scan_lines (concat (map (\<lambda>l. l @ [newline]) ls)) = ls"
proof -
  have "raw_lines (concat (map (\<lambda>l. l @ [newline]) ls)) = ls"
    by (rule raw_lines_concat) (use assms in blast)
  moreover have "map (trim_suffix [CHR 0x0D]) ls = ls"
    using assms by (induction ls) (auto simp: trim_suffix_id)
  ultimately show ?thesis by (simp add: scan_lines_def)
qed

subsection \<open>Go's strconv package\<close>

definition digit :: "nat \<Rightarrow> char" where
  "digit n = ''0123456789'' ! n"

definition digit_val :: "char \<Rightarrow> nat option" where
  "digit_val c = (let n = of_char c :: nat in if 48 \<le> n \<and> n \<le> 57 then Some (n - 48) else None)"

fun format_nat :: "nat \<Rightarrow> string" where
  "format_nat n = (if n < 10 then [digit n] else format_nat (n div 10) @ [digit (n mod 10)])"

declare format_nat.simps [simp del]

definition format_int :: "int \<Rightarrow> string" where
  "format_int i = (if i < 0 then CHR ''-'' # format_nat (nat (- i)) else format_nat (nat i))"

fun parse_digits :: "nat \<Rightarrow> string \<Rightarrow> nat option" where
  "parse_digits acc [] = Some acc"
| "parse_digits acc (c # cs) =
     (case digit_val c of None \<Rightarrow> None | Some d \<Rightarrow> parse_digits (10 * acc + d) cs)"

definition parse_nat :: "string \<Rightarrow> nat option" where
  "parse_nat s = (if s = [] then None else parse_digits 0 s)"

text \<open>\<open>strconv.ParseInt(s, 10, 64)\<close>: an optional sign, then at least one digit, in range.\<close>

definition parse_int64 :: "string \<Rightarrow> int option" where
  "parse_int64 s =
     (let (neg, ds) = (case s of [] \<Rightarrow> (False, [])
                       | c # cs \<Rightarrow> if c = CHR ''-'' then (True, cs)
                                   else if c = CHR ''+'' then (False, cs) else (False, c # cs))
      in case parse_nat ds of None \<Rightarrow> None
         | Some n \<Rightarrow> (let i = (if neg then - int n else int n)
                     in if - (2 ^ 63) \<le> i \<and> i < 2 ^ 63 then Some i else None))"

lemma digit_val_digit [simp]: "n < 10 \<Longrightarrow> digit_val (digit n) = Some n"
proof -
  assume "n < 10"
  then have "n \<in> set [0..<10]" by simp
  moreover have "\<forall>n \<in> set [0..<10]. digit_val (digit n) = Some n" by code_simp
  ultimately show ?thesis by blast
qed

lemma parse_digits_append:
  "parse_digits acc (xs @ ys) =
     (case parse_digits acc xs of None \<Rightarrow> None | Some a \<Rightarrow> parse_digits a ys)"
  by (induction acc xs rule: parse_digits.induct) (auto split: option.splits)

lemma format_nat_ne [simp]: "format_nat n \<noteq> []"
  by (subst format_nat.simps) simp

lemma parse_digits_format_nat: "parse_digits 0 (format_nat n) = Some n"
proof (induction n rule: format_nat.induct)
  case (1 n)
  show ?case
  proof (cases "n < 10")
    case True
    then show ?thesis by (subst format_nat.simps) simp
  next
    case False
    with "1.IH" show ?thesis
      by (subst format_nat.simps) (simp add: parse_digits_append)
  qed
qed

lemma parse_nat_format_nat [simp]: "parse_nat (format_nat n) = Some n"
  by (simp add: parse_nat_def parse_digits_format_nat)

definition decimal_digits :: "char set" where
  "decimal_digits = set ''0123456789''"

lemma digit_range: "n < 10 \<Longrightarrow> digit n \<in> decimal_digits"
  unfolding digit_def decimal_digits_def by (rule nth_mem) simp

lemma format_nat_chars: "set (format_nat n) \<subseteq> decimal_digits"
proof (induction n rule: format_nat.induct)
  case (1 n)
  show ?case
  proof (cases "n < 10")
    case True
    then show ?thesis using digit_range[of n] by (subst format_nat.simps) simp
  next
    case False
    with "1.IH" digit_range[of "n mod 10"] show ?thesis
      by (subst format_nat.simps) simp
  qed
qed

lemma format_int_chars: "set (format_int i) \<subseteq> insert (CHR ''-'') decimal_digits"
  using format_nat_chars by (auto simp: format_int_def)

lemma format_nat_hd: "hd (format_nat n) \<in> decimal_digits"
  using format_nat_chars[of n] format_nat_ne[of n] by (meson hd_in_set subsetD)

lemma format_int_no_dot [simp]: "CHR ''.'' \<notin> set (format_int i)"
proof
  assume "CHR ''.'' \<in> set (format_int i)"
  with format_int_chars[of i] have "CHR ''.'' \<in> insert (CHR ''-'') decimal_digits" by blast
  then show False by (simp add: decimal_digits_def)
qed

lemma parse_int64_format_int [simp]:
  assumes "- (2 ^ 63) \<le> i" "i < 2 ^ 63"
  shows "parse_int64 (format_int i) = Some i"
proof (cases "i < 0")
  case True
  then have f: "format_int i = CHR ''-'' # format_nat (nat (- i))" by (simp add: format_int_def)
  have n: "- int (nat (- i)) = i" using True by simp
  show ?thesis
    unfolding f parse_int64_def list.case if_True prod.case Let_def parse_nat_format_nat option.case n
    using assms True by simp
next
  case False
  obtain c cs where f: "format_nat (nat i) = c # cs"
    by (metis format_nat_ne neq_Nil_conv)
  with format_nat_hd[of "nat i"] have m: "c \<noteq> CHR ''-''" and p: "c \<noteq> CHR ''+''"
    by (auto simp: decimal_digits_def)
  have fi: "format_int i = c # cs" using f False by (simp add: format_int_def)
  have pn: "parse_nat (c # cs) = Some (nat i)" by (metis f parse_nat_format_nat)
  have n: "int (nat i) = i" using False by simp
  show ?thesis
    unfolding fi parse_int64_def list.case if_not_P[OF m] if_not_P[OF p] prod.case Let_def pn
      option.case if_False n
    using assms by simp
qed

lemma format_nat_inj: "format_nat m = format_nat n \<longleftrightarrow> m = n"
  by (metis option.inject parse_nat_format_nat)

lemma format_int_inj: "format_int i = format_int j \<longleftrightarrow> i = j"
proof
  assume e: "format_int i = format_int j"
  have ne: "format_nat n \<noteq> CHR ''-'' # x" for n x
    using format_nat_hd[of n] by (auto simp: decimal_digits_def)
  show "i = j"
  proof (cases "i < 0"; cases "j < 0")
    assume "i < 0" "j < 0"
    with e show ?thesis by (simp add: format_int_def format_nat_inj)
  next
    assume "i < 0" "\<not> j < 0"
    with e show ?thesis using ne[of "nat j" "format_nat (nat (- i))"] by (simp add: format_int_def)
  next
    assume "\<not> i < 0" "j < 0"
    with e show ?thesis using ne[of "nat i" "format_nat (nat (- j))"] by (simp add: format_int_def)
  next
    assume "\<not> i < 0" "\<not> j < 0"
    with e show ?thesis by (simp add: format_int_def format_nat_inj)
  qed
qed simp

subsection \<open>Go's encoding/hex package\<close>

definition hex_digit :: "nat \<Rightarrow> char" where
  "hex_digit n = ''0123456789abcdef'' ! n"

definition hex_encode :: "bytes \<Rightarrow> string" where
  "hex_encode bs = concat (map (\<lambda>b. let n = of_char b :: nat in [hex_digit (n div 16), hex_digit (n mod 16)]) bs)"

definition hex_digits :: "char set" where
  "hex_digits = set ''0123456789abcdef''"

lemma hex_digit_in: "n < 16 \<Longrightarrow> hex_digit n \<in> hex_digits"
  unfolding hex_digit_def hex_digits_def by (rule nth_mem) simp

lemma hex_encode_chars: "set (hex_encode bs) \<subseteq> hex_digits"
proof -
  have "hex_digit ((of_char b :: nat) div 16) \<in> hex_digits"
       "hex_digit ((of_char b :: nat) mod 16) \<in> hex_digits" for b :: char
    by (rule hex_digit_in, use nat_of_char_less_256[of b] in linarith)+
  then show ?thesis by (force simp: hex_encode_def Let_def)
qed

lemma hex_encode_no_dot [simp]: "CHR ''.'' \<notin> set (hex_encode bs)"
proof
  assume "CHR ''.'' \<in> set (hex_encode bs)"
  with hex_encode_chars[of bs] have "CHR ''.'' \<in> hex_digits" by blast
  then show False by (simp add: hex_digits_def)
qed

lemma hex_encode_Nil [simp]: "hex_encode bs = [] \<longleftrightarrow> bs = []"
  by (cases bs) (auto simp: hex_encode_def Let_def)

lemma hex_pair_inj:
  assumes "[hex_digit (m div 16), hex_digit (m mod 16)] = [hex_digit (n div 16), hex_digit (n mod 16)]"
    "m < 256" "n < 256"
  shows "m = n"
proof -
  have "\<forall>i \<in> set [0..<16]. \<forall>j \<in> set [0..<16]. hex_digit i = hex_digit j \<longrightarrow> i = j" by code_simp
  then have "i < 16 \<Longrightarrow> j < 16 \<Longrightarrow> hex_digit i = hex_digit j \<Longrightarrow> i = j" for i j by simp
  from this[of "m div 16" "n div 16"] this[of "m mod 16" "n mod 16"] assms
  have "m div 16 = n div 16" "m mod 16 = n mod 16" by auto
  then show ?thesis by (metis div_mult_mod_eq)
qed

lemma hex_encode_inj: "hex_encode xs = hex_encode ys \<Longrightarrow> xs = ys"
proof (induction xs arbitrary: ys)
  case Nil
  then show ?case by (metis hex_encode_Nil)
next
  case (Cons x xs)
  then obtain y ys' where ys: "ys = y # ys'" by (metis hex_encode_Nil list.exhaust list.distinct(1))
  let ?m = "of_char x :: nat" let ?n = "of_char y :: nat"
  from Cons.prems have e: "[hex_digit (?m div 16), hex_digit (?m mod 16)] = [hex_digit (?n div 16), hex_digit (?n mod 16)]"
    "hex_encode xs = hex_encode ys'"
    by (auto simp: ys hex_encode_def Let_def)
  have "?m = ?n" by (rule hex_pair_inj[OF e(1)]) (rule nat_of_char_less_256)+
  with Cons.IH[OF e(2)] show ?case by (simp add: ys)
qed

lemma append_sep_inj: "c \<notin> set a \<Longrightarrow> c \<notin> set b \<Longrightarrow> a @ c # x = b @ c # y \<longleftrightarrow> a = b \<and> x = y"
proof (induction a arbitrary: b)
  case Nil
  then show ?case by (cases b) auto
next
  case (Cons d a)
  then show ?case by (cases b) auto
qed

lemma in_map_filter: "x \<in> set (List.map_filter f ys) \<longleftrightarrow> (\<exists>y \<in> set ys. f y = Some x)"
  by (induction ys) (auto simp: map_filter_simps split: option.split)

end
