(* ===== verification/MetaDB.thy ===== *)
theory MetaDB
  imports Prelude
begin

text \<open>
  The metadata database of \<open>internal/meta\<close>: one record per table of \<open>schema.sql\<close>, the
  database as the record of its tables, the SQL statement as the unit of failure, and the
  invariant that the schema's keys and checks state.

  \<open>faults\<close> is the oracle for failing statements (a lost lease, a full disk, a cancelled
  context): each statement takes its head, and fails when the head is \<open>True\<close>. Theorems
  about all oracles cover every failure at every statement. \<open>fk\<close> says whether the
  connection that s3lite opens enforces FOREIGN KEY; both settings are covered.
\<close>

subsection \<open>Values\<close>

datatype perm = PermRead | PermWrite | PermAdmin | PermOther string

datatype run_status = RunQueued | RunRunning | RunPassed | RunFailed | RunError | RunSuperseded

datatype meta_error =
    NotFound
  | CasMismatch string string string  \<comment> \<open>ref name, expected value, found value\<close>
  | BadRepoName string
  | Constraint                        \<comment> \<open>UNIQUE, PRIMARY KEY, CHECK or FOREIGN KEY\<close>
  | Unavailable                       \<comment> \<open>a server secret is not on the replica and the lease is held elsewhere\<close>
  | DbError

definition ZeroSHA :: string where
  "ZeroSHA = ''0000000000000000000000000000000000000000''"

definition VisibilityPrivate :: string where "VisibilityPrivate = ''private''"
definition VisibilityPublic :: string where "VisibilityPublic = ''public''"

subsection \<open>Rows\<close>

record repo =
  repo_id :: int
  repo_name :: string
  default_branch :: string
  visibility :: string
  repo_created :: time

record ref_row =
  ref_repo :: int
  ref_name :: string
  ref_sha :: string
  ref_updated :: time

record user =
  user_id :: int
  handle :: string
  is_admin :: bool
  user_created :: time

record token_row =
  token_id :: int
  token_user :: int
  selector :: string
  verifier :: string
  token_label :: string
  token_created :: time
  last_used :: "time option"
  expires_at :: "time option"
  repo_scope :: "int option"
  read_only :: bool

record acl_row =
  acl_repo :: int
  acl_user :: int
  acl_perm :: perm

record run =
  run_id :: int
  run_repo :: int
  run_ref :: string
  run_sha :: string
  run_stat :: run_status
  run_created :: time
  run_updated :: time

record job =
  job_id :: int
  job_run :: int
  job_name :: string
  job_stat :: run_status
  log_key :: string
  job_created :: time
  job_updated :: time

record secret_row =
  secret_repo :: int
  secret_name :: string
  secret_v :: int
  secret_iv :: bytes
  secret_ct :: bytes
  secret_created :: time

record db =
  repos :: "repo list"
  refs :: "ref_row list"
  users :: "user list"
  tokens :: "token_row list"
  acls :: "acl_row list"
  runs :: "run list"
  jobs :: "job list"
  ci_secrets :: "secret_row list"
  server_secrets :: "(string \<times> bytes) list"
  fk :: bool
  faults :: "bool list"

type_synonym 'a dbop = "db \<Rightarrow> (meta_error + 'a) \<times> db"

definition empty_db :: db where
  "empty_db = \<lparr>repos = [], refs = [], users = [], tokens = [], acls = [], runs = [], jobs = [],
     ci_secrets = [], server_secrets = [], fk = True, faults = []\<rparr>"

subsection \<open>Statements\<close>

definition sql :: "'a dbop \<Rightarrow> 'a dbop" where
  "sql f s = (case faults s of
       [] \<Rightarrow> f s
     | b # bs \<Rightarrow> (if b then (Inl DbError, s\<lparr>faults := bs\<rparr>) else f (s\<lparr>faults := bs\<rparr>)))"

definition query :: "(db \<Rightarrow> 'a) \<Rightarrow> 'a dbop" where
  "query f = sql (\<lambda>s. (Inr (f s), s))"

text \<open>A query for one row: \<open>sql.ErrNoRows\<close> becomes \<open>ErrNotFound\<close>.\<close>

definition query_row :: "(db \<Rightarrow> 'a option) \<Rightarrow> 'a dbop" where
  "query_row f = sql (\<lambda>s. (case f s of None \<Rightarrow> Inl NotFound | Some x \<Rightarrow> Inr x, s))"

text \<open>\<open>if errors.Is(err, ErrNotFound) { a }; if err != nil { b err }; c x\<close>\<close>

definition lookupE :: "('s \<Rightarrow> (meta_error + 'a) \<times> 's) \<Rightarrow> ('s \<Rightarrow> 'r \<times> 's) \<Rightarrow> (meta_error \<Rightarrow> 's \<Rightarrow> 'r \<times> 's)
    \<Rightarrow> ('a \<Rightarrow> 's \<Rightarrow> 'r \<times> 's) \<Rightarrow> 's \<Rightarrow> 'r \<times> 's" where
  "lookupE m a b c = handleE m (\<lambda>r. case r of Inr x \<Rightarrow> c x | Inl e \<Rightarrow> if e = NotFound then a else b e)"

lemma keeps_lookupE [keeps_intro]:
  "keeps P m \<Longrightarrow> keeps P a \<Longrightarrow> (\<And>e. keeps P (b e)) \<Longrightarrow> (\<And>x. keeps P (c x)) \<Longrightarrow> keeps P (lookupE m a b c)"
  unfolding lookupE_def by (auto intro!: keeps_handleE split: sum.split)

lemma lookupE_found [simp]: "m s = (Inr x, t) \<Longrightarrow> lookupE m a b c s = c x t"
  by (simp add: lookupE_def handleE_def)

lemma lookupE_missing [simp]: "m s = (Inl NotFound, t) \<Longrightarrow> lookupE m a b c s = a t"
  by (simp add: lookupE_def handleE_def)

lemma lookupE_failed [simp]: "m s = (Inl e, t) \<Longrightarrow> e \<noteq> NotFound \<Longrightarrow> lookupE m a b c s = b e t"
  by (simp add: lookupE_def handleE_def)

lemma lookupE_cases:
  assumes "lookupE m a b c s = (r, t)"
  obtains x u where "m s = (Inr x, u)" "c x u = (r, t)"
  | u where "m s = (Inl NotFound, u)" "a u = (r, t)"
  | e u where "m s = (Inl e, u)" "e \<noteq> NotFound" "b e u = (r, t)"
  using assms by (auto simp: lookupE_def handleE_def split: prod.splits sum.splits if_splits)

definition has_repo :: "db \<Rightarrow> int \<Rightarrow> bool" where
  "has_repo s i \<longleftrightarrow> (\<exists>r \<in> set (repos s). repo_id r = i)"

definition has_user :: "db \<Rightarrow> int \<Rightarrow> bool" where
  "has_user s i \<longleftrightarrow> (\<exists>u \<in> set (users s). user_id u = i)"

definition has_run :: "db \<Rightarrow> int \<Rightarrow> bool" where
  "has_run s i \<longleftrightarrow> (\<exists>r \<in> set (runs s). run_id r = i)"

definition no_faults :: "db \<Rightarrow> bool" where
  "no_faults s \<longleftrightarrow> faults s = []"

lemma sql_no_faults [simp]: "no_faults s \<Longrightarrow> sql f s = f s"
  by (simp add: sql_def no_faults_def)

lemma query_no_faults [simp]: "no_faults s \<Longrightarrow> query f s = (Inr (f s), s)"
  by (simp add: query_def)

lemma query_row_no_faults [simp]:
  "no_faults s \<Longrightarrow> query_row f s = (case f s of None \<Rightarrow> Inl NotFound | Some x \<Rightarrow> Inr x, s)"
  by (simp add: query_row_def)

text \<open>What a statement can have done: failed without an effect, or run on the same tables.\<close>

lemma sql_outcome:
  "\<exists>fs. sql f s = (Inl DbError, s\<lparr>faults := fs\<rparr>) \<or> sql f s = f (s\<lparr>faults := fs\<rparr>)"
proof (cases "faults s")
  case Nil
  then have e: "s\<lparr>faults := []\<rparr> = s" by (cases s) simp
  have "sql f s = f (s\<lparr>faults := []\<rparr>)" by (simp only: e sql_def Nil list.case)
  then show ?thesis by blast
next
  case (Cons b bs)
  then show ?thesis by (cases b) (auto simp: sql_def)
qed

lemma sql_Inr: "sql f s = (Inr x, t) \<Longrightarrow> \<exists>fs. f (s\<lparr>faults := fs\<rparr>) = (Inr x, t)"
  using sql_outcome[of f s] by auto

definition fault_free :: "(db \<Rightarrow> bool) \<Rightarrow> bool" where
  "fault_free P \<longleftrightarrow> (\<forall>s fs. P (s\<lparr>faults := fs\<rparr>) = P s)"

lemma keeps_sql:
  assumes "fault_free P" "keeps P f"
  shows "keeps P (sql f)"
proof
  fix s assume "P s"
  with assms have P: "P (s\<lparr>faults := fs\<rparr>)" for fs by (simp add: fault_free_def)
  obtain fs where "sql f s = (Inl DbError, s\<lparr>faults := fs\<rparr>) \<or> sql f s = f (s\<lparr>faults := fs\<rparr>)"
    using sql_outcome[of f s] by blast
  then show "P (snd (sql f s))" using P keepsD[OF assms(2) P] by auto
qed

lemma keeps_query [keeps_intro]: "fault_free P \<Longrightarrow> keeps P (query f)"
  unfolding query_def by (rule keeps_sql) (auto intro: keepsI)

lemma keeps_query_row [keeps_intro]: "fault_free P \<Longrightarrow> keeps P (query_row f)"
  unfolding query_row_def by (rule keeps_sql) (auto intro: keepsI)

lemma query_Inr: "query f s = (Inr x, t) \<Longrightarrow> \<exists>fs. t = s\<lparr>faults := fs\<rparr> \<and> x = f t"
  unfolding query_def by (drule sql_Inr) auto

lemma query_row_Inr: "query_row f s = (Inr x, t) \<Longrightarrow> \<exists>fs. t = s\<lparr>faults := fs\<rparr> \<and> f t = Some x"
  unfolding query_row_def by (drule sql_Inr) (auto split: option.splits)

subsection \<open>The invariant of the schema\<close>

definition key_ok :: "('r \<Rightarrow> int) \<Rightarrow> 'r list \<Rightarrow> bool" where
  "key_ok key rows \<longleftrightarrow> distinct (map key rows) \<and> (\<forall>r \<in> set rows. 0 < key r)"

definition repos_ok :: "db \<Rightarrow> bool" where
  "repos_ok s \<longleftrightarrow> key_ok repo_id (repos s) \<and> distinct (map repo_name (repos s)) \<and>
     (\<forall>r \<in> set (repos s). visibility r \<in> {VisibilityPrivate, VisibilityPublic})"

definition refs_ok :: "db \<Rightarrow> bool" where
  "refs_ok s \<longleftrightarrow> distinct (map (\<lambda>r. (ref_repo r, ref_name r)) (refs s)) \<and>
     (\<forall>r \<in> set (refs s). ref_sha r \<noteq> [] \<and> ref_sha r \<noteq> ZeroSHA) \<and>
     (fk s \<longrightarrow> (\<forall>r \<in> set (refs s). has_repo s (ref_repo r)))"

definition users_ok :: "db \<Rightarrow> bool" where
  "users_ok s \<longleftrightarrow> key_ok user_id (users s) \<and> distinct (map handle (users s))"

fun scope_ok :: "db \<Rightarrow> int option \<Rightarrow> bool" where
  "scope_ok s None = True"
| "scope_ok s (Some i) = has_repo s i"

lemma scope_ok_iff: "scope_ok s x \<longleftrightarrow> (\<forall>i. x = Some i \<longrightarrow> has_repo s i)"
  by (cases x) auto

definition tokens_ok :: "db \<Rightarrow> bool" where
  "tokens_ok s \<longleftrightarrow> key_ok token_id (tokens s) \<and> distinct (map selector (tokens s)) \<and>
     (fk s \<longrightarrow> (\<forall>t \<in> set (tokens s). has_user s (token_user t) \<and>
        scope_ok s (repo_scope t)))"

definition acls_ok :: "db \<Rightarrow> bool" where
  "acls_ok s \<longleftrightarrow> distinct (map (\<lambda>a. (acl_repo a, acl_user a)) (acls s)) \<and>
     (\<forall>a \<in> set (acls s). acl_perm a \<in> {PermRead, PermWrite, PermAdmin}) \<and>
     (fk s \<longrightarrow> (\<forall>a \<in> set (acls s). has_repo s (acl_repo a) \<and> has_user s (acl_user a)))"

definition ci_ok :: "db \<Rightarrow> bool" where
  "ci_ok s \<longleftrightarrow> key_ok run_id (runs s) \<and> key_ok job_id (jobs s) \<and>
     (fk s \<longrightarrow> (\<forall>r \<in> set (runs s). has_repo s (run_repo r)) \<and>
       (\<forall>j \<in> set (jobs s). has_run s (job_run j)))"

definition secrets_ok :: "db \<Rightarrow> bool" where
  "secrets_ok s \<longleftrightarrow> distinct (map (\<lambda>r. (secret_repo r, secret_name r)) (ci_secrets s)) \<and>
     distinct (map fst (server_secrets s)) \<and>
     (fk s \<longrightarrow> (\<forall>r \<in> set (ci_secrets s). has_repo s (secret_repo r)))"

definition db_ok :: "db \<Rightarrow> bool" where
  "db_ok s \<longleftrightarrow> repos_ok s \<and> refs_ok s \<and> users_ok s \<and> tokens_ok s \<and> acls_ok s \<and> ci_ok s \<and> secrets_ok s"

lemmas tables_ok_defs = repos_ok_def refs_ok_def users_ok_def tokens_ok_def acls_ok_def
  ci_ok_def secrets_ok_def

lemmas has_defs = scope_ok_iff has_repo_def has_user_def has_run_def

lemma fault_free_db_ok [keeps_intro]: "fault_free db_ok"
  by (simp add: fault_free_def db_ok_def tables_ok_defs has_defs)

lemma db_ok_faults [simp]: "db_ok (s\<lparr>faults := fs\<rparr>) = db_ok s"
  using fault_free_db_ok by (simp add: fault_free_def)

lemma db_ok_empty: "db_ok empty_db"
  by (simp add: db_ok_def tables_ok_defs empty_db_def key_ok_def)

lemma key_ok_insert [table]:
  "key_ok key rows \<Longrightarrow> key row = next_id key rows \<Longrightarrow> key_ok key (rows @ [row])"
  using next_id_notin[of key rows] next_id_pos[of key rows] by (auto simp: key_ok_def)

lemma key_ok_update [table]:
  assumes "\<And>r. key (f r) = key r" "key_ok key rows"
  shows "key_ok key (update_where P f rows)"
proof -
  have "map key (update_where P f rows) = map key rows" by (rule map_update_where) (rule assms(1))
  moreover have "\<forall>r \<in> set (update_where P f rows). 0 < key r"
    using assms by (auto simp: key_ok_def set_update_where)
  ultimately show ?thesis using assms(2) by (simp add: key_ok_def)
qed

lemma key_ok_delete [table]: "key_ok key rows \<Longrightarrow> key_ok key (delete_where P rows)"
  by (simp add: key_ok_def distinct_map_delete_where)

text \<open>
  Each component of the invariant reads its own table, and of the others only which
  repository, user and run ids exist: an operation proves the part of its own table.
\<close>

lemma keeps_db_okI:
  assumes "\<And>s. db_ok s \<Longrightarrow> db_ok (snd (m s))"
  shows "keeps db_ok m"
  by (rule keepsI) (rule assms)

section \<open>A sample\<close>

text \<open>
  A database with a public and a private repository, an administrator and two users, on
  which the examples of the later theories run. The token of bob is \<open>gmt_ab.cd\<close>, for a hash
  function that is the identity; carol has no access rule.
\<close>

definition sha1_a :: string where "sha1_a = ''aaaaaaaaaaaaaaaaaaaaaaaaaaaaaaaaaaaaaaaa''"
definition sha1_b :: string where "sha1_b = ''bbbbbbbbbbbbbbbbbbbbbbbbbbbbbbbbbbbbbbbb''"

definition sample_db :: db where
  "sample_db = \<lparr>
     repos = [\<lparr>repo_id = 1, repo_name = ''site'', default_branch = ''main'', visibility = ''public'', repo_created = 0\<rparr>,
              \<lparr>repo_id = 2, repo_name = ''app'', default_branch = ''main'', visibility = ''private'', repo_created = 0\<rparr>],
     refs = [\<lparr>ref_repo = 2, ref_name = ''refs/heads/main'', ref_sha = sha1_a, ref_updated = 0\<rparr>],
     users = [\<lparr>user_id = 1, handle = ''root'', is_admin = True, user_created = 0\<rparr>,
              \<lparr>user_id = 2, handle = ''bob'', is_admin = False, user_created = 0\<rparr>,
              \<lparr>user_id = 3, handle = ''carol'', is_admin = False, user_created = 0\<rparr>],
     tokens = [\<lparr>token_id = 1, token_user = 2, selector = ''ab'', verifier = ''6364'', token_label = ''laptop'',
                token_created = 0, last_used = None, expires_at = Some 100, repo_scope = None, read_only = False\<rparr>],
     acls = [\<lparr>acl_repo = 2, acl_user = 2, acl_perm = PermWrite\<rparr>],
     runs = [\<lparr>run_id = 1, run_repo = 2, run_ref = ''refs/heads/main'', run_sha = sha1_a, run_stat = RunQueued,
              run_created = 0, run_updated = 0\<rparr>],
     jobs = [\<lparr>job_id = 1, job_run = 1, job_name = ''build.yml'', job_stat = RunQueued, log_key = [],
              job_created = 0, job_updated = 0\<rparr>,
             \<lparr>job_id = 2, job_run = 1, job_name = ''test.yml'', job_stat = RunRunning, log_key = [],
              job_created = 0, job_updated = 0\<rparr>],
     ci_secrets = [], server_secrets = [(''cookie_key'', ''k'')], fk = True, faults = []\<rparr>"

lemma sample_db_ok [simp]: "db_ok sample_db"
  by code_simp

lemma sample_no_faults [simp]: "no_faults sample_db"
  by (simp add: no_faults_def sample_db_def)

end
