(* ===== verification/MetaRefs.thy ===== *)
theory MetaRefs
  imports MetaDB
begin

text \<open>
  \<open>internal/meta/refs.go\<close>: the refs of a repository and the compare-and-swap that moves
  them. \<open>CASRefs\<close> is one transaction: it applies all its updates or none. The abstract
  specification is a partial map from ref names to object ids, changed by a list of
  guarded assignments; \<open>cas_refs_correct\<close> says that the SQL implements it, whatever
  statement fails. The locale \<open>cas_store\<close> is what a client of the ref table relies on.
\<close>

record ref_update =
  up_name :: string
  up_old :: string
  up_new :: string

definition normalizeSHA :: "string \<Rightarrow> string" where
  "normalizeSHA sha = (if sha = ZeroSHA then [] else sha)"

definition absentAsZero :: "string \<Rightarrow> string" where
  "absentAsZero sha = (if sha = [] then ZeroSHA else sha)"

definition ListRefs :: "int \<Rightarrow> ref_row list dbop" where
  "ListRefs repo = query (\<lambda>s. sort_key ref_name (filter (\<lambda>r. ref_repo r = repo) (refs s)))"

abbreviation is_ref :: "int \<Rightarrow> string \<Rightarrow> ref_row \<Rightarrow> bool" where
  "is_ref repo name r \<equiv> ref_repo r = repo \<and> ref_name r = name"

definition select_ref :: "int \<Rightarrow> string \<Rightarrow> string dbop" where
  "select_ref repo name = query (\<lambda>s. case first_where (is_ref repo name) (refs s) of
       None \<Rightarrow> [] | Some r \<Rightarrow> ref_sha r)"

definition insert_ref :: "ref_row \<Rightarrow> unit dbop" where
  "insert_ref row = sql (\<lambda>s.
     if (\<exists>r \<in> set (refs s). is_ref (ref_repo row) (ref_name row) r) \<or>
        fk s \<and> \<not> has_repo s (ref_repo row)
     then (Inl Constraint, s) else (Inr (), s\<lparr>refs := refs s @ [row]\<rparr>))"

text \<open>The \<open>switch\<close> of \<open>casOne\<close>: delete, create or update.\<close>

definition writeRef :: "int \<Rightarrow> string \<Rightarrow> string \<Rightarrow> string \<Rightarrow> time \<Rightarrow> unit dbop" where
  "writeRef repo name current new ts =
     (if new = []
      then sql (\<lambda>s. (Inr (), s\<lparr>refs := delete_where (is_ref repo name) (refs s)\<rparr>))
      else if current = []
      then insert_ref \<lparr>ref_repo = repo, ref_name = name, ref_sha = new, ref_updated = ts\<rparr>
      else sql (\<lambda>s. (Inr (), s\<lparr>refs := update_where (is_ref repo name)
                  (\<lambda>r. r\<lparr>ref_sha := new, ref_updated := ts\<rparr>) (refs s)\<rparr>)))"

definition casOne :: "int \<Rightarrow> ref_update \<Rightarrow> time \<Rightarrow> unit dbop" where
  "casOne repo u ts =
     bindE (select_ref repo (up_name u)) (\<lambda>current.
       let want = normalizeSHA (up_old u) in
       if normalizeSHA current \<noteq> want
       then errE (CasMismatch (up_name u) want (normalizeSHA current))
       else writeRef repo (up_name u) current (normalizeSHA (up_new u)) ts)"

fun casLoop :: "int \<Rightarrow> ref_update list \<Rightarrow> time \<Rightarrow> unit dbop" where
  "casLoop repo [] ts = retE ()"
| "casLoop repo (u # us) ts = bindE (casOne repo u ts) (\<lambda>_. casLoop repo us ts)"

text \<open>Begin, the loop, Commit. A failed update or Commit leaves the tables of Begin.\<close>

definition in_tx :: "int \<Rightarrow> ref_update list \<Rightarrow> time \<Rightarrow> unit dbop" where
  "in_tx repo us ts = bindE (casLoop repo us ts) (\<lambda>_. sql (\<lambda>s. (Inr (), s)))"

definition begin_tx :: "db dbop" where
  "begin_tx = sql (\<lambda>s. (Inr s, s))"

definition CASRefs :: "int \<Rightarrow> ref_update list \<Rightarrow> time \<Rightarrow> unit dbop" where
  "CASRefs repo us ts = (if us = [] then retE () else
     bindE begin_tx (\<lambda>s0. handleE (in_tx repo us ts) (\<lambda>r s.
         case r of Inl e \<Rightarrow> (Inl e, s\<lparr>refs := refs s0\<rparr>) | Inr _ \<Rightarrow> (Inr (), s))))"

definition CASRef :: "int \<Rightarrow> string \<Rightarrow> string \<Rightarrow> string \<Rightarrow> time \<Rightarrow> unit dbop" where
  "CASRef repo name old new ts = CASRefs repo [\<lparr>up_name = name, up_old = old, up_new = new\<rparr>] ts"

subsection \<open>The abstract ref map\<close>

definition ref_lookup :: "ref_row list \<Rightarrow> int \<Rightarrow> string \<Rightarrow> string option" where
  "ref_lookup rows repo name = map_option ref_sha (first_where (is_ref repo name) rows)"

abbreviation ref_map :: "db \<Rightarrow> int \<Rightarrow> string \<Rightarrow> string option" where
  "ref_map s \<equiv> ref_lookup (refs s)"

definition sha_opt :: "string \<Rightarrow> string option" where
  "sha_opt sha = (if sha = [] \<or> sha = ZeroSHA then None else Some sha)"

fun abs_cas :: "ref_update list \<Rightarrow> (string \<Rightarrow> string option) \<Rightarrow> (string \<Rightarrow> string option) option" where
  "abs_cas [] m = Some m"
| "abs_cas (u # us) m =
     (if m (up_name u) = sha_opt (up_old u) then abs_cas us (m(up_name u := sha_opt (up_new u)))
      else None)"

lemma normalizeSHA_opt: "normalizeSHA sha = (case sha_opt sha of None \<Rightarrow> [] | Some x \<Rightarrow> x)"
  by (auto simp: normalizeSHA_def sha_opt_def)

lemma sha_opt_inj: "normalizeSHA a = normalizeSHA b \<longleftrightarrow> sha_opt a = sha_opt b"
  by (auto simp: normalizeSHA_def sha_opt_def)

lemma ZeroSHA_ne [simp]: "ZeroSHA \<noteq> []" "[] \<noteq> ZeroSHA"
  by (simp_all add: ZeroSHA_def)

lemma select_ref_Inr:
  "select_ref repo name s = (Inr c, t) \<Longrightarrow>
   \<exists>fs. t = s\<lparr>faults := fs\<rparr> \<and> c = (case ref_map s repo name of None \<Rightarrow> [] | Some x \<Rightarrow> x)"
  unfolding select_ref_def
  by (drule query_Inr) (auto simp: ref_lookup_def split: option.splits)

lemma refs_ok_sha: "refs_ok s \<Longrightarrow> ref_map s repo name = Some x \<Longrightarrow> x \<noteq> [] \<and> x \<noteq> ZeroSHA"
  unfolding refs_ok_def ref_lookup_def by (auto dest!: first_where_Some)

lemma select_ref_opt:
  assumes "refs_ok s" "select_ref repo name s = (Inr c, t)"
  shows "sha_opt c = ref_map s repo name" "c = [] \<longleftrightarrow> ref_map s repo name = None"
    "normalizeSHA c = c" "\<exists>fs. t = s\<lparr>faults := fs\<rparr>"
  using select_ref_Inr[OF assms(2)] refs_ok_sha[OF assms(1), of repo name]
  by (auto simp: sha_opt_def normalizeSHA_def split: option.splits)

lemma first_where_delete:
  "first_where P (delete_where Q rows) = first_where (\<lambda>r. P r \<and> \<not> Q r) rows"
  by (induction rows) (auto simp: delete_where_def)

lemma ref_lookup_delete:
  "ref_lookup (delete_where (is_ref repo name) rows) r =
     (if r = repo then (ref_lookup rows r)(name := None) else ref_lookup rows r)"
proof
  fix n
  have "(\<lambda>x. is_ref r n x \<and> \<not> is_ref repo name x) =
      (if r = repo \<and> n = name then (\<lambda>_. False) else is_ref r n)" by auto
  then show "ref_lookup (delete_where (is_ref repo name) rows) r n =
     (if r = repo then (ref_lookup rows r)(name := None) else ref_lookup rows r) n"
    by (simp add: ref_lookup_def first_where_delete)
qed

lemma ref_lookup_insert:
  assumes "ref_lookup rows (ref_repo row) (ref_name row) = None"
  shows "ref_lookup (rows @ [row]) r =
     (if r = ref_repo row then (ref_lookup rows r)(ref_name row := Some (ref_sha row))
      else ref_lookup rows r)"
  using assms by (auto simp: ref_lookup_def fun_eq_iff first_where_append split: option.splits)

lemma first_where_update:
  assumes "\<And>r. P (f r) = P r"
  shows "first_where P (update_where Q f rows) =
    map_option (\<lambda>r. if Q r then f r else r) (first_where P rows)"
  by (induction rows) (auto simp: update_where_def assms)

lemma ref_lookup_update:
  assumes "ref_lookup rows repo name \<noteq> None"
  shows "ref_lookup (update_where (is_ref repo name) (\<lambda>r. r\<lparr>ref_sha := x, ref_updated := ts\<rparr>) rows) r =
    (if r = repo then (ref_lookup rows r)(name := Some x) else ref_lookup rows r)"
proof
  fix n
  show "ref_lookup (update_where (is_ref repo name) (\<lambda>r. r\<lparr>ref_sha := x, ref_updated := ts\<rparr>) rows) r n =
    (if r = repo then (ref_lookup rows r)(name := Some x) else ref_lookup rows r) n"
  proof (cases "first_where (is_ref r n) rows")
    case None
    with assms show ?thesis by (auto simp: ref_lookup_def first_where_update)
  next
    case (Some a)
    moreover from first_where_Some[OF Some] have "ref_repo a = r" "ref_name a = n" by auto
    ultimately show ?thesis by (auto simp: ref_lookup_def first_where_update)
  qed
qed

subsection \<open>Each operation keeps the invariant\<close>

lemma db_ok_refsI:
  assumes "db_ok s" "distinct (map (\<lambda>r. (ref_repo r, ref_name r)) rows)"
    "\<And>r. r \<in> set rows \<Longrightarrow> ref_sha r \<noteq> [] \<and> ref_sha r \<noteq> ZeroSHA"
    "\<And>r. fk s \<Longrightarrow> r \<in> set rows \<Longrightarrow> has_repo s (ref_repo r)"
  shows "db_ok (s\<lparr>refs := rows\<rparr>)"
  using assms by (simp add: db_ok_def tables_ok_defs has_defs)

lemma keeps_delete_ref:
  "keeps db_ok (sql (\<lambda>s. (Inr (), s\<lparr>refs := delete_where P (refs s)\<rparr>)))"
  by (intro keeps_sql fault_free_db_ok keepsI, unfold snd_conv, rule db_ok_refsI)
     (auto simp: db_ok_def refs_ok_def table)

lemma keeps_update_ref:
  assumes "x \<noteq> []" "x \<noteq> ZeroSHA"
  shows "keeps db_ok (sql (\<lambda>s. (Inr (), s\<lparr>refs := update_where P
    (\<lambda>r. r\<lparr>ref_sha := x, ref_updated := ts\<rparr>) (refs s)\<rparr>)))"
  by (intro keeps_sql fault_free_db_ok keepsI, unfold snd_conv, rule db_ok_refsI)
     (auto simp: db_ok_def refs_ok_def table set_update_where assms)

lemma keeps_insert_ref:
  assumes "ref_sha row \<noteq> []" "ref_sha row \<noteq> ZeroSHA"
  shows "keeps db_ok (insert_ref row)"
  unfolding insert_ref_def
proof (intro keeps_sql fault_free_db_ok keepsI)
  fix s assume s: "db_ok s"
  then have r: "refs_ok s" by (simp add: db_ok_def)
  have "db_ok (s\<lparr>refs := refs s @ [row]\<rparr>)"
    if "\<not> (\<exists>r \<in> set (refs s). is_ref (ref_repo row) (ref_name row) r)" "fk s \<Longrightarrow> has_repo s (ref_repo row)"
    using that r assms by (intro db_ok_refsI[OF s]) (auto simp: refs_ok_def)
  with s show "db_ok (snd (if (\<exists>r \<in> set (refs s). is_ref (ref_repo row) (ref_name row) r) \<or>
        fk s \<and> \<not> has_repo s (ref_repo row)
     then (Inl Constraint, s) else (Inr (), s\<lparr>refs := refs s @ [row]\<rparr>)))"
    by auto
qed

lemma keeps_writeRef: "new \<noteq> ZeroSHA \<Longrightarrow> keeps db_ok (writeRef repo name current new ts)"
  unfolding writeRef_def by (auto intro!: keeps_delete_ref keeps_update_ref keeps_insert_ref)

lemma keeps_casOne [keeps_intro]: "keeps db_ok (casOne repo u ts)"
proof -
  have z: "normalizeSHA x \<noteq> ZeroSHA" for x by (simp add: normalizeSHA_def)
  show ?thesis
    unfolding casOne_def select_ref_def Let_def
    using z by (auto intro!: keeps_bindE keeps_query fault_free_db_ok keeps_errE keeps_writeRef)
qed

lemma keeps_casLoop [keeps_intro]: "keeps db_ok (casLoop repo us ts)"
  by (induction us) (auto intro!: keeps_intro)

text \<open>No operation on refs touches another table.\<close>

definition refs_frame :: "db \<Rightarrow> db \<Rightarrow> bool" where
  "refs_frame s0 t \<longleftrightarrow> t\<lparr>refs := [], faults := []\<rparr> = s0\<lparr>refs := [], faults := []\<rparr>"

lemma refs_frame_refl [simp]: "refs_frame s s"
  by (simp add: refs_frame_def)

lemma fault_free_refs_frame [keeps_intro]: "fault_free (refs_frame s0)"
  by (simp add: fault_free_def refs_frame_def)

lemma keeps_frame_write:
  "keeps (refs_frame s0) (sql (\<lambda>s. (Inr (), s\<lparr>refs := f s\<rparr>)))"
  by (intro keeps_sql fault_free_refs_frame keepsI) (simp add: refs_frame_def)

lemma keeps_frame_insert: "keeps (refs_frame s0) (insert_ref row)"
  unfolding insert_ref_def
  by (intro keeps_sql fault_free_refs_frame keepsI) (simp add: refs_frame_def)

lemma keeps_frame_casOne: "keeps (refs_frame s0) (casOne repo u ts)"
  unfolding casOne_def select_ref_def Let_def writeRef_def
  by (auto intro!: keeps_bindE keeps_query fault_free_refs_frame keeps_errE keeps_frame_write
      keeps_frame_insert)

lemma keeps_frame_casLoop: "keeps (refs_frame s0) (casLoop repo us ts)"
  by (induction us) (auto intro!: keeps_bindE keeps_retE keeps_frame_casOne)

lemma begin_tx_outcome:
  "\<exists>fs. begin_tx s = (Inl DbError, s\<lparr>faults := fs\<rparr>) \<or>
        begin_tx s = (Inr (s\<lparr>faults := fs\<rparr>), s\<lparr>faults := fs\<rparr>)"
  unfolding begin_tx_def by (rule sql_outcome)

lemma CASRefs_outcome:
  assumes "CASRefs repo us ts s = (r, t)" "us \<noteq> []"
  obtains fs where "r = Inl DbError" "t = s\<lparr>faults := fs\<rparr>"
  | fs e u where "in_tx repo us ts (s\<lparr>faults := fs\<rparr>) = (Inl e, u)" "r = Inl e" "t = u\<lparr>refs := refs s\<rparr>"
  | fs where "in_tx repo us ts (s\<lparr>faults := fs\<rparr>) = (Inr (), t)" "r = Inr ()"
proof -
  obtain fs where "begin_tx s = (Inl DbError, s\<lparr>faults := fs\<rparr>) \<or>
      begin_tx s = (Inr (s\<lparr>faults := fs\<rparr>), s\<lparr>faults := fs\<rparr>)"
    using begin_tx_outcome[of s] by blast
  then show thesis
  proof
    assume "begin_tx s = (Inl DbError, s\<lparr>faults := fs\<rparr>)"
    with assms have "r = Inl DbError" "t = s\<lparr>faults := fs\<rparr>" by (auto simp: CASRefs_def bindE_def)
    then show thesis by (rule that(1))
  next
    assume b: "begin_tx s = (Inr (s\<lparr>faults := fs\<rparr>), s\<lparr>faults := fs\<rparr>)"
    obtain q u where q: "in_tx repo us ts (s\<lparr>faults := fs\<rparr>) = (q, u)" by (cases "in_tx repo us ts (s\<lparr>faults := fs\<rparr>)")
    with assms b have "(r, t) = (case q of Inl e \<Rightarrow> (Inl e, u\<lparr>refs := refs s\<rparr>) | Inr _ \<Rightarrow> (Inr (), u))"
      by (auto simp: CASRefs_def bindE_def handleE_def split: sum.splits)
    with q that(2,3) show thesis by (cases q) simp_all
  qed
qed

lemma keeps_in_tx: "keeps db_ok (in_tx repo us ts)"
  unfolding in_tx_def by (intro keeps_bindE keeps_casLoop keeps_sql fault_free_db_ok keepsI) simp

lemma keeps_frame_in_tx: "keeps (refs_frame s0) (in_tx repo us ts)"
  unfolding in_tx_def
  by (intro keeps_bindE keeps_frame_casLoop keeps_sql fault_free_refs_frame keepsI) simp

lemma in_tx_frame: "in_tx repo us ts (s\<lparr>faults := fs\<rparr>) = (r, u) \<Longrightarrow> refs_frame s u"
  using keeps_result[OF keeps_frame_in_tx[of s]] by (simp add: refs_frame_def)

lemma refs_frame_restore: "refs_frame s u \<Longrightarrow> u\<lparr>refs := refs s\<rparr> = s\<lparr>faults := faults u\<rparr>"
  unfolding refs_frame_def by (cases u; cases s) simp

text \<open>A failed call, whatever failed, leaves every table as it was.\<close>

lemma CASRefs_Inl:
  assumes "CASRefs repo us ts s = (Inl e, t)"
  shows "\<exists>fs. t = s\<lparr>faults := fs\<rparr>"
proof (cases "us = []")
  case True
  with assms show ?thesis by (simp add: CASRefs_def retE_def)
next
  case False
  show ?thesis
    using assms False
    by (rule CASRefs_outcome) (use refs_frame_restore[OF in_tx_frame] in blast)+
qed

lemma keeps_CASRefs [keeps_intro]: "keeps db_ok (CASRefs repo us ts)"
proof
  fix s assume s: "db_ok s"
  obtain r t where m: "CASRefs repo us ts s = (r, t)" by (cases "CASRefs repo us ts s")
  show "db_ok (snd (CASRefs repo us ts s))"
  proof (cases "us = []")
    case True
    with s show ?thesis by (simp add: CASRefs_def retE_def)
  next
    case False
    from m False show ?thesis
    proof (rule CASRefs_outcome)
      fix fs assume "in_tx repo us ts (s\<lparr>faults := fs\<rparr>) = (Inr (), t)"
      with s m show ?thesis using keeps_result[OF keeps_in_tx, of repo us ts "s\<lparr>faults := fs\<rparr>"] by simp
    qed (use s m refs_frame_restore[OF in_tx_frame] in auto)
  qed
qed

lemma CASRefs_frame: "CASRefs repo us ts s = (r, t) \<Longrightarrow> refs_frame s t"
proof (cases "us = []")
  case False
  assume m: "CASRefs repo us ts s = (r, t)"
  then show ?thesis using False
    by (rule CASRefs_outcome) (auto dest!: in_tx_frame simp: refs_frame_def)
qed (simp add: CASRefs_def retE_def)

subsection \<open>The transaction implements the abstract compare-and-swap\<close>

lemma sql_write_Inr:
  "sql (\<lambda>s. (Inr (), s\<lparr>refs := f (refs s)\<rparr>)) s = (Inr (), t) \<Longrightarrow> refs t = f (refs s)"
  by (drule sql_Inr) auto

lemma insert_ref_Inr: "insert_ref row s = (Inr (), t) \<Longrightarrow> refs t = refs s @ [row]"
  unfolding insert_ref_def by (drule sql_Inr) (auto split: if_splits)

lemma writeRef_Inr:
  assumes "writeRef repo name current new ts s = (Inr (), t)"
    and "current = [] \<longleftrightarrow> ref_map s repo name = None"
  shows "ref_map t r = (if r = repo
    then (ref_map s r)(name := (if new = [] then None else Some new)) else ref_map s r)"
proof -
  consider "new = []" | "new \<noteq> []" "current = []" | "new \<noteq> []" "current \<noteq> []" by blast
  then show ?thesis
  proof cases
    case 1
    with assms(1) have "refs t = delete_where (is_ref repo name) (refs s)"
      unfolding writeRef_def by (auto dest: sql_write_Inr)
    with 1 show ?thesis by (simp add: ref_lookup_delete)
  next
    case 2
    with assms have "refs t = refs s @ [\<lparr>ref_repo = repo, ref_name = name, ref_sha = new, ref_updated = ts\<rparr>]"
      unfolding writeRef_def by (auto dest: insert_ref_Inr)
    with 2 assms(2) show ?thesis by (simp add: ref_lookup_insert)
  next
    case 3
    with assms(1) have "refs t = update_where (is_ref repo name)
        (\<lambda>r. r\<lparr>ref_sha := new, ref_updated := ts\<rparr>) (refs s)"
      unfolding writeRef_def by (auto dest: sql_write_Inr)
    with 3 assms(2) show ?thesis by (simp add: ref_lookup_update)
  qed
qed

lemma casOne_Inr:
  assumes "db_ok s" "casOne repo u ts s = (Inr (), t)"
  shows "ref_map s repo (up_name u) = sha_opt (up_old u)"
    "ref_map t r = (if r = repo then (ref_map s r)(up_name u := sha_opt (up_new u)) else ref_map s r)"
proof -
  from assms(1) have ok: "refs_ok s" by (simp add: db_ok_def)
  obtain c s1 where sel: "select_ref repo (up_name u) s = (Inr c, s1)"
    using assms(2) by (auto simp: casOne_def bindE_Inr)
  note c = select_ref_opt[OF ok sel]
  have eq: "normalizeSHA c = normalizeSHA (up_old u)"
    and w: "writeRef repo (up_name u) c (normalizeSHA (up_new u)) ts s1 = (Inr (), t)"
    using assms(2) sel by (auto simp: casOne_def bindE_def errE_def Let_def split: if_splits)
  from c(4) have s1: "refs s1 = refs s" by auto
  from eq c(1) show "ref_map s repo (up_name u) = sha_opt (up_old u)" by (simp add: sha_opt_inj)
  have "(if normalizeSHA (up_new u) = [] then None else Some (normalizeSHA (up_new u))) = sha_opt (up_new u)"
    by (simp add: normalizeSHA_def sha_opt_def)
  with writeRef_Inr[OF w] c(2) s1
  show "ref_map t r = (if r = repo then (ref_map s r)(up_name u := sha_opt (up_new u)) else ref_map s r)"
    by simp
qed

lemma casLoop_Inr:
  "db_ok s \<Longrightarrow> casLoop repo us ts s = (Inr (), t) \<Longrightarrow>
   abs_cas us (ref_map s repo) = Some (ref_map t repo) \<and> (\<forall>r. r \<noteq> repo \<longrightarrow> ref_map t r = ref_map s r)"
proof (induction us arbitrary: s)
  case Nil
  then show ?case by (simp add: retE_def)
next
  case (Cons u us)
  then obtain s1 where one: "casOne repo u ts s = (Inr (), s1)" and rest: "casLoop repo us ts s1 = (Inr (), t)"
    by (auto simp: bindE_Inr)
  have "db_ok s1" using keeps_result[OF keeps_casOne one] Cons.prems(1) .
  from Cons.IH[OF this rest] show ?case
    by (simp add: casOne_Inr(1)[OF Cons.prems(1) one] casOne_Inr(2)[OF Cons.prems(1) one] fun_upd_def)
qed

lemma in_tx_Inr: "in_tx repo us ts s = (Inr (), t) \<Longrightarrow>
    \<exists>u. casLoop repo us ts s = (Inr (), u) \<and> refs t = refs u"
  unfolding in_tx_def bindE_Inr by (auto dest!: sql_Inr)

lemma CASRefs_Inr:
  assumes "db_ok s" "CASRefs repo us ts s = (Inr (), t)"
  shows "abs_cas us (ref_map s repo) = Some (ref_map t repo)"
    and "r \<noteq> repo \<Longrightarrow> ref_map t r = ref_map s r"
proof -
  have "abs_cas us (ref_map s repo) = Some (ref_map t repo) \<and> (\<forall>r. r \<noteq> repo \<longrightarrow> ref_map t r = ref_map s r)"
  proof (cases "us = []")
    case True
    with assms show ?thesis by (simp add: CASRefs_def retE_def)
  next
    case False
    with assms(2) obtain fs where "in_tx repo us ts (s\<lparr>faults := fs\<rparr>) = (Inr (), t)"
      by (auto elim: CASRefs_outcome)
    then obtain u where u: "casLoop repo us ts (s\<lparr>faults := fs\<rparr>) = (Inr (), u)" and "refs t = refs u"
      by (auto dest: in_tx_Inr)
    with casLoop_Inr[OF _ u] assms(1) show ?thesis by simp
  qed
  then show "abs_cas us (ref_map s repo) = Some (ref_map t repo)"
    and "r \<noteq> repo \<Longrightarrow> ref_map t r = ref_map s r" by blast+
qed

text \<open>Without a failing statement, a call fails only because a comparison failed.\<close>

lemma no_faults_frame [simp]: "no_faults (s\<lparr>refs := x\<rparr>) = no_faults s"
  by (simp add: no_faults_def)

lemma casOne_total:
  assumes "db_ok s" "no_faults s" "has_repo s repo" "ref_map s repo (up_name u) = sha_opt (up_old u)"
  shows "\<exists>t. casOne repo u ts s = (Inr (), t) \<and> no_faults t \<and> has_repo t repo"
proof -
  from assms(1) have ok: "refs_ok s" by (simp add: db_ok_def)
  let ?c = "case first_where (is_ref repo (up_name u)) (refs s) of None \<Rightarrow> [] | Some r \<Rightarrow> ref_sha r"
  have sel: "select_ref repo (up_name u) s = (Inr ?c, s)" using assms(2) by (simp add: select_ref_def)
  note c = select_ref_opt[OF ok sel]
  have "normalizeSHA ?c = normalizeSHA (up_old u)" using c(1) assms(4) by (simp add: sha_opt_inj)
  moreover have "\<exists>t. writeRef repo (up_name u) ?c new ts s = (Inr (), t) \<and> no_faults t \<and> has_repo t repo" for new
    using assms(2,3) c(2)
    by (auto simp: writeRef_def insert_ref_def has_repo_def ref_lookup_def first_where_None)
  ultimately show ?thesis using sel by (simp add: casOne_def bindE_def Let_def)
qed

lemma casLoop_total:
  "db_ok s \<Longrightarrow> no_faults s \<Longrightarrow> has_repo s repo \<Longrightarrow> abs_cas us (ref_map s repo) \<noteq> None \<Longrightarrow>
   \<exists>t. casLoop repo us ts s = (Inr (), t) \<and> no_faults t"
proof (induction us arbitrary: s)
  case Nil
  then show ?case by (simp add: retE_def)
next
  case (Cons u us)
  then have eq: "ref_map s repo (up_name u) = sha_opt (up_old u)"
    and rest: "abs_cas us ((ref_map s repo)(up_name u := sha_opt (up_new u))) \<noteq> None"
    by (auto split: if_splits)
  obtain s1 where one: "casOne repo u ts s = (Inr (), s1)" "no_faults s1" "has_repo s1 repo"
    using casOne_total[OF Cons.prems(1-3) eq] by blast
  have "abs_cas us (ref_map s1 repo) \<noteq> None"
    using rest by (simp add: casOne_Inr(2)[OF Cons.prems(1) one(1)])
  from Cons.IH[OF keeps_result[OF keeps_casOne one(1) Cons.prems(1)] one(2,3) this] one(1)
  show ?case by (simp add: bindE_def)
qed

subsection \<open>What a client of the ref table relies on\<close>

locale cas_store =
  fixes lookup :: "'s \<Rightarrow> int \<Rightarrow> string \<Rightarrow> string option"
    and cas :: "int \<Rightarrow> ref_update list \<Rightarrow> 's \<Rightarrow> (meta_error + unit) \<times> 's"
    and ok :: "'s \<Rightarrow> bool"
  assumes cas_applies: "ok s \<Longrightarrow> cas repo us s = (Inr (), t) \<Longrightarrow>
      abs_cas us (lookup s repo) = Some (lookup t repo)"
    and cas_local: "ok s \<Longrightarrow> cas repo us s = (Inr (), t) \<Longrightarrow> r \<noteq> repo \<Longrightarrow> lookup t r = lookup s r"
    and cas_atomic: "ok s \<Longrightarrow> cas repo us s = (Inl e, t) \<Longrightarrow> lookup t = lookup s"
    and cas_ok: "ok s \<Longrightarrow> ok (snd (cas repo us s))"
begin

lemma cas_ok_result: "ok s \<Longrightarrow> cas repo us s = (r, t) \<Longrightarrow> ok t"
  using cas_ok[of s repo us] by simp

lemma abs_cas_values:
  "abs_cas us m = Some m' \<Longrightarrow> m' n = Some x \<Longrightarrow>
   m n = Some x \<or> (\<exists>u \<in> set us. up_name u = n \<and> sha_opt (up_new u) = Some x)"
proof (induction us arbitrary: m)
  case (Cons u us)
  then have "abs_cas us (m(up_name u := sha_opt (up_new u))) = Some m'" by (simp split: if_splits)
  from Cons.IH[OF this Cons.prems(2)] show ?case by (auto split: if_splits)
qed simp

text \<open>
  Whatever holds of every stored id before, and of every new id of the updates, holds of
  every stored id after, if the call succeeds or not.
\<close>

lemma cas_preserves_all:
  assumes "ok s" "cas repo us s = (r, t)"
    and "\<And>i n x. lookup s i n = Some x \<Longrightarrow> Q i x"
    and "\<And>u x. u \<in> set us \<Longrightarrow> sha_opt (up_new u) = Some x \<Longrightarrow> Q repo x"
    and "lookup t i n = Some x"
  shows "Q i x"
proof (cases r)
  case (Inl e)
  with assms show ?thesis using cas_atomic[of s repo us e t] by simp
next
  case (Inr v)
  with assms(2) have c: "cas repo us s = (Inr (), t)" by simp
  show ?thesis
  proof (cases "i = repo")
    case True
    with abs_cas_values[OF cas_applies[OF assms(1) c]] assms(3-5) show ?thesis by blast
  next
    case False
    with cas_local[OF assms(1) c] assms(3,5) show ?thesis by simp
  qed
qed

text \<open>Of two updates that expect the same old value, the second one loses.\<close>

lemma single_winner:
  assumes "ok s" "cas repo [u] s = (Inr (), t)" "sha_opt (up_new u) \<noteq> sha_opt (up_old u)"
    and "up_name v = up_name u" "sha_opt (up_old v) = sha_opt (up_old u)"
    and "cas repo [v] t = (r, w)"
  shows "\<exists>e. r = Inl e"
proof (cases r)
  case (Inr x)
  then have "r = Inr ()" by simp
  with assms have "abs_cas [v] (lookup t repo) = Some (lookup w repo)"
    using cas_applies cas_ok_result by blast
  moreover have "lookup t repo (up_name u) = sha_opt (up_new u)"
    using cas_applies[OF assms(1,2)] by (auto split: if_splits dest: fun_cong[of _ _ "up_name u"])
  ultimately show ?thesis using assms(3-5) by (auto split: if_splits)
qed simp

end

interpretation meta_refs: cas_store ref_map "\<lambda>repo us. CASRefs repo us ts" db_ok for ts
proof (unfold_locales, goal_cases)
  case (1 s repo us t) then show ?case by (rule CASRefs_Inr(1))
next
  case (2 s repo us t r) then show ?case by (rule CASRefs_Inr(2))
next
  case (3 s repo us e t) then show ?case by (auto dest: CASRefs_Inl)
next
  case (4 s repo us) then show ?case by (rule keepsD[OF keeps_CASRefs])
qed

text \<open>
  C1. A call of \<open>CASRefs\<close>, under any failures of its statements, either succeeds, and then
  every comparison held in order, the repository's refs are those of the abstract
  compare-and-swap, and no other repository's refs moved; or it fails and no ref moved.
\<close>

theorem cas_refs_correct:
  assumes "db_ok s" "CASRefs repo us ts s = (r, t)"
  shows "case r of
      Inr _ \<Rightarrow> abs_cas us (ref_map s repo) = Some (ref_map t repo) \<and>
               (\<forall>i. i \<noteq> repo \<longrightarrow> ref_map t i = ref_map s i)
    | Inl _ \<Rightarrow> refs t = refs s"
proof (cases r)
  case (Inl e)
  with assms(2) CASRefs_Inl[of repo us ts s e t] show ?thesis by auto
next
  case (Inr x)
  with assms(2) have "CASRefs repo us ts s = (Inr (), t)" by simp
  from CASRefs_Inr[OF assms(1) this] Inr show ?thesis by simp
qed

lemma cas_refs_correct_witness:
  "let us = [\<lparr>up_name = ''refs/heads/main'', up_old = sha1_a, up_new = sha1_b\<rparr>,
             \<lparr>up_name = ''refs/tags/v1'', up_old = ZeroSHA, up_new = sha1_b\<rparr>]
   in fst (CASRefs 2 us 5 sample_db) = Inr () \<and>
      abs_cas us (ref_map sample_db 2) = Some (ref_map (snd (CASRefs 2 us 5 sample_db)) 2)"
proof -
  let ?us = "[\<lparr>up_name = ''refs/heads/main'', up_old = sha1_a, up_new = sha1_b\<rparr>,
             \<lparr>up_name = ''refs/tags/v1'', up_old = ZeroSHA, up_new = sha1_b\<rparr>]"
  have "fst (CASRefs 2 ?us 5 sample_db) = Inr ()" by code_simp
  then obtain t where "CASRefs 2 ?us 5 sample_db = (Inr (), t)" by (metis prod.collapse)
  with cas_refs_correct[OF sample_db_ok this] show ?thesis by simp
qed

end
