(* ===== verification/MetaForge.thy ===== *)
theory MetaForge
  imports MetaRefs
begin

text \<open>
  \<open>internal/meta/repos.go\<close>, \<open>users.go\<close> and \<open>acls.go\<close>: repositories, users, access
  tokens and access rules. A point in time that Go passes as a zero \<open>time.Time\<close> is
  \<open>None\<close> here. \<open>ts\<close> is the value of \<open>now()\<close> that the statement stores.
\<close>

section \<open>Repositories\<close>

definition ReservedRepoNames :: "string list" where
  "ReservedRepoNames = [''login'', ''logout'', ''users'', ''tokens'', ''settings'', ''new'',
     ''search'', ''api'', ''metrics'', ''internal'', ''static'', ''healthz'', ''version'']"

definition Public :: "repo \<Rightarrow> bool" where
  "Public r \<longleftrightarrow> visibility r = VisibilityPublic"

definition normalizeRepoName :: "string \<Rightarrow> string" where
  "normalizeRepoName name = trim_suffix ''.git'' name"

text \<open>\<open>None\<close> accepts; the reasons follow the order of the cases of the switch.\<close>

definition validateRepoName :: "string \<Rightarrow> string option" where
  "validateRepoName name =
     (if name = [] then Some ''empty''
      else if CHR ''/'' \<in> set name then Some ''slash''
      else if has_prefix ''.'' name then Some ''dot''
      else if name = ''-'' then Some ''dash''
      else if name \<in> set ReservedRepoNames then Some ''reserved''
      else None)"

definition CreateRepo :: "string \<Rightarrow> string \<Rightarrow> time \<Rightarrow> repo dbop" where
  "CreateRepo name0 branch0 ts =
     (let name = normalizeRepoName name0 in
      case validateRepoName name of
        Some why \<Rightarrow> errE (BadRepoName why)
      | None \<Rightarrow>
          (let branch = (if branch0 = [] then ''main'' else branch0) in
           sql (\<lambda>s. if \<exists>r \<in> set (repos s). repo_name r = name then (Inl Constraint, s)
             else (let r = \<lparr>repo_id = next_id repo_id (repos s), repo_name = name,
                       default_branch = branch, visibility = VisibilityPrivate, repo_created = ts\<rparr>
                   in (Inr r, s\<lparr>repos := repos s @ [r]\<rparr>)))))"

definition SetVisibility :: "int \<Rightarrow> string \<Rightarrow> unit dbop" where
  "SetVisibility i v = sql (\<lambda>s.
     if \<not> has_repo s i then (Inl NotFound, s)
     else if v \<notin> {VisibilityPrivate, VisibilityPublic} then (Inl Constraint, s)
     else (Inr (), s\<lparr>repos := update_where (\<lambda>r. repo_id r = i) (\<lambda>r. r\<lparr>visibility := v\<rparr>) (repos s)\<rparr>))"

definition SetDefaultBranch :: "int \<Rightarrow> string \<Rightarrow> unit dbop" where
  "SetDefaultBranch i b = sql (\<lambda>s.
     if \<not> has_repo s i then (Inl NotFound, s)
     else (Inr (), s\<lparr>repos := update_where (\<lambda>r. repo_id r = i) (\<lambda>r. r\<lparr>default_branch := b\<rparr>) (repos s)\<rparr>))"

definition GetRepo :: "string \<Rightarrow> repo dbop" where
  "GetRepo name = query_row (\<lambda>s. first_where (\<lambda>r. repo_name r = normalizeRepoName name) (repos s))"

definition GetRepoByID :: "int \<Rightarrow> repo dbop" where
  "GetRepoByID i = query_row (\<lambda>s. first_where (\<lambda>r. repo_id r = i) (repos s))"

definition ListRepos :: "repo list dbop" where
  "ListRepos = query (\<lambda>s. sort_key repo_name (repos s))"

definition ListReposForViewer :: "int \<Rightarrow> repo list dbop" where
  "ListReposForViewer uid = query (\<lambda>s. sort_key repo_name (filter (\<lambda>r.
     visibility r = VisibilityPublic \<or>
     (\<exists>a \<in> set (acls s). acl_repo a = repo_id r \<and> acl_user a = uid)) (repos s)))"

section \<open>Users\<close>

definition createUser :: "string \<Rightarrow> bool \<Rightarrow> time \<Rightarrow> user dbop" where
  "createUser h adm ts = sql (\<lambda>s.
     if \<exists>u \<in> set (users s). handle u = h then (Inl Constraint, s)
     else (let u = \<lparr>user_id = next_id user_id (users s), handle = h, is_admin = adm, user_created = ts\<rparr>
           in (Inr u, s\<lparr>users := users s @ [u]\<rparr>)))"

definition CreateUser :: "string \<Rightarrow> time \<Rightarrow> user dbop" where
  "CreateUser h ts = createUser h False ts"

definition CreateAdmin :: "string \<Rightarrow> time \<Rightarrow> user dbop" where
  "CreateAdmin h ts = createUser h True ts"

definition GetUser :: "string \<Rightarrow> user dbop" where
  "GetUser h = query_row (\<lambda>s. first_where (\<lambda>u. handle u = h) (users s))"

definition GetUserByID :: "int \<Rightarrow> user dbop" where
  "GetUserByID i = query_row (\<lambda>s. first_where (\<lambda>u. user_id u = i) (users s))"

definition ListUsers :: "user list dbop" where
  "ListUsers = query (\<lambda>s. sort_key handle (users s))"

definition AdminExists :: "bool dbop" where
  "AdminExists = query (\<lambda>s. \<exists>u \<in> set (users s). is_admin u)"

section \<open>Access tokens\<close>

record token_info =
  ti_id :: int
  ti_user :: int
  ti_label :: string
  ti_created :: time
  ti_last_used :: "time option"

record token_auth =
  ta_id :: int
  ta_verifier :: string
  ta_user :: user
  ta_expires :: "time option"
  ta_scope :: "int option"
  ta_read_only :: bool

definition token_info_of :: "token_row \<Rightarrow> token_info" where
  "token_info_of t = \<lparr>ti_id = token_id t, ti_user = token_user t, ti_label = token_label t,
     ti_created = token_created t, ti_last_used = last_used t\<rparr>"

definition CreateScopedToken ::
  "int \<Rightarrow> string \<Rightarrow> string \<Rightarrow> string \<Rightarrow> int option \<Rightarrow> bool \<Rightarrow> time option \<Rightarrow> time \<Rightarrow> token_info dbop" where
  "CreateScopedToken uid sel ver label scope ro expires ts = sql (\<lambda>s.
     if (\<exists>t \<in> set (tokens s). selector t = sel) \<or>
        fk s \<and> (\<not> has_user s uid \<or> \<not> scope_ok s scope)
     then (Inl Constraint, s)
     else (let t = \<lparr>token_id = next_id token_id (tokens s), token_user = uid, selector = sel,
               verifier = ver, token_label = label, token_created = ts, last_used = None,
               expires_at = expires, repo_scope = scope, read_only = ro\<rparr>
           in (Inr (token_info_of t), s\<lparr>tokens := tokens s @ [t]\<rparr>)))"

text \<open>\<open>CreateToken\<close> names only the unconstrained columns: the others take their defaults.\<close>

definition CreateToken :: "int \<Rightarrow> string \<Rightarrow> string \<Rightarrow> string \<Rightarrow> time \<Rightarrow> token_info dbop" where
  "CreateToken uid sel ver label ts = CreateScopedToken uid sel ver label None False None ts"

definition token_auth_of :: "token_row \<Rightarrow> user \<Rightarrow> token_auth" where
  "token_auth_of t u = \<lparr>ta_id = token_id t, ta_verifier = verifier t, ta_user = u,
     ta_expires = expires_at t, ta_scope = repo_scope t, ta_read_only = read_only t\<rparr>"

definition TokenBySelector :: "string \<Rightarrow> token_auth dbop" where
  "TokenBySelector sel = query_row (\<lambda>s.
     case first_where (\<lambda>t. selector t = sel) (tokens s) of
       None \<Rightarrow> None
     | Some t \<Rightarrow> map_option (token_auth_of t) (first_where (\<lambda>u. user_id u = token_user t) (users s)))"

definition TouchToken :: "int \<Rightarrow> time \<Rightarrow> unit dbop" where
  "TouchToken i ts = sql (\<lambda>s. (Inr (),
     s\<lparr>tokens := update_where (\<lambda>t. token_id t = i) (\<lambda>t. t\<lparr>last_used := Some ts\<rparr>) (tokens s)\<rparr>))"

definition DeleteToken :: "int \<Rightarrow> unit dbop" where
  "DeleteToken i = sql (\<lambda>s. (Inr (), s\<lparr>tokens := delete_where (\<lambda>t. token_id t = i) (tokens s)\<rparr>))"

text \<open>
  \<open>created_at\<close> is stored as text: ORDER BY compares the texts, so the order depends on the
  layout \<open>stamp\<close> that \<open>now()\<close> prints.
\<close>

definition ListTokens :: "(time \<Rightarrow> string) \<Rightarrow> int \<Rightarrow> token_info list dbop" where
  "ListTokens stamp uid = query (\<lambda>s. map token_info_of
     (sort_key (\<lambda>t. stamp (token_created t)) (sort_key token_id (filter (\<lambda>t. token_user t = uid) (tokens s)))))"

section \<open>Access rules\<close>

record acl_info =
  ai_user :: int
  ai_handle :: string
  ai_perm :: perm

definition SetACL :: "int \<Rightarrow> int \<Rightarrow> perm \<Rightarrow> unit dbop" where
  "SetACL repo uid p = sql (\<lambda>s.
     if p \<notin> {PermRead, PermWrite, PermAdmin} \<or> fk s \<and> (\<not> has_repo s repo \<or> \<not> has_user s uid)
     then (Inl Constraint, s)
     else if \<exists>a \<in> set (acls s). acl_repo a = repo \<and> acl_user a = uid
     then (Inr (), s\<lparr>acls := update_where (\<lambda>a. acl_repo a = repo \<and> acl_user a = uid)
                       (\<lambda>a. a\<lparr>acl_perm := p\<rparr>) (acls s)\<rparr>)
     else (Inr (), s\<lparr>acls := acls s @ [\<lparr>acl_repo = repo, acl_user = uid, acl_perm = p\<rparr>]\<rparr>))"

definition ListACLs :: "int \<Rightarrow> acl_info list dbop" where
  "ListACLs repo = query (\<lambda>s. sort_key ai_handle (concat (map (\<lambda>a.
     map (\<lambda>u. \<lparr>ai_user = acl_user a, ai_handle = handle u, ai_perm = acl_perm a\<rparr>)
       (filter (\<lambda>u. user_id u = acl_user a) (users s)))
     (filter (\<lambda>a. acl_repo a = repo) (acls s)))))"

definition DeleteACL :: "int \<Rightarrow> int \<Rightarrow> unit dbop" where
  "DeleteACL repo uid = sql (\<lambda>s. (Inr (),
     s\<lparr>acls := delete_where (\<lambda>a. acl_repo a = repo \<and> acl_user a = uid) (acls s)\<rparr>))"

definition GetACL :: "int \<Rightarrow> int \<Rightarrow> perm dbop" where
  "GetACL repo uid = query_row (\<lambda>s.
     map_option acl_perm (first_where (\<lambda>a. acl_repo a = repo \<and> acl_user a = uid) (acls s)))"

definition CanRead :: "repo \<Rightarrow> int \<Rightarrow> bool dbop" where
  "CanRead r uid =
     (if Public r then retE True
      else if uid = 0 then retE False
      else lookupE (GetACL (repo_id r) uid) (retE False) errE (\<lambda>_. retE True))"

section \<open>Each operation keeps the invariant\<close>

lemma db_ok_reposI:
  assumes "db_ok s" "repos_ok (s\<lparr>repos := R\<rparr>)" "repo_id ` set (repos s) \<subseteq> repo_id ` set R"
  shows "db_ok (s\<lparr>repos := R\<rparr>)"
proof -
  have m: "has_repo s i \<Longrightarrow> has_repo (s\<lparr>repos := R\<rparr>) i" for i
    using assms(3) by (force simp: has_repo_def)
  from assms(1,2) m show ?thesis
    by (auto simp: db_ok_def refs_ok_def users_ok_def tokens_ok_def acls_ok_def ci_ok_def
        secrets_ok_def has_user_def has_run_def scope_ok_iff)
qed

lemma db_ok_usersI:
  assumes "db_ok s" "users_ok (s\<lparr>users := U\<rparr>)" "user_id ` set (users s) \<subseteq> user_id ` set U"
  shows "db_ok (s\<lparr>users := U\<rparr>)"
proof -
  have m: "has_user s i \<Longrightarrow> has_user (s\<lparr>users := U\<rparr>) i" for i
    using assms(3) by (force simp: has_user_def)
  from assms(1,2) m show ?thesis
    by (auto simp: db_ok_def repos_ok_def refs_ok_def tokens_ok_def acls_ok_def ci_ok_def
        secrets_ok_def scope_ok_iff has_repo_def has_run_def)
qed

lemma db_ok_tokensI: "db_ok s \<Longrightarrow> tokens_ok (s\<lparr>tokens := T\<rparr>) \<Longrightarrow> db_ok (s\<lparr>tokens := T\<rparr>)"
  by (simp add: db_ok_def tables_ok_defs has_defs)

lemma db_ok_aclsI: "db_ok s \<Longrightarrow> acls_ok (s\<lparr>acls := A\<rparr>) \<Longrightarrow> db_ok (s\<lparr>acls := A\<rparr>)"
  by (simp add: db_ok_def tables_ok_defs has_defs)

lemma keeps_sql_db_ok:
  assumes "\<And>s. db_ok s \<Longrightarrow> repos_ok s \<Longrightarrow> users_ok s \<Longrightarrow> tokens_ok s \<Longrightarrow> acls_ok s \<Longrightarrow> ci_ok s \<Longrightarrow>
    secrets_ok s \<Longrightarrow> db_ok (snd (f s))"
  shows "keeps db_ok (sql f)"
proof (intro keeps_sql fault_free_db_ok keepsI)
  fix s assume "db_ok s"
  then show "db_ok (snd (f s))" using assms[of s] by (simp add: db_ok_def)
qed

text \<open>INSERT ... ON CONFLICT DO UPDATE, guarded by the checks and the foreign keys.\<close>

lemma keeps_upsert:
  assumes "\<And>s. db_ok s \<Longrightarrow> \<not> bad s \<Longrightarrow> old s \<Longrightarrow> db_ok (f s)"
    and "\<And>s. db_ok s \<Longrightarrow> \<not> bad s \<Longrightarrow> \<not> old s \<Longrightarrow> db_ok (g s)"
  shows "keeps db_ok (sql (\<lambda>s. if bad s then (Inl e, s) else if old s then (Inr (), f s) else (Inr (), g s)))"
  by (rule keeps_sql_db_ok) (simp add: assms)

lemma keys_update_where:
  assumes "\<And>r. key (f r) = key r"
  shows "key ` set (update_where P f rows) = key ` set rows"
proof -
  have "map key (update_where P f rows) = map key rows" by (rule map_update_where) (rule assms)
  then show ?thesis by (metis list.set_map)
qed

lemma in_update_where:
  assumes "x \<in> set (update_where P f rows)"
  obtains r where "r \<in> set rows" "x = (if P r then f r else r)"
  using assms by (auto simp: update_where_def)

lemma ex_key_update_where:
  assumes "\<And>r. key (f r) = key r" "\<exists>x \<in> set rows. key x = i"
  shows "\<exists>x \<in> set (update_where P f rows). key x = i"
proof -
  from assms(2) have "i \<in> key ` set rows" by blast
  with keys_update_where[of key f P rows] assms(1) have "i \<in> key ` set (update_where P f rows)" by simp
  then show ?thesis by blast
qed

lemma keeps_CreateRepo [keeps_intro]: "keeps db_ok (CreateRepo name branch ts)"
proof -
  have "db_ok (s\<lparr>repos := repos s @ [r]\<rparr>)"
    if "db_ok s" "\<forall>x \<in> set (repos s). repo_name x \<noteq> repo_name r" "repo_id r = next_id repo_id (repos s)"
      "visibility r = VisibilityPrivate" for s r
    using that by (intro db_ok_reposI) (auto simp: db_ok_def repos_ok_def key_ok_insert)
  then show ?thesis
    unfolding CreateRepo_def Let_def
    by (auto split: option.split intro!: keeps_errE keeps_sql_db_ok)
qed

lemma keeps_update_repo:
  assumes "db_ok s" "\<And>r. repo_id (f r) = repo_id r" "\<And>r. repo_name (f r) = repo_name r"
    "\<And>r. visibility (f r) = visibility r \<or> visibility (f r) \<in> {VisibilityPrivate, VisibilityPublic}"
  shows "db_ok (s\<lparr>repos := update_where P f (repos s)\<rparr>)"
proof (rule db_ok_reposI[OF assms(1)])
  have "map repo_name (update_where P f (repos s)) = map repo_name (repos s)"
    by (rule map_update_where) (rule assms(3))
  moreover have "key_ok repo_id (update_where P f (repos s))"
    by (rule key_ok_update) (use assms(1,2) in \<open>auto simp: db_ok_def repos_ok_def\<close>)
  moreover have "visibility (f r) \<in> {VisibilityPrivate, VisibilityPublic}" if "r \<in> set (repos s)" for r
    using assms(1) assms(4)[of r] that by (auto simp: db_ok_def repos_ok_def)
  ultimately show "repos_ok (s\<lparr>repos := update_where P f (repos s)\<rparr>)"
    using assms(1) by (auto simp: db_ok_def repos_ok_def set_update_where)
qed (simp add: keys_update_where assms)

lemma keeps_SetVisibility [keeps_intro]: "keeps db_ok (SetVisibility i v)"
  unfolding SetVisibility_def by (auto intro!: keeps_sql_db_ok keeps_update_repo)

lemma keeps_SetDefaultBranch [keeps_intro]: "keeps db_ok (SetDefaultBranch i b)"
  unfolding SetDefaultBranch_def by (auto intro!: keeps_sql_db_ok keeps_update_repo)

lemma keeps_createUser [keeps_intro]: "keeps db_ok (createUser h adm ts)"
proof -
  have "db_ok (s\<lparr>users := users s @ [u]\<rparr>)"
    if "db_ok s" "\<forall>x \<in> set (users s). handle x \<noteq> handle u" "user_id u = next_id user_id (users s)" for s u
    using that by (intro db_ok_usersI) (auto simp: db_ok_def users_ok_def key_ok_insert)
  then show ?thesis
    unfolding createUser_def Let_def by (auto intro!: keeps_sql_db_ok)
qed

lemma keeps_CreateScopedToken [keeps_intro]:
  "keeps db_ok (CreateScopedToken uid sel ver label scope ro expires ts)"
proof -
  have "db_ok (s\<lparr>tokens := tokens s @ [t]\<rparr>)"
    if "db_ok s" "\<forall>x \<in> set (tokens s). selector x \<noteq> selector t" "token_id t = next_id token_id (tokens s)"
      "fk s \<Longrightarrow> has_user s (token_user t) \<and> scope_ok s (repo_scope t)" for s t
    using that by (intro db_ok_tokensI) (auto simp: db_ok_def tokens_ok_def key_ok_insert has_defs)
  then show ?thesis
    unfolding CreateScopedToken_def Let_def by (auto intro!: keeps_sql_db_ok)
qed

lemma keeps_TouchToken [keeps_intro]: "keeps db_ok (TouchToken i ts)"
proof -
  have "map selector (update_where P (\<lambda>t. t\<lparr>last_used := Some ts\<rparr>) T) = map selector T" for P and T :: "token_row list"
    by (rule map_update_where) simp
  then show ?thesis
    unfolding TouchToken_def
    by (intro keeps_sql_db_ok)
       (auto intro!: db_ok_tokensI simp: tokens_ok_def key_ok_update set_update_where has_defs)
qed

lemma keeps_DeleteToken [keeps_intro]: "keeps db_ok (DeleteToken i)"
  unfolding DeleteToken_def
  by (intro keeps_sql_db_ok)
     (auto intro!: db_ok_tokensI simp: tokens_ok_def key_ok_delete table has_defs)

lemma keeps_SetACL [keeps_intro]: "keeps db_ok (SetACL repo uid p)"
proof -
  let ?row = "\<lparr>acl_repo = repo, acl_user = uid, acl_perm = p\<rparr>"
  have m: "map (\<lambda>a. (acl_repo a, acl_user a)) (update_where P (\<lambda>a. a\<lparr>acl_perm := p\<rparr>) A)
      = map (\<lambda>a. (acl_repo a, acl_user a)) A" for P and A :: "acl_row list"
    by (rule map_update_where) simp
  have upd: "acls_ok (s\<lparr>acls := update_where P (\<lambda>a. a\<lparr>acl_perm := p\<rparr>) (acls s)\<rparr>)"
    if "acls_ok s" "p \<in> {PermRead, PermWrite, PermAdmin}" for s P
    unfolding acls_ok_def has_defs using that
    by (simp add: m) (auto simp: acls_ok_def set_update_where has_defs)
  have ins: "acls_ok (s\<lparr>acls := acls s @ [?row]\<rparr>)"
    if "acls_ok s" "p \<in> {PermRead, PermWrite, PermAdmin}" "fk s \<Longrightarrow> has_repo s repo \<and> has_user s uid"
      "\<not> (\<exists>a \<in> set (acls s). acl_repo a = repo \<and> acl_user a = uid)" for s
    using that by (auto simp: acls_ok_def has_defs)
  show ?thesis
    unfolding SetACL_def
  proof (rule keeps_upsert)
    fix s assume s: "db_ok s" and
      ok: "\<not> (p \<notin> {PermRead, PermWrite, PermAdmin} \<or> fk s \<and> (\<not> has_repo s repo \<or> \<not> has_user s uid))"
    then have p: "p \<in> {PermRead, PermWrite, PermAdmin}" and a: "acls_ok s"
      by (blast, simp add: db_ok_def)
    show "db_ok (s\<lparr>acls := update_where (\<lambda>a. acl_repo a = repo \<and> acl_user a = uid)
                       (\<lambda>a. a\<lparr>acl_perm := p\<rparr>) (acls s)\<rparr>)"
      by (intro db_ok_aclsI s upd a p)
    assume "\<not> (\<exists>a \<in> set (acls s). acl_repo a = repo \<and> acl_user a = uid)"
    with ok show "db_ok (s\<lparr>acls := acls s @ [?row]\<rparr>)" by (intro db_ok_aclsI s ins a p) auto
  qed
qed

lemma keeps_DeleteACL [keeps_intro]: "keeps db_ok (DeleteACL repo uid)"
  unfolding DeleteACL_def
  by (intro keeps_sql_db_ok) (auto intro!: db_ok_aclsI simp: acls_ok_def table has_defs)

lemma keeps_reads [keeps_intro]:
  "keeps db_ok (GetRepo name)" "keeps db_ok (GetRepoByID i)" "keeps db_ok ListRepos"
  "keeps db_ok (ListReposForViewer uid)" "keeps db_ok (GetUser h)" "keeps db_ok (GetUserByID i)"
  "keeps db_ok ListUsers" "keeps db_ok AdminExists" "keeps db_ok (TokenBySelector sel)"
  "keeps db_ok (ListTokens stamp uid)" "keeps db_ok (ListACLs i)" "keeps db_ok (GetACL i uid)"
  "keeps db_ok (ListRefs i)"
  by (simp_all add: GetRepo_def GetRepoByID_def ListRepos_def ListReposForViewer_def GetUser_def
      GetUserByID_def ListUsers_def AdminExists_def TokenBySelector_def ListTokens_def ListACLs_def
      GetACL_def ListRefs_def keeps_query keeps_query_row fault_free_db_ok)

lemma keeps_CanRead [keeps_intro]: "keeps db_ok (CanRead r uid)"
  unfolding CanRead_def by (auto intro!: keeps_intro)

end
