(* ===== verification/MetaCI.thy ===== *)
theory MetaCI
  imports MetaForge
begin

text \<open>
  \<open>internal/meta/ci.go\<close>: the rows of CI runs and jobs. A run is one push that started
  workflows, a job is one workflow of it. Only \<open>ClaimJob\<close> moves a job out of the queue.
\<close>

section \<open>Operations\<close>

text \<open>An UPDATE that must change a row: no affected row is \<open>ErrNotFound\<close>.\<close>

definition update_runs :: "(run \<Rightarrow> bool) \<Rightarrow> (run \<Rightarrow> run) \<Rightarrow> unit dbop" where
  "update_runs P f = sql (\<lambda>s. if \<exists>r \<in> set (runs s). P r
     then (Inr (), s\<lparr>runs := update_where P f (runs s)\<rparr>) else (Inl NotFound, s))"

definition update_jobs :: "(job \<Rightarrow> bool) \<Rightarrow> (job \<Rightarrow> job) \<Rightarrow> unit dbop" where
  "update_jobs P f = sql (\<lambda>s. if \<exists>j \<in> set (jobs s). P j
     then (Inr (), s\<lparr>jobs := update_where P f (jobs s)\<rparr>) else (Inl NotFound, s))"

definition CreateRun :: "int \<Rightarrow> string \<Rightarrow> string \<Rightarrow> time \<Rightarrow> run dbop" where
  "CreateRun repo ref sha ts = sql (\<lambda>s.
     if fk s \<and> \<not> has_repo s repo then (Inl Constraint, s)
     else (let r = \<lparr>run_id = next_id run_id (runs s), run_repo = repo, run_ref = ref, run_sha = sha,
               run_stat = RunQueued, run_created = ts, run_updated = ts\<rparr>
           in (Inr r, s\<lparr>runs := runs s @ [r]\<rparr>)))"

definition SetRunStatus :: "int \<Rightarrow> run_status \<Rightarrow> time \<Rightarrow> unit dbop" where
  "SetRunStatus i st ts = update_runs (\<lambda>r. run_id r = i) (\<lambda>r. r\<lparr>run_stat := st, run_updated := ts\<rparr>)"

definition GetRun :: "int \<Rightarrow> run dbop" where
  "GetRun i = query_row (\<lambda>s. first_where (\<lambda>r. run_id r = i) (runs s))"

definition ListRuns :: "int \<Rightarrow> int \<Rightarrow> run list dbop" where
  "ListRuns repo limit = query (\<lambda>s.
     let newest = sort_key (\<lambda>r. - run_id r) (filter (\<lambda>r. run_repo r = repo) (runs s))
     in if 0 < limit then take (nat limit) newest else newest)"

definition LatestRunForSHA :: "int \<Rightarrow> string \<Rightarrow> run dbop" where
  "LatestRunForSHA repo sha = query_row (\<lambda>s.
     first_where (\<lambda>_. True) (sort_key (\<lambda>r. - run_id r)
       (filter (\<lambda>r. run_repo r = repo \<and> run_sha r = sha) (runs s))))"

definition CreateJob :: "int \<Rightarrow> string \<Rightarrow> time \<Rightarrow> job dbop" where
  "CreateJob run name ts = sql (\<lambda>s.
     if fk s \<and> \<not> has_run s run then (Inl Constraint, s)
     else (let j = \<lparr>job_id = next_id job_id (jobs s), job_run = run, job_name = name,
               job_stat = RunQueued, log_key = [], job_created = ts, job_updated = ts\<rparr>
           in (Inr j, s\<lparr>jobs := jobs s @ [j]\<rparr>)))"

definition SetJobStatus :: "int \<Rightarrow> run_status \<Rightarrow> time \<Rightarrow> unit dbop" where
  "SetJobStatus i st ts = update_jobs (\<lambda>j. job_id j = i) (\<lambda>j. j\<lparr>job_stat := st, job_updated := ts\<rparr>)"

definition GetJob :: "int \<Rightarrow> job dbop" where
  "GetJob i = query_row (\<lambda>s. first_where (\<lambda>j. job_id j = i) (jobs s))"

definition ClaimJob :: "int \<Rightarrow> time \<Rightarrow> job dbop" where
  "ClaimJob i ts =
     bindE (update_jobs (\<lambda>j. job_id j = i \<and> job_stat j = RunQueued)
              (\<lambda>j. j\<lparr>job_stat := RunRunning, job_updated := ts\<rparr>))
       (\<lambda>_. GetJob i)"

definition SetJobResult :: "int \<Rightarrow> run_status \<Rightarrow> string \<Rightarrow> time \<Rightarrow> unit dbop" where
  "SetJobResult i st key ts = update_jobs (\<lambda>j. job_id j = i)
     (\<lambda>j. j\<lparr>job_stat := st, log_key := key, job_updated := ts\<rparr>)"

text \<open>The loop of \<open>SweepStuckJobs\<close>: one UPDATE per id, with no check of affected rows.\<close>

fun sweepLoop :: "int list \<Rightarrow> time \<Rightarrow> unit dbop" where
  "sweepLoop [] ts = retE ()"
| "sweepLoop (i # is) ts =
     bindE (sql (\<lambda>s. (Inr (), s\<lparr>jobs := update_where (\<lambda>j. job_id j = i \<and> job_stat j = RunRunning)
              (\<lambda>j. j\<lparr>job_stat := RunError, job_updated := ts\<rparr>) (jobs s)\<rparr>)))
       (\<lambda>_. sweepLoop is ts)"

definition SweepStuckJobs :: "time \<Rightarrow> time \<Rightarrow> int list dbop" where
  "SweepStuckJobs cutoff ts =
     bindE (query (\<lambda>s. map job_id (filter (\<lambda>j. job_stat j = RunRunning \<and> job_updated j < cutoff) (jobs s))))
       (\<lambda>stuck. bindE (sweepLoop stuck ts) (\<lambda>_. retE stuck))"

definition ListJobs :: "int \<Rightarrow> job list dbop" where
  "ListJobs run = query (\<lambda>s. sort_key job_id (filter (\<lambda>j. job_run j = run) (jobs s)))"

section \<open>Each operation keeps the invariant\<close>

lemma db_ok_jobsI: "db_ok s \<Longrightarrow> ci_ok (s\<lparr>jobs := J\<rparr>) \<Longrightarrow> db_ok (s\<lparr>jobs := J\<rparr>)"
  by (simp add: db_ok_def tables_ok_defs has_defs)

lemma db_ok_runsI: "db_ok s \<Longrightarrow> ci_ok (s\<lparr>runs := R\<rparr>) \<Longrightarrow> db_ok (s\<lparr>runs := R\<rparr>)"
  by (simp add: db_ok_def tables_ok_defs has_defs)

lemma keeps_CreateRun [keeps_intro]: "keeps db_ok (CreateRun repo ref sha ts)"
proof -
  have "db_ok (s\<lparr>runs := runs s @ [r]\<rparr>)"
    if "db_ok s" "fk s \<Longrightarrow> has_repo s (run_repo r)" "run_id r = next_id run_id (runs s)" for s r
    using that by (intro db_ok_runsI) (auto simp: db_ok_def ci_ok_def key_ok_insert has_defs)
  then show ?thesis
    unfolding CreateRun_def Let_def by (auto intro!: keeps_sql_db_ok)
qed

lemma keeps_CreateJob [keeps_intro]: "keeps db_ok (CreateJob run name ts)"
proof -
  have "db_ok (s\<lparr>jobs := jobs s @ [j]\<rparr>)"
    if "db_ok s" "fk s \<Longrightarrow> has_run s (job_run j)" "job_id j = next_id job_id (jobs s)" for s j
    using that by (intro db_ok_jobsI) (auto simp: db_ok_def ci_ok_def key_ok_insert has_defs)
  then show ?thesis
    unfolding CreateJob_def Let_def by (auto intro!: keeps_sql_db_ok)
qed

lemma has_run_image: "has_run s i \<longleftrightarrow> i \<in> run_id ` set (runs s)"
  by (auto simp: has_run_def)

lemma db_ok_update_runs:
  assumes "db_ok s" "\<And>r. run_id (f r) = run_id r" "\<And>r. run_repo (f r) = run_repo r"
  shows "db_ok (s\<lparr>runs := update_where P f (runs s)\<rparr>)"
proof (rule db_ok_runsI[OF assms(1)])
  have k: "key_ok run_id (update_where P f (runs s))"
    by (rule key_ok_update) (use assms(1,2) in \<open>auto simp: db_ok_def ci_ok_def\<close>)
  have m: "run_id ` set (update_where P f (runs s)) = run_id ` set (runs s)"
    by (rule keys_update_where) (rule assms(2))
  have "has_run s i \<Longrightarrow> has_run (s\<lparr>runs := update_where P f (runs s)\<rparr>) i" for i
    using m by (simp add: has_run_image)
  then show "ci_ok (s\<lparr>runs := update_where P f (runs s)\<rparr>)"
    using assms(1) k by (auto simp: db_ok_def ci_ok_def set_update_where assms(3) has_repo_def)
qed

lemma db_ok_update_jobs:
  assumes "db_ok s" "\<And>j. job_id (f j) = job_id j" "\<And>j. job_run (f j) = job_run j"
  shows "db_ok (s\<lparr>jobs := update_where P f (jobs s)\<rparr>)"
proof (rule db_ok_jobsI[OF assms(1)])
  have k: "key_ok job_id (update_where P f (jobs s))"
    by (rule key_ok_update) (use assms(1,2) in \<open>auto simp: db_ok_def ci_ok_def\<close>)
  then show "ci_ok (s\<lparr>jobs := update_where P f (jobs s)\<rparr>)"
    using assms(1) by (auto simp: db_ok_def ci_ok_def set_update_where assms(3) has_defs)
qed

lemma keeps_update_jobs:
  "(\<And>j. job_id (f j) = job_id j) \<Longrightarrow> (\<And>j. job_run (f j) = job_run j) \<Longrightarrow> keeps db_ok (update_jobs P f)"
  unfolding update_jobs_def by (auto intro!: keeps_sql_db_ok db_ok_update_jobs)

lemma keeps_update_runs:
  "(\<And>r. run_id (f r) = run_id r) \<Longrightarrow> (\<And>r. run_repo (f r) = run_repo r) \<Longrightarrow> keeps db_ok (update_runs P f)"
  unfolding update_runs_def by (auto intro!: keeps_sql_db_ok db_ok_update_runs)

lemma keeps_sweepLoop [keeps_intro]: "keeps db_ok (sweepLoop is ts)"
  by (induction "is")
     (auto intro!: keeps_retE keeps_bindE keeps_sql_db_ok db_ok_update_jobs)

lemma keeps_ci [keeps_intro]:
  "keeps db_ok (SetRunStatus i st ts)" "keeps db_ok (GetRun i)" "keeps db_ok (ListRuns repo limit)"
  "keeps db_ok (LatestRunForSHA repo sha)" "keeps db_ok (SetJobStatus i st ts)" "keeps db_ok (GetJob i)"
  "keeps db_ok (ClaimJob i ts)" "keeps db_ok (SetJobResult i st key ts)"
  "keeps db_ok (SweepStuckJobs cutoff ts)" "keeps db_ok (ListJobs i)"
  unfolding SetRunStatus_def GetRun_def ListRuns_def LatestRunForSHA_def SetJobStatus_def GetJob_def
    ClaimJob_def SetJobResult_def SweepStuckJobs_def ListJobs_def
  by (auto intro!: keeps_update_jobs keeps_update_runs keeps_query keeps_query_row fault_free_db_ok
      keeps_bindE keeps_retE keeps_sweepLoop)

section \<open>The life of a job\<close>

definition job_status :: "db \<Rightarrow> int \<Rightarrow> run_status option" where
  "job_status s i = map_option job_stat (first_where (\<lambda>j. job_id j = i) (jobs s))"

text \<open>The writes of the CI tables, as the operations that callers interleave.\<close>

datatype ci_op =
    OpCreateRun int string string
  | OpSetRunStatus int run_status
  | OpCreateJob int string
  | OpSetJobStatus int run_status
  | OpClaim int
  | OpResult int run_status string
  | OpSweep time

definition succeeded :: "('e + 'a) \<times> 's \<Rightarrow> bool \<times> 's" where
  "succeeded rs = (case rs of (Inl e, s) \<Rightarrow> (False, s) | (Inr x, s) \<Rightarrow> (True, s))"

fun exec_ci :: "time \<Rightarrow> ci_op \<Rightarrow> db \<Rightarrow> bool \<times> db" where
  "exec_ci ts (OpCreateRun repo ref sha) s = succeeded (CreateRun repo ref sha ts s)"
| "exec_ci ts (OpSetRunStatus i st) s = succeeded (SetRunStatus i st ts s)"
| "exec_ci ts (OpCreateJob run name) s = succeeded (CreateJob run name ts s)"
| "exec_ci ts (OpSetJobStatus i st) s = succeeded (SetJobStatus i st ts s)"
| "exec_ci ts (OpClaim i) s = succeeded (ClaimJob i ts s)"
| "exec_ci ts (OpResult i st key) s = succeeded (SetJobResult i st key ts s)"
| "exec_ci ts (OpSweep cutoff) s = succeeded (SweepStuckJobs cutoff ts s)"

fun requeues :: "ci_op \<Rightarrow> bool" where
  "requeues (OpSetJobStatus i st) = (st = RunQueued)"
| "requeues (OpResult i st key) = (st = RunQueued)"
| "requeues _ = False"

definition job_taken :: "int \<Rightarrow> db \<Rightarrow> bool" where
  "job_taken i s \<longleftrightarrow> (\<exists>j \<in> set (jobs s). job_id j = i) \<and>
     (\<forall>j \<in> set (jobs s). job_id j = i \<longrightarrow> job_stat j \<noteq> RunQueued)"

lemma snd_succeeded [simp]: "snd (succeeded rs) = snd rs"
  by (cases rs) (auto simp: succeeded_def split: sum.splits)

lemma succeeded_True: "succeeded rs = (True, t) \<longleftrightarrow> (\<exists>x. rs = (Inr x, t))"
  by (cases rs) (auto simp: succeeded_def split: sum.splits)

lemma fault_free_job_taken: "fault_free (job_taken i)"
  by (simp add: fault_free_def job_taken_def)

lemma job_taken_update:
  assumes "\<And>j. job_id (f j) = job_id j" "\<And>j. P j \<Longrightarrow> job_stat j \<noteq> RunQueued \<Longrightarrow> job_stat (f j) \<noteq> RunQueued"
    and "job_taken i s"
  shows "job_taken i (s\<lparr>jobs := update_where P f (jobs s)\<rparr>)"
proof -
  have "\<exists>j \<in> set (update_where P f (jobs s)). job_id j = i"
    by (rule ex_key_update_where) (use assms(1,3) in \<open>auto simp: job_taken_def\<close>)
  then show ?thesis
    using assms by (auto simp: job_taken_def set_update_where)
qed

lemma keeps_taken_update:
  assumes "\<And>j. job_id (f j) = job_id j" "\<And>j. P j \<Longrightarrow> job_stat j \<noteq> RunQueued \<Longrightarrow> job_stat (f j) \<noteq> RunQueued"
  shows "keeps (job_taken i) (update_jobs P f)"
    "keeps (job_taken i) (sql (\<lambda>s. (Inr (), s\<lparr>jobs := update_where P f (jobs s)\<rparr>)))"
  unfolding update_jobs_def
  by (intro keeps_sql fault_free_job_taken keepsI, simp add: job_taken_update assms)+

lemma keeps_taken_sweepLoop: "keeps (job_taken i) (sweepLoop is ts)"
  by (induction "is") (auto intro!: keeps_retE keeps_bindE keeps_taken_update)

lemma keeps_taken_CreateJob: "keeps (job_taken i) (CreateJob run name ts)"
  unfolding CreateJob_def Let_def
proof (intro keeps_sql fault_free_job_taken keepsI)
  fix s assume t: "job_taken i s"
  then have "next_id job_id (jobs s) \<noteq> i" using next_id_notin[of job_id "jobs s"] by (auto simp: job_taken_def)
  with t show "job_taken i (snd (if fk s \<and> \<not> has_run s run then (Inl Constraint, s)
     else (Inr \<lparr>job_id = next_id job_id (jobs s), job_run = run, job_name = name,
               job_stat = RunQueued, log_key = [], job_created = ts, job_updated = ts\<rparr>,
           s\<lparr>jobs := jobs s @ [\<lparr>job_id = next_id job_id (jobs s), job_run = run, job_name = name,
               job_stat = RunQueued, log_key = [], job_created = ts, job_updated = ts\<rparr>]\<rparr>)))"
    by (auto simp: job_taken_def)
qed

lemma keeps_taken_runs:
  "keeps (job_taken i) (CreateRun repo ref sha ts)" "keeps (job_taken i) (update_runs P f)"
  unfolding CreateRun_def update_runs_def
  by (intro keeps_sql fault_free_job_taken keepsI, simp add: job_taken_def Let_def)+

lemma keeps_taken_exec:
  assumes "\<not> requeues op" "job_taken i s"
  shows "job_taken i (snd (exec_ci ts op s))"
proof -
  note k = keeps_taken_runs keeps_taken_CreateJob keeps_taken_sweepLoop keeps_bindE keeps_retE
    keeps_query keeps_query_row fault_free_job_taken keeps_taken_update
  have "keeps (job_taken i) (ClaimJob n ts)" "keeps (job_taken i) (SweepStuckJobs cutoff ts)"
    "keeps (job_taken i) (SetRunStatus n st ts)" for n cutoff st
    by (auto simp: ClaimJob_def GetJob_def SweepStuckJobs_def SetRunStatus_def intro!: k)
  moreover have "keeps (job_taken i) (SetJobStatus n st ts)" "keeps (job_taken i) (SetJobResult n st key ts)"
    if "st \<noteq> RunQueued" for n st key
    using that by (auto simp: SetJobStatus_def SetJobResult_def intro!: k)
  ultimately show ?thesis
    using assms keeps_taken_runs(1) keeps_taken_CreateJob
    by (cases op) (simp_all add: keeps_def)
qed

lemma update_jobs_Inr:
  "update_jobs P f s = (Inr x, t) \<Longrightarrow>
   (\<exists>j \<in> set (jobs s). P j) \<and> (\<exists>fs. t = s\<lparr>faults := fs, jobs := update_where P f (jobs s)\<rparr>)"
  unfolding update_jobs_def by (drule sql_Inr) (auto split: if_splits)

lemma ClaimJob_Inr:
  assumes "ClaimJob i ts s = (Inr j, t)"
  shows "\<exists>x \<in> set (jobs s). job_id x = i \<and> job_stat x = RunQueued"
    "\<exists>fs. t = s\<lparr>faults := fs, jobs := update_where (\<lambda>j. job_id j = i \<and> job_stat j = RunQueued)
        (\<lambda>j. j\<lparr>job_stat := RunRunning, job_updated := ts\<rparr>) (jobs s)\<rparr>"
    "first_where (\<lambda>j. job_id j = i) (jobs t) = Some j"
proof -
  from assms obtain u where u: "update_jobs (\<lambda>j. job_id j = i \<and> job_stat j = RunQueued)
        (\<lambda>j. j\<lparr>job_stat := RunRunning, job_updated := ts\<rparr>) s = (Inr (), u)" "GetJob i u = (Inr j, t)"
    by (auto simp: ClaimJob_def bindE_Inr)
  note upd = update_jobs_Inr[OF u(1)] and get = query_row_Inr[OF u(2)[unfolded GetJob_def]]
  from upd show "\<exists>x \<in> set (jobs s). job_id x = i \<and> job_stat x = RunQueued" by blast
  from upd get obtain fs gs where "u = s\<lparr>faults := fs, jobs := update_where (\<lambda>j. job_id j = i \<and> job_stat j = RunQueued)
        (\<lambda>j. j\<lparr>job_stat := RunRunning, job_updated := ts\<rparr>) (jobs s)\<rparr>" "t = u\<lparr>faults := gs\<rparr>" by blast
  then have "t = s\<lparr>faults := gs, jobs := update_where (\<lambda>j. job_id j = i \<and> job_stat j = RunQueued)
        (\<lambda>j. j\<lparr>job_stat := RunRunning, job_updated := ts\<rparr>) (jobs s)\<rparr>" by simp
  then show "\<exists>fs. t = s\<lparr>faults := fs, jobs := update_where (\<lambda>j. job_id j = i \<and> job_stat j = RunQueued)
        (\<lambda>j. j\<lparr>job_stat := RunRunning, job_updated := ts\<rparr>) (jobs s)\<rparr>" by blast
  from get show "first_where (\<lambda>j. job_id j = i) (jobs t) = Some j" by blast
qed

lemma claim_refused: "job_taken i s \<Longrightarrow> \<not> fst (succeeded (ClaimJob i ts s))"
  using ClaimJob_Inr(1)[of i ts s]
  by (cases "ClaimJob i ts s") (auto simp: job_taken_def succeeded_def split: sum.splits)

lemma claim_takes:
  assumes "ClaimJob i ts s = (Inr j, t)"
  shows "job_taken i t"
proof -
  let ?rows = "update_where (\<lambda>j. job_id j = i \<and> job_stat j = RunQueued)
        (\<lambda>j. j\<lparr>job_stat := RunRunning, job_updated := ts\<rparr>) (jobs s)"
  have "\<exists>x \<in> set ?rows. job_id x = i"
    by (rule ex_key_update_where) (use ClaimJob_Inr(1)[OF assms] in auto)
  moreover have "job_stat x \<noteq> RunQueued" if "x \<in> set ?rows" "job_id x = i" for x
    using that by (elim in_update_where) (simp split: if_splits)
  moreover have "jobs t = ?rows" using ClaimJob_Inr(2)[OF assms] by fastforce
  ultimately show ?thesis unfolding job_taken_def by (simp only:) blast
qed

interpretation claim: one_shot "exec_ci ts" "\<lambda>x. x = OpClaim i" "\<lambda>x. \<not> requeues x" "job_taken i" for ts i
proof (unfold_locales, goal_cases)
  case (1 x s t) then show ?case by (auto simp: succeeded_True dest: claim_takes)
next
  case (2 x s) then show ?case by (rule keeps_taken_exec)
next
  case (3 x s) then show ?case using claim_refused by simp
qed

lemma job_status_update:
  assumes "db_ok s" "\<And>j. job_id (f j) = job_id j"
  shows "map_option job_stat (first_where (\<lambda>j. job_id j = k) (update_where P f (jobs s))) =
    (case first_where (\<lambda>j. job_id j = k) (jobs s) of None \<Rightarrow> None
     | Some j \<Rightarrow> Some (job_stat (if P j then f j else j)))"
  by (subst first_where_update) (auto simp: assms split: option.split)

text \<open>
  A claim hands out a job only if it was queued, and then that job is running and no other
  job has moved; on a database that answers, it hands out every queued job that it is asked for.
\<close>

theorem claim_job_correct:
  assumes "db_ok s" "ClaimJob i ts s = (r, t)"
  shows "(case r of
      Inr j \<Rightarrow> job_id j = i \<and> job_stat j = RunRunning \<and> job_status s i = Some RunQueued \<and>
               job_status t = (job_status s)(i := Some RunRunning)
    | Inl e \<Rightarrow> no_faults s \<longrightarrow> e = NotFound \<and> t = s \<and> job_status s i \<noteq> Some RunQueued)"
proof (cases r)
  case (Inr j)
  with assms have c: "ClaimJob i ts s = (Inr j, t)" by simp
  let ?P = "\<lambda>j. job_id j = i \<and> job_stat j = RunQueued"
  let ?f = "\<lambda>j. j\<lparr>job_stat := RunRunning, job_updated := ts\<rparr>"
  from ClaimJob_Inr(1)[OF c] obtain x where x: "x \<in> set (jobs s)" "?P x" by blast
  have fst: "first_where (\<lambda>j. job_id j = i) (jobs s) = Some x"
    by (rule first_where_unique[where key = job_id])
       (use assms(1) x in \<open>auto simp: db_ok_def ci_ok_def key_ok_def\<close>)
  from ClaimJob_Inr(2)[OF c] have t: "jobs t = update_where ?P ?f (jobs s)" by fastforce
  have st: "job_status t k = (if k = i then Some RunRunning else job_status s k)" for k
    unfolding job_status_def t job_status_update[OF assms(1), of ?f, simplified]
    using fst x(2) by (auto split: option.split dest: first_where_Some)
  from ClaimJob_Inr(3)[OF c] have j: "job_id j = i" "job_status t i = Some (job_stat j)"
    by (auto simp: job_status_def dest: first_where_Some)
  with st[of i] have "job_stat j = RunRunning" by simp
  with Inr j fst x(2) st show ?thesis by (auto simp: job_status_def)
next
  case (Inl e)
  have "e = NotFound \<and> t = s \<and> job_status s i \<noteq> Some RunQueued" if nf: "no_faults s"
  proof (cases "\<exists>x \<in> set (jobs s). job_id x = i \<and> job_stat x = RunQueued")
    case False
    then have "job_status s i \<noteq> Some RunQueued" by (auto simp: job_status_def dest: first_where_Some)
    with assms(2) nf False Inl show ?thesis
      by (auto simp: ClaimJob_def bindE_def update_jobs_def)
  next
    case True
    let ?rows = "update_where (\<lambda>j. job_id j = i \<and> job_stat j = RunQueued)
        (\<lambda>j. j\<lparr>job_stat := RunRunning, job_updated := ts\<rparr>) (jobs s)"
    have "\<exists>x \<in> set ?rows. job_id x = i" by (rule ex_key_update_where) (use True in auto)
    then have "first_where (\<lambda>j. job_id j = i) ?rows \<noteq> None" by (simp add: first_where_None)
    moreover have "no_faults (s\<lparr>jobs := ?rows\<rparr>)" using nf by (simp add: no_faults_def)
    ultimately show ?thesis
      using assms(2) nf True Inl by (auto simp: ClaimJob_def bindE_def update_jobs_def GetJob_def)
  qed
  with Inl show ?thesis by simp
qed

lemma claim_job_correct_witness:
  "\<exists>j t. ClaimJob 1 9 sample_db = (Inr j, t) \<and> job_status t = (job_status sample_db)(1 := Some RunRunning)"
proof -
  have "case fst (ClaimJob 1 9 sample_db) of Inr j \<Rightarrow> True | Inl e \<Rightarrow> False" by code_simp
  then obtain j t where "ClaimJob 1 9 sample_db = (Inr j, t)"
    by (cases "ClaimJob 1 9 sample_db") (auto split: sum.splits)
  with claim_job_correct[OF sample_db_ok this] show ?thesis by simp
qed

text \<open>
  C9. However the writes of the CI tables interleave, and whatever statements fail, at most one
  claim of a job succeeds, as long as nothing puts a job back into the queue.
\<close>

theorem claim_at_most_once:
  assumes "\<forall>x \<in> set ops. \<not> requeues x"
  shows "length (filter (\<lambda>(x, won). x = OpClaim i \<and> won) (fst (exec_all (exec_ci ts) ops s))) \<le> 1"
  by (rule claim.at_most_once[OF assms])

lemma claim_at_most_once_witness:
  "length (filter (\<lambda>(x, won). x = OpClaim 1 \<and> won) (fst (exec_all (exec_ci 9)
     [OpClaim 1, OpSweep 5, OpCreateJob 1 ''lint.yml'', OpClaim 1, OpResult 1 RunPassed ''k'', OpClaim 1] sample_db))) \<le> 1"
  by (rule claim_at_most_once) simp

end
