(* ===== verification/MetaSecrets.thy ===== *)
theory MetaSecrets
  imports MetaCI
begin

text \<open>
  \<open>internal/meta/secrets.go\<close> and the migration of \<open>meta.go\<close>: sealed CI secrets, the server
  secrets that the first boot creates, and the columns that a database of an older version
  gets. s3lite, which replicates the database and holds the writer lease, is not part of the
  repository: \<open>s3lite\<close> is the record of the calls that the code makes, a parameter.
\<close>

section \<open>CI secrets\<close>

record ci_secret =
  cs_name :: string
  cs_version :: int
  cs_iv :: bytes
  cs_ct :: bytes

definition SetSecret :: "int \<Rightarrow> string \<Rightarrow> int \<Rightarrow> bytes \<Rightarrow> bytes \<Rightarrow> time \<Rightarrow> unit dbop" where
  "SetSecret repo name v iv ct ts = sql (\<lambda>s.
     if fk s \<and> \<not> has_repo s repo then (Inl Constraint, s)
     else if \<exists>r \<in> set (ci_secrets s). secret_repo r = repo \<and> secret_name r = name
     then (Inr (), s\<lparr>ci_secrets := update_where (\<lambda>r. secret_repo r = repo \<and> secret_name r = name)
             (\<lambda>r. r\<lparr>secret_v := v, secret_iv := iv, secret_ct := ct, secret_created := ts\<rparr>) (ci_secrets s)\<rparr>)
     else (Inr (), s\<lparr>ci_secrets := ci_secrets s @ [\<lparr>secret_repo = repo, secret_name = name,
             secret_v = v, secret_iv = iv, secret_ct = ct, secret_created = ts\<rparr>]\<rparr>))"

definition ListSecretNames :: "int \<Rightarrow> string list dbop" where
  "ListSecretNames repo = query (\<lambda>s. sort_key (\<lambda>n. n) (map secret_name
     (filter (\<lambda>r. secret_repo r = repo) (ci_secrets s))))"

definition ci_secret_of :: "secret_row \<Rightarrow> ci_secret" where
  "ci_secret_of r = \<lparr>cs_name = secret_name r, cs_version = secret_v r, cs_iv = secret_iv r, cs_ct = secret_ct r\<rparr>"

definition GetSecrets :: "int \<Rightarrow> ci_secret list dbop" where
  "GetSecrets repo = query (\<lambda>s. map ci_secret_of
     (sort_key secret_name (filter (\<lambda>r. secret_repo r = repo) (ci_secrets s))))"

definition DeleteSecret :: "int \<Rightarrow> string \<Rightarrow> unit dbop" where
  "DeleteSecret repo name = sql (\<lambda>s. (Inr (),
     s\<lparr>ci_secrets := delete_where (\<lambda>r. secret_repo r = repo \<and> secret_name r = name) (ci_secrets s)\<rparr>))"

definition secret_lookup :: "db \<Rightarrow> int \<Rightarrow> string \<Rightarrow> (int \<times> bytes \<times> bytes) option" where
  "secret_lookup s repo name = map_option (\<lambda>r. (secret_v r, secret_iv r, secret_ct r))
     (first_where (\<lambda>r. secret_repo r = repo \<and> secret_name r = name) (ci_secrets s))"

section \<open>Server secrets\<close>

definition getSecret :: "string \<Rightarrow> bytes dbop" where
  "getSecret name = query_row (\<lambda>s. map_option snd (first_where (\<lambda>r. fst r = name) (server_secrets s)))"

definition insertServerSecret :: "string \<Rightarrow> bytes \<Rightarrow> unit dbop" where
  "insertServerSecret name val = sql (\<lambda>s. (Inr (),
     if \<exists>r \<in> set (server_secrets s). fst r = name then s
     else s\<lparr>server_secrets := server_secrets s @ [(name, val)]\<rparr>))"

text \<open>An instance of the server: its copy of the database and the state of s3lite.\<close>

record 'p node =
  ndb :: db
  s3 :: 'p

record 'p s3lite =
  isLeader :: "'p node \<Rightarrow> bool"
  refresh :: "'p node \<Rightarrow> (meta_error + unit) \<times> 'p node"
  tryPromote :: "'p node \<Rightarrow> (meta_error + bool) \<times> 'p node"

definition on_db :: "'a dbop \<Rightarrow> 'p node \<Rightarrow> (meta_error + 'a) \<times> 'p node" where
  "on_db m n = (case m (ndb n) of (r, d) \<Rightarrow> (r, n\<lparr>ndb := d\<rparr>))"

text \<open>
  \<open>tries\<close> is the number of rounds that start before the context of \<open>secretWaitTimeout\<close> is
  done. A round that finds \<open>err == nil || !isNoRows(err) || IsLeader()\<close> returns the read as it
  is, an absent secret as \<open>NotFound\<close>.
\<close>

fun awaitSecret :: "'p s3lite \<Rightarrow> nat \<Rightarrow> string \<Rightarrow> 'p node \<Rightarrow> (meta_error + bytes) \<times> 'p node" where
  "awaitSecret L 0 name n = (Inl Unavailable, n)"
| "awaitSecret L (Suc tries) name n =
     handleE (on_db (getSecret name)) (\<lambda>r n1.
       if r \<noteq> Inl NotFound \<or> isLeader L n1 then (r, n1)
       else bindE (refresh L) (\<lambda>_.
         handleE (on_db (getSecret name)) (\<lambda>r2.
           if r2 \<noteq> Inl NotFound then Pair r2
           else bindE (tryPromote L) (\<lambda>_. awaitSecret L tries name))) n1) n"

definition GetOrCreateSecret ::
  "'p s3lite \<Rightarrow> nat \<Rightarrow> string \<Rightarrow> (meta_error + bytes) \<Rightarrow> 'p node \<Rightarrow> (meta_error + bytes) \<times> 'p node" where
  "GetOrCreateSecret L tries name gen =
     handleE (awaitSecret L tries name) (\<lambda>r.
       case r of
         Inr val \<Rightarrow> retE val
       | Inl e \<Rightarrow> if e \<noteq> NotFound then errE e
           else (case gen of Inl g \<Rightarrow> errE g
             | Inr val \<Rightarrow> bindE (on_db (insertServerSecret name val)) (\<lambda>_. on_db (getSecret name))))"

definition server_secret :: "db \<Rightarrow> string \<Rightarrow> bytes option" where
  "server_secret s name = map_option snd (first_where (\<lambda>r. fst r = name) (server_secrets s))"

lemma on_db_Inr: "on_db m n = (Inr x, n') \<longleftrightarrow> (\<exists>d. m (ndb n) = (Inr x, d) \<and> n' = n\<lparr>ndb := d\<rparr>)"
  by (auto simp: on_db_def split: prod.splits)

lemma getSecret_Inr:
  assumes "on_db (getSecret name) n = (Inr v, n')"
  shows "server_secret (ndb n') name = Some v" "server_secret (ndb n) name = Some v"
    "\<exists>fs. n' = n\<lparr>ndb := ndb n\<lparr>faults := fs\<rparr>\<rparr>"
proof -
  from assms obtain d where d: "getSecret name (ndb n) = (Inr v, d)" "n' = n\<lparr>ndb := d\<rparr>"
    by (auto simp: on_db_Inr)
  from query_row_Inr[OF d(1)[unfolded getSecret_def]] obtain fs where
    fs: "d = (ndb n)\<lparr>faults := fs\<rparr>" "map_option snd (first_where (\<lambda>r. fst r = name) (server_secrets d)) = Some v"
    by blast
  with d(2) show "server_secret (ndb n') name = Some v" "server_secret (ndb n) name = Some v"
    "\<exists>fs. n' = n\<lparr>ndb := ndb n\<lparr>faults := fs\<rparr>\<rparr>"
    by (auto simp: server_secret_def)
qed

lemma awaitSecret_Inr: "awaitSecret L tries name n = (Inr v, n') \<Longrightarrow> server_secret (ndb n') name = Some v"
proof (induction tries arbitrary: n)
  case (Suc tries)
  obtain r n1 where g: "on_db (getSecret name) n = (r, n1)" by (cases "on_db (getSecret name) n")
  show ?case
  proof (cases "r \<noteq> Inl NotFound \<or> isLeader L n1")
    case True
    with Suc.prems g have "on_db (getSecret name) n = (Inr v, n')" by (simp add: handleE_def)
    then show ?thesis by (rule getSecret_Inr)
  next
    case False
    with Suc.prems g obtain n2 where
      "handleE (on_db (getSecret name)) (\<lambda>r2. if r2 \<noteq> Inl NotFound then Pair r2
         else bindE (tryPromote L) (\<lambda>_. awaitSecret L tries name)) n2 = (Inr v, n')"
      by (auto simp: handleE_def bindE_Inr)
    moreover obtain r2 n3 where g2: "on_db (getSecret name) n2 = (r2, n3)" by (cases "on_db (getSecret name) n2")
    ultimately have c: "(if r2 \<noteq> Inl NotFound then (r2, n3)
        else bindE (tryPromote L) (\<lambda>_. awaitSecret L tries name) n3) = (Inr v, n')"
      by (simp add: handleE_def split: if_splits)
    show ?thesis
    proof (cases "r2 = Inl NotFound")
      case True
      with c show ?thesis by (auto simp: bindE_Inr intro: Suc.IH)
    next
      case False
      with c g2 show ?thesis by (simp add: getSecret_Inr)
    qed
  qed
qed simp

lemma awaitSecret_NotFound: "awaitSecret L tries name n = (Inl NotFound, n') \<Longrightarrow>
    (\<And>m m'. refresh L m \<noteq> (Inl NotFound, m')) \<Longrightarrow> (\<And>m m'. tryPromote L m \<noteq> (Inl NotFound, m')) \<Longrightarrow>
    isLeader L n'"
proof (induction tries arbitrary: n)
  case (Suc tries)
  obtain r n1 where g: "on_db (getSecret name) n = (r, n1)" by (cases "on_db (getSecret name) n")
  show ?case
  proof (cases "r \<noteq> Inl NotFound \<or> isLeader L n1")
    case True
    with Suc.prems g show ?thesis by (auto simp: handleE_def)
  next
    case False
    with Suc.prems(1,2) g obtain n2 where
      "handleE (on_db (getSecret name)) (\<lambda>r2. if r2 \<noteq> Inl NotFound then Pair r2
         else bindE (tryPromote L) (\<lambda>_. awaitSecret L tries name)) n2 = (Inl NotFound, n')"
      by (auto simp: handleE_def bindE_def split: prod.splits sum.splits)
    moreover obtain r2 n3 where g2: "on_db (getSecret name) n2 = (r2, n3)" by (cases "on_db (getSecret name) n2")
    ultimately have c: "r2 = Inl NotFound"
        "bindE (tryPromote L) (\<lambda>_. awaitSecret L tries name) n3 = (Inl NotFound, n')"
      by (auto simp: handleE_def split: if_splits)
    from c(2) Suc.prems(3) obtain n4 where "awaitSecret L tries name n4 = (Inl NotFound, n')"
      by (auto simp: bindE_def split: prod.splits sum.splits)
    from Suc.IH[OF this Suc.prems(2,3)] show ?thesis by simp
  qed
qed simp

text \<open>
  C11. A server secret that \<open>GetOrCreateSecret\<close> returns is the one that the database then
  holds under its name: a caller never goes on with a key that is not the stored one, and the
  next call on this database returns the same key, whatever its generator offers.
\<close>

theorem server_secret_agreement:
  assumes "GetOrCreateSecret L tries name gen n = (Inr v, n')"
  shows "server_secret (ndb n') name = Some v \<and>
    (no_faults (ndb n') \<longrightarrow> GetOrCreateSecret L (Suc tries') name gen' n' = (Inr v, n'))"
proof
  show stored: "server_secret (ndb n') name = Some v"
  proof (cases "awaitSecret L tries name n")
    case (Pair r n1)
    show ?thesis
    proof (cases r)
      case (Inr w)
      with assms Pair have "awaitSecret L tries name n = (Inr v, n')"
        by (simp add: GetOrCreateSecret_def handleE_def retE_def)
      then show ?thesis by (rule awaitSecret_Inr)
    next
      case (Inl e)
      with assms Pair obtain n2 where "on_db (getSecret name) n2 = (Inr v, n')"
        by (auto simp: GetOrCreateSecret_def handleE_def errE_def bindE_Inr split: if_splits sum.splits)
      then show ?thesis by (rule getSecret_Inr)
    qed
  qed
  have "on_db (getSecret name) n' = (Inr v, n')" if nf: "no_faults (ndb n')"
    using stored nf by (auto simp: on_db_def getSecret_def server_secret_def split: option.splits)
  then show "no_faults (ndb n') \<longrightarrow> GetOrCreateSecret L (Suc tries') name gen' n' = (Inr v, n')"
    by (simp add: GetOrCreateSecret_def handleE_def retE_def)
qed

lemma server_secret_agreement_witness:
  "\<exists>n'. GetOrCreateSecret \<lparr>isLeader = (\<lambda>_. True), refresh = retE (), tryPromote = retE True\<rparr> 3 ''worker_secret''
      (Inr ''w'') \<lparr>ndb = sample_db, s3 = ()\<rparr> = (Inr ''w'', n') \<and>
    server_secret (ndb n') ''worker_secret'' = Some ''w''"
proof -
  let ?r = "GetOrCreateSecret \<lparr>isLeader = (\<lambda>_. True), refresh = retE (), tryPromote = retE True\<rparr> 3 ''worker_secret''
      (Inr ''w'') \<lparr>ndb = sample_db, s3 = ()\<rparr>"
  have "fst ?r = Inr ''w''"
    by (simp add: GetOrCreateSecret_def numeral_3_eq_3 handleE_def on_db_def getSecret_def sample_db_def
        no_faults_def errE_def bindE_def insertServerSecret_def)
  then obtain n' where "?r = (Inr ''w'', n')" by (metis prod.collapse)
  with server_secret_agreement[OF this] show ?thesis by blast
qed

section \<open>The migration\<close>

text \<open>The columns of a table, and the oracle for the statements that alter it.\<close>

type_synonym table_state = "string list \<times> bool list"

fun addColumns :: "(string \<times> string) list \<Rightarrow> table_state \<Rightarrow> (meta_error + unit) \<times> table_state" where
  "addColumns [] s = (Inr (), s)"
| "addColumns ((c, ddl) # cs) (have, fs) =
     (if c \<in> set have then addColumns cs (have, fs)
      else if fs \<noteq> [] \<and> hd fs then (Inl DbError, (have, tl fs))
      else addColumns cs (have @ [c], tl fs))"

definition tokenColumns :: "(string \<times> string) list" where
  "tokenColumns = [(''expires_at'', ''TEXT''), (''repo_scope'', ''INTEGER REFERENCES repos(id)''),
     (''read_only'', ''INTEGER NOT NULL DEFAULT 0'')]"

definition migrate :: "table_state \<Rightarrow> (meta_error + unit) \<times> table_state" where
  "migrate = addColumns tokenColumns"

lemma addColumns_have:
  "addColumns cs (have, fs) = (r, (have', fs')) \<Longrightarrow>
   set have \<subseteq> set have' \<and> set have' \<subseteq> set have \<union> fst ` set cs \<and> (distinct have \<longrightarrow> distinct have') \<and>
   (r = Inr () \<longrightarrow> fst ` set cs \<subseteq> set have')"
proof (induction cs arbitrary: "have" fs)
  case (Cons c cs)
  obtain n d where c: "c = (n, d)" by (cases c)
  consider "n \<in> set have" | "n \<notin> set have" "fs \<noteq> [] \<and> hd fs" | "n \<notin> set have" "\<not> (fs \<noteq> [] \<and> hd fs)"
    by blast
  then show ?case
  proof cases
    case 1
    with Cons.prems c have "addColumns cs (have, fs) = (r, (have', fs'))" by simp
    from Cons.IH[OF this] 1 c show ?thesis by auto
  next
    case 2
    with Cons.prems c show ?thesis by auto
  next
    case 3
    with Cons.prems c have "addColumns cs (have @ [n], tl fs) = (r, (have', fs'))"
      by (simp only: addColumns.simps if_False)
    from Cons.IH[OF this] 3(1) c show ?thesis by auto
  qed
qed auto

lemma addColumns_done: "fst ` set cs \<subseteq> set have \<Longrightarrow> addColumns cs (have, fs) = (Inr (), (have, fs))"
  by (induction cs) auto

text \<open>
  The migration is idempotent and restartable: however a run ends, no column is lost or
  repeated; a run that succeeds has added every column, and the next run changes nothing.
\<close>

theorem migrate_idempotent:
  assumes "distinct cols" "migrate (cols, fs) = (r, (cols', fs'))"
  shows "distinct cols' \<and> set cols \<subseteq> set cols' \<and>
    (r = Inr () \<longrightarrow> set cols' = set cols \<union> fst ` set tokenColumns \<and> migrate (cols', gs) = (Inr (), (cols', gs)))"
  using addColumns_have[OF assms(2)[unfolded migrate_def]] assms(1)
    addColumns_done[of tokenColumns cols' gs]
  unfolding migrate_def by blast

lemma migrate_idempotent_witness:
  "migrate ([''id'', ''expires_at''], [False, True]) = (Inl DbError, ([''id'', ''expires_at'', ''repo_scope''], [])) \<and>
   distinct [''id'', ''expires_at'', ''repo_scope'']"
proof -
  have m: "migrate ([''id'', ''expires_at''], [False, True]) = (Inl DbError, ([''id'', ''expires_at'', ''repo_scope''], []))"
    by (simp add: migrate_def tokenColumns_def)
  with migrate_idempotent[OF _ this] show ?thesis by simp
qed

section \<open>Each operation keeps the invariant\<close>

lemma db_ok_ci_secretsI:
  "db_ok s \<Longrightarrow> secrets_ok (s\<lparr>ci_secrets := R\<rparr>) \<Longrightarrow> db_ok (s\<lparr>ci_secrets := R\<rparr>)"
  by (simp add: db_ok_def tables_ok_defs has_defs)

lemma db_ok_server_secretsI:
  "db_ok s \<Longrightarrow> distinct (map fst R) \<Longrightarrow> db_ok (s\<lparr>server_secrets := R\<rparr>)"
  by (simp add: db_ok_def tables_ok_defs has_defs)

lemma keeps_SetSecret [keeps_intro]: "keeps db_ok (SetSecret repo name v iv ct ts)"
proof -
  let ?P = "\<lambda>r. secret_repo r = repo \<and> secret_name r = name"
  let ?f = "\<lambda>r. r\<lparr>secret_v := v, secret_iv := iv, secret_ct := ct, secret_created := ts\<rparr>"
  let ?row = "\<lparr>secret_repo = repo, secret_name = name, secret_v = v, secret_iv = iv, secret_ct = ct,
    secret_created = ts\<rparr>"
  have m: "map (\<lambda>r. (secret_repo r, secret_name r)) (update_where ?P ?f R)
      = map (\<lambda>r. (secret_repo r, secret_name r)) R" for R :: "secret_row list"
    by (rule map_update_where) simp
  have upd: "secrets_ok (s\<lparr>ci_secrets := update_where ?P ?f (ci_secrets s)\<rparr>)" if "secrets_ok s" for s
    unfolding secrets_ok_def has_defs using that
    by (simp add: m) (auto simp: secrets_ok_def set_update_where has_defs)
  have ins: "secrets_ok (s\<lparr>ci_secrets := ci_secrets s @ [?row]\<rparr>)"
    if "secrets_ok s" "fk s \<Longrightarrow> has_repo s repo" "\<not> (\<exists>r \<in> set (ci_secrets s). ?P r)" for s
    using that by (auto simp: secrets_ok_def has_defs)
  show ?thesis
    unfolding SetSecret_def
  proof (rule keeps_upsert)
    fix s assume s: "db_ok s" and ok: "\<not> (fk s \<and> \<not> has_repo s repo)"
    then have a: "secrets_ok s" by (simp add: db_ok_def)
    show "db_ok (s\<lparr>ci_secrets := update_where ?P ?f (ci_secrets s)\<rparr>)" by (intro db_ok_ci_secretsI s upd a)
    assume "\<not> (\<exists>r \<in> set (ci_secrets s). ?P r)"
    with ok show "db_ok (s\<lparr>ci_secrets := ci_secrets s @ [?row]\<rparr>)" by (intro db_ok_ci_secretsI s ins a) auto
  qed
qed

lemma keeps_secrets [keeps_intro]:
  "keeps db_ok (ListSecretNames repo)" "keeps db_ok (GetSecrets repo)" "keeps db_ok (getSecret name)"
  "keeps db_ok (DeleteSecret repo name)" "keeps db_ok (insertServerSecret name val)"
proof -
  show "keeps db_ok (DeleteSecret repo name)"
    unfolding DeleteSecret_def
    by (intro keeps_sql_db_ok) (auto intro!: db_ok_ci_secretsI simp: secrets_ok_def table has_defs)
  show "keeps db_ok (insertServerSecret name val)"
    unfolding insertServerSecret_def
    by (intro keeps_sql_db_ok) (auto intro!: db_ok_server_secretsI simp: secrets_ok_def)
qed (simp_all add: ListSecretNames_def GetSecrets_def getSecret_def keeps_query keeps_query_row fault_free_db_ok)

end
