(* ===== verification/GoEncoding.thy ===== *)
theory GoEncoding
  imports Prelude
begin

text \<open>
  Go's \<open>encoding/base64\<close> (\<open>StdEncoding.DecodeString\<close>) and the credentials of
  \<open>net/http\<close> that are built on it (\<open>Request.BasicAuth\<close>). The decoder skips line breaks,
  wants padding, and does not look at the bits behind the last byte. \<open>b64_encode\<close> is what
  a client sends; the decoder inverts it.
\<close>

definition b64_char :: "nat \<Rightarrow> char" where
  "b64_char n = char_of (if n < 26 then n + 65 else if n < 52 then n + 71
     else if n < 62 then n - 4 else if n = 62 then 43 else 47)"

definition b64_val :: "char \<Rightarrow> nat option" where
  "b64_val c = (let n = of_char c :: nat in
     if 65 \<le> n \<and> n \<le> 90 then Some (n - 65)
     else if 97 \<le> n \<and> n \<le> 122 then Some (n - 71)
     else if 48 \<le> n \<and> n \<le> 57 then Some (n + 4)
     else if n = 43 then Some 62 else if n = 47 then Some 63 else None)"

fun b64_vals :: "string \<Rightarrow> nat list option" where
  "b64_vals [] = Some []"
| "b64_vals (c # cs) = (case b64_val c of None \<Rightarrow> None | Some v \<Rightarrow> map_option ((#) v) (b64_vals cs))"

fun b64_bytes :: "nat list \<Rightarrow> bytes" where
  "b64_bytes [a, b] = [char_of (a * 4 + b div 16)]"
| "b64_bytes [a, b, c] = [char_of (a * 4 + b div 16), char_of (b mod 16 * 16 + c div 4)]"
| "b64_bytes (a # b # c # d # vs) =
     char_of (a * 4 + b div 16) # char_of (b mod 16 * 16 + c div 4) # char_of (c mod 4 * 64 + d) # b64_bytes vs"
| "b64_bytes _ = []"

fun b64_quads :: "string \<Rightarrow> bytes option" where
  "b64_quads [] = Some []"
| "b64_quads (a # b # c # d # rest) =
     (if c = CHR ''='' then
        (if d = CHR ''='' \<and> rest = [] then map_option b64_bytes (b64_vals [a, b]) else None)
      else if d = CHR ''='' then
        (if rest = [] then map_option b64_bytes (b64_vals [a, b, c]) else None)
      else (case b64_vals [a, b, c, d] of None \<Rightarrow> None
        | Some vs \<Rightarrow> map_option ((@) (b64_bytes vs)) (b64_quads rest)))"
| "b64_quads _ = None"

definition b64_decode :: "string \<Rightarrow> bytes option" where
  "b64_decode s = b64_quads (filter (\<lambda>c. of_char c \<notin> ({10, 13} :: nat set)) s)"

fun b64_encode :: "bytes \<Rightarrow> string" where
  "b64_encode [] = []"
| "b64_encode [x] = (let a = of_char x :: nat in
     [b64_char (a div 4), b64_char (a mod 4 * 16), CHR ''='', CHR ''=''])"
| "b64_encode [x, y] = (let a = of_char x :: nat; b = of_char y in
     [b64_char (a div 4), b64_char (a mod 4 * 16 + b div 16), b64_char (b mod 16 * 4), CHR ''=''])"
| "b64_encode (x # y # z # xs) = (let a = of_char x :: nat; b = of_char y; c = of_char z in
     b64_char (a div 4) # b64_char (a mod 4 * 16 + b div 16) # b64_char (b mod 16 * 4 + c div 64) #
     b64_char (c mod 64) # b64_encode xs)"

lemma of_b64_char: "n < 64 \<Longrightarrow> of_char (b64_char n) = (if n < 26 then n + 65 else if n < 52 then n + 71
     else if n < 62 then n - 4 else if n = 62 then 43 else 47)"
  by (simp add: b64_char_def)

lemma b64_char [simp]:
  assumes "n < 64"
  shows "b64_val (b64_char n) = Some n" "b64_char n \<noteq> CHR ''=''"
    "of_char (b64_char n) \<noteq> (10 :: nat)" "of_char (b64_char n) \<noteq> (13 :: nat)"
proof -
  show "b64_val (b64_char n) = Some n"
    using assms by (simp add: b64_val_def of_b64_char Let_def split: if_splits) linarith
  show "of_char (b64_char n) \<noteq> (10 :: nat)" "of_char (b64_char n) \<noteq> (13 :: nat)"
    using assms by (simp_all add: of_b64_char) linarith+
  have "of_char (b64_char n) \<noteq> (61 :: nat)" using assms by (simp add: of_b64_char) linarith
  moreover have "of_char (CHR ''='') = (61 :: nat)" by simp
  ultimately show "b64_char n \<noteq> CHR ''=''" by metis
qed

lemma byte_bounds [simp]:
  fixes a b c :: char
  shows "(of_char a :: nat) div 4 < 64" "(of_char a :: nat) mod 4 * 16 + of_char b div 16 < 64"
    "(of_char a :: nat) mod 4 * 16 < 64" "(of_char b :: nat) mod 16 * 4 < 64"
    "(of_char b :: nat) mod 16 * 4 + of_char c div 64 < 64" "(of_char c :: nat) mod 64 < 64"
proof -
  have "(of_char a :: nat) div 4 < 64" "(of_char b :: nat) div 16 < 16" "(of_char c :: nat) div 64 < 4"
    using nat_of_char_less_256[of a] nat_of_char_less_256[of b] nat_of_char_less_256[of c] by linarith+
  moreover have "(of_char a :: nat) mod 4 < 4" "(of_char b :: nat) mod 16 < 16" "(of_char c :: nat) mod 64 < 64"
    by simp_all
  ultimately show "(of_char a :: nat) div 4 < 64" "(of_char a :: nat) mod 4 * 16 + of_char b div 16 < 64"
    "(of_char a :: nat) mod 4 * 16 < 64" "(of_char b :: nat) mod 16 * 4 < 64"
    "(of_char b :: nat) mod 16 * 4 + of_char c div 64 < 64" "(of_char c :: nat) mod 64 < 64"
    by linarith+
qed

lemma byte_div [simp]:
  fixes a :: char
  shows "(of_char a :: nat) div 16 div 16 = 0" "(of_char a :: nat) div 16 mod 16 = of_char a div 16"
    "(of_char a :: nat) div 64 div 4 = 0" "(of_char a :: nat) div 64 mod 4 = of_char a div 64"
proof -
  have "(of_char a :: nat) div 16 < 16" "(of_char a :: nat) div 64 < 4"
    using nat_of_char_less_256[of a] by linarith+
  then show "(of_char a :: nat) div 16 div 16 = 0" "(of_char a :: nat) div 16 mod 16 = of_char a div 16"
    "(of_char a :: nat) div 64 div 4 = 0" "(of_char a :: nat) div 64 mod 4 = of_char a div 64"
    by simp_all
qed

lemma b64_quads_encode: "b64_quads (b64_encode bs) = Some bs"
  by (induction bs rule: b64_encode.induct) (simp_all add: Let_def)

lemma b64_encode_lines: "\<forall>c \<in> set (b64_encode bs). of_char c \<notin> ({10, 13} :: nat set)"
  by (induction bs rule: b64_encode.induct) (auto simp: Let_def)

lemma b64_roundtrip [simp]: "b64_decode (b64_encode bs) = Some bs"
  using b64_encode_lines[of bs] b64_quads_encode[of bs]
  by (simp add: b64_decode_def filter_id_conv)

text \<open>\<open>parseBasicAuth\<close> of net/http: the scheme in any case, then base64 of user:password.\<close>

definition lower_code :: "char \<Rightarrow> nat" where
  "lower_code c = (let n = of_char c in if 65 \<le> n \<and> n \<le> 90 then n + 32 else n)"

definition basic_auth :: "string \<Rightarrow> (string \<times> string) option" where
  "basic_auth h =
     (if length h < 6 \<or> map lower_code (take 6 h) \<noteq> map of_char ''basic '' then None
      else (case b64_decode (drop 6 h) of None \<Rightarrow> None | Some bs \<Rightarrow> cut '':'' bs))"

lemma basic_auth_encode:
  "CHR '':'' \<notin> set u \<Longrightarrow> basic_auth (''Basic '' @ b64_encode (u @ CHR '':'' # p)) = Some (u, p)"
  by (simp add: basic_auth_def lower_code_def cut_char)

end
