(* ===== verification/Auth.thy ===== *)
theory Auth
  imports MetaSecrets GoEncoding
begin

text \<open>
  \<open>internal/auth\<close>: personal access tokens and the guard of every request. SHA-256 is a
  parameter \<open>H\<close>, the random bytes that \<open>crypto/rand\<close> returns are arguments (\<open>None\<close> when
  the read fails), and \<open>nw\<close> is the clock of the guard. A request is what the guard reads
  of it: the Authorization header, empty when there is none.
\<close>

datatype auth_error = ErrUnauthorized | ErrForbidden | AuthMeta meta_error | ErrRandom

type_synonym 'a authop = "db \<Rightarrow> (auth_error + 'a) \<times> db"

definition liftA :: "'a dbop \<Rightarrow> 'a authop" where
  "liftA m s = (case m s of (Inl e, t) \<Rightarrow> (Inl (AuthMeta e), t) | (Inr x, t) \<Rightarrow> (Inr x, t))"

section \<open>Tokens\<close>

definition tokenPrefix :: string where "tokenPrefix = ''gmt_''"

definition randHex :: "bytes option \<Rightarrow> string option" where
  "randHex b = map_option hex_encode b"

definition hashSecret :: "(bytes \<Rightarrow> bytes) \<Rightarrow> string \<Rightarrow> string" where
  "hashSecret H secret = hex_encode (H secret)"

definition Mint :: "(bytes \<Rightarrow> bytes) \<Rightarrow> bytes option \<Rightarrow> bytes option \<Rightarrow> (string \<times> string \<times> string) option" where
  "Mint H b1 b2 = (case randHex b1 of None \<Rightarrow> None | Some sel \<Rightarrow>
     (case randHex b2 of None \<Rightarrow> None | Some secret \<Rightarrow>
        Some (tokenPrefix @ sel @ ''.'' @ secret, sel, hashSecret H secret)))"

definition split :: "string \<Rightarrow> (string \<times> string) option" where
  "split raw = (case cut_prefix tokenPrefix raw of None \<Rightarrow> None | Some rest \<Rightarrow>
     (case cut ''.'' rest of None \<Rightarrow> None | Some (sel, secret) \<Rightarrow>
        if sel = [] \<or> secret = [] then None else Some (sel, secret)))"

definition tokenFromRequest :: "string \<Rightarrow> string option" where
  "tokenFromRequest h =
     (if h = [] then None
      else if has_prefix ''Bearer '' h
      then (let tok = trim_space (trim_prefix ''Bearer '' h) in if tok \<noteq> [] then Some tok else None)
      else (case basic_auth h of None \<Rightarrow> None
        | Some (user, pass) \<Rightarrow> if pass \<noteq> [] then Some pass else if user \<noteq> [] then Some user else None))"

fun permRank :: "perm \<Rightarrow> nat" where
  "permRank PermRead = 1"
| "permRank PermWrite = 2"
| "permRank PermAdmin = 3"
| "permRank (PermOther _) = 0"

definition allows :: "perm \<Rightarrow> perm \<Rightarrow> bool" where
  "allows granted required = (let req = permRank required in 0 < req \<and> req \<le> permRank granted)"

section \<open>The guard\<close>

record verifiedToken =
  vt_user :: user
  vt_scope :: "int option"
  vt_read_only :: bool

definition verify :: "(bytes \<Rightarrow> bytes) \<Rightarrow> time \<Rightarrow> string \<Rightarrow> verifiedToken authop" where
  "verify H nw raw = (case split raw of None \<Rightarrow> errE ErrUnauthorized
     | Some (sel, secret) \<Rightarrow>
        lookupE (TokenBySelector sel) (errE ErrUnauthorized) (\<lambda>e. errE (AuthMeta e)) (\<lambda>ta.
              if ta_verifier ta \<noteq> hashSecret H secret then errE ErrUnauthorized
              else if (case ta_expires ta of None \<Rightarrow> False | Some e \<Rightarrow> e \<le> nw) then errE ErrUnauthorized
              else bindE (liftA (TouchToken (ta_id ta) nw)) (\<lambda>_.
                retE \<lparr>vt_user = ta_user ta, vt_scope = ta_scope ta, vt_read_only = ta_read_only ta\<rparr>)))"

definition VerifyToken :: "(bytes \<Rightarrow> bytes) \<Rightarrow> time \<Rightarrow> string \<Rightarrow> user authop" where
  "VerifyToken H nw raw = bindE (verify H nw raw) (\<lambda>vt. retE (vt_user vt))"

definition MintScoped :: "(bytes \<Rightarrow> bytes) \<Rightarrow> bytes option \<Rightarrow> bytes option \<Rightarrow> int \<Rightarrow> string \<Rightarrow>
    int option \<Rightarrow> bool \<Rightarrow> time option \<Rightarrow> time \<Rightarrow> string authop" where
  "MintScoped H b1 b2 uid label scope ro expires ts = (case Mint H b1 b2 of
       None \<Rightarrow> errE ErrRandom
     | Some (raw, sel, ver) \<Rightarrow>
         bindE (liftA (CreateScopedToken uid sel ver label scope ro expires ts)) (\<lambda>_. retE raw))"

text \<open>\<open>Authorize\<close> from the point where it has a verified token.\<close>

definition authorizeToken :: "repo \<Rightarrow> perm \<Rightarrow> verifiedToken \<Rightarrow> user option authop" where
  "authorizeToken r p vt =
     (if (case vt_scope vt of None \<Rightarrow> False | Some i \<Rightarrow> i \<noteq> repo_id r) then errE ErrForbidden
      else if vt_read_only vt \<and> permRank PermRead < permRank p then errE ErrForbidden
      else if p = PermRead
      then bindE (liftA (CanRead r (user_id (vt_user vt)))) (\<lambda>ok.
        if ok then retE (Some (vt_user vt)) else errE ErrForbidden)
      else lookupE (GetACL (repo_id r) (user_id (vt_user vt)))
        (errE ErrForbidden) (\<lambda>e. errE (AuthMeta e))
        (\<lambda>granted. if allows granted p then retE (Some (vt_user vt)) else errE ErrForbidden))"

definition Authorize :: "(bytes \<Rightarrow> bytes) \<Rightarrow> time \<Rightarrow> string \<Rightarrow> string \<Rightarrow> perm \<Rightarrow> user option authop" where
  "Authorize H nw header name p =
     (let tok = tokenFromRequest header in
      lookupE (GetRepo name)
        (if tok = None then errE ErrUnauthorized else errE (AuthMeta NotFound))
        (\<lambda>e. errE (AuthMeta e))
        (\<lambda>r. (case tok of
            None \<Rightarrow> if p = PermRead \<and> Public r then retE None else errE ErrUnauthorized
          | Some raw \<Rightarrow> bindE (verify H nw raw) (authorizeToken r p))))"

section \<open>What a token is worth\<close>

text \<open>
  The rules of \<open>docs/architecture/auth.md\<close> as conditions on the tables: \<open>token_valid\<close>
  says that a raw token names a stored token and its owner, \<open>may\<close> that a user may act on
  a repository, and \<open>constraints_ok\<close> that the restrictions of the token admit it.
\<close>

definition token_valid :: "(bytes \<Rightarrow> bytes) \<Rightarrow> time \<Rightarrow> db \<Rightarrow> string \<Rightarrow> token_row \<Rightarrow> user \<Rightarrow> bool" where
  "token_valid H nw s raw t u \<longleftrightarrow> (\<exists>secret. split raw = Some (selector t, secret) \<and>
     verifier t = hashSecret H secret) \<and> t \<in> set (tokens s) \<and>
     u \<in> set (users s) \<and> user_id u = token_user t \<and>
     (\<forall>e. expires_at t = Some e \<longrightarrow> nw < e)"

definition granted_to :: "db \<Rightarrow> repo \<Rightarrow> user \<Rightarrow> perm \<Rightarrow> bool" where
  "granted_to s r u g \<longleftrightarrow>
     (\<exists>a \<in> set (acls s). acl_repo a = repo_id r \<and> acl_user a = user_id u \<and> acl_perm a = g)"

definition may :: "db \<Rightarrow> repo \<Rightarrow> user \<Rightarrow> perm \<Rightarrow> bool" where
  "may s r u p \<longleftrightarrow> (if p = PermRead then Public r \<or> (\<exists>g. granted_to s r u g)
     else (\<exists>g. granted_to s r u g \<and> 0 < permRank p \<and> permRank p \<le> permRank g))"

definition constraints_ok :: "token_row \<Rightarrow> repo \<Rightarrow> perm \<Rightarrow> bool" where
  "constraints_ok t r p \<longleftrightarrow> (repo_scope t = None \<or> repo_scope t = Some (repo_id r)) \<and>
     (read_only t \<longrightarrow> permRank p \<le> permRank PermRead)"

lemma liftA_Inr: "liftA m s = (Inr x, t) \<longleftrightarrow> m s = (Inr x, t)"
  by (auto simp: liftA_def split: prod.splits sum.splits)

lemma keeps_liftA [keeps_intro]: "keeps P m \<Longrightarrow> keeps P (liftA m)"
  by (fastforce simp: keeps_def liftA_def split: prod.splits sum.splits)

lemma Mint_split:
  assumes "Mint H b1 b2 = Some (raw, sel, ver)" "b1 \<noteq> Some []" "b2 \<noteq> Some []"
  shows "\<exists>secret. split raw = Some (sel, secret) \<and> ver = hashSecret H secret"
proof -
  from assms obtain x y where xy: "b1 = Some x" "b2 = Some y" "x \<noteq> []" "y \<noteq> []"
    "raw = tokenPrefix @ hex_encode x @ CHR ''.'' # hex_encode y" "sel = hex_encode x"
    "ver = hashSecret H (hex_encode y)"
    by (auto simp: Mint_def randHex_def split: option.splits)
  then have "split raw = Some (sel, hex_encode y)"
    by (simp add: split_def cut_char)
  with xy show ?thesis by blast
qed

lemma TokenBySelector_Inr:
  assumes "TokenBySelector sel s = (Inr ta, s')"
  shows "\<exists>fs t u. s' = s\<lparr>faults := fs\<rparr> \<and> t \<in> set (tokens s) \<and> selector t = sel \<and>
    u \<in> set (users s) \<and> user_id u = token_user t \<and> ta = token_auth_of t u"
proof -
  from query_row_Inr[OF assms[unfolded TokenBySelector_def]] obtain fs t u where
    "s' = s\<lparr>faults := fs\<rparr>" "first_where (\<lambda>t. selector t = sel) (tokens s) = Some t"
    "first_where (\<lambda>u. user_id u = token_user t) (users s) = Some u" "ta = token_auth_of t u"
    by (auto split: option.splits)
  moreover from this first_where_Some have "t \<in> set (tokens s) \<and> selector t = sel"
      "u \<in> set (users s) \<and> user_id u = token_user t" by fast+
  ultimately show ?thesis by blast
qed

lemma TokenBySelector_found:
  assumes "db_ok s" "no_faults s" "t \<in> set (tokens s)" "u \<in> set (users s)" "user_id u = token_user t"
  shows "TokenBySelector (selector t) s = (Inr (token_auth_of t u), s)"
proof -
  have "first_where (\<lambda>x. selector x = selector t) (tokens s) = Some t"
    by (rule first_where_unique[where key = selector]) (use assms in \<open>auto simp: db_ok_def tokens_ok_def\<close>)
  moreover have "first_where (\<lambda>x. user_id x = token_user t) (users s) = Some u"
    by (rule first_where_unique[where key = user_id])
       (use assms in \<open>auto simp: db_ok_def users_ok_def key_ok_def\<close>)
  ultimately show ?thesis using assms(2) by (simp add: TokenBySelector_def)
qed

lemma verify_Inr:
  assumes "verify H nw raw s = (Inr vt, s')"
  shows "\<exists>t u. token_valid H nw s raw t u \<and>
      vt = \<lparr>vt_user = u, vt_scope = repo_scope t, vt_read_only = read_only t\<rparr>"
    "acls s' = acls s"
proof -
  from assms obtain sel secret where sp: "split raw = Some (sel, secret)"
    by (auto simp: verify_def errE_def split: option.splits)
  with assms have "lookupE (TokenBySelector sel) (errE ErrUnauthorized) (\<lambda>e. errE (AuthMeta e)) (\<lambda>ta.
      if ta_verifier ta \<noteq> hashSecret H secret then errE ErrUnauthorized
      else if (case ta_expires ta of None \<Rightarrow> False | Some e \<Rightarrow> e \<le> nw) then errE ErrUnauthorized
      else bindE (liftA (TouchToken (ta_id ta) nw)) (\<lambda>_.
        retE \<lparr>vt_user = ta_user ta, vt_scope = ta_scope ta, vt_read_only = ta_read_only ta\<rparr>)) s = (Inr vt, s')"
    by (simp add: verify_def)
  then obtain ta s1 where tb: "TokenBySelector sel s = (Inr ta, s1)"
    and v: "ta_verifier ta = hashSecret H secret" "\<forall>e. ta_expires ta = Some e \<longrightarrow> nw < e"
      "vt = \<lparr>vt_user = ta_user ta, vt_scope = ta_scope ta, vt_read_only = ta_read_only ta\<rparr>"
    and touch: "TouchToken (ta_id ta) nw s1 = (Inr (), s')"
    by (elim lookupE_cases) (auto simp: errE_def retE_def bindE_Inr liftA_Inr split: if_splits option.splits)
  from TokenBySelector_Inr[OF tb] obtain fs t u where
    t: "s1 = s\<lparr>faults := fs\<rparr>" "t \<in> set (tokens s)" "selector t = sel" "u \<in> set (users s)"
      "user_id u = token_user t" "ta = token_auth_of t u" by blast
  from t v sp have "token_valid H nw s raw t u"
      "vt = \<lparr>vt_user = u, vt_scope = repo_scope t, vt_read_only = read_only t\<rparr>"
    by (auto simp: token_valid_def token_auth_of_def)
  then show "\<exists>t u. token_valid H nw s raw t u \<and>
      vt = \<lparr>vt_user = u, vt_scope = repo_scope t, vt_read_only = read_only t\<rparr>" by blast
  from touch t(1) show "acls s' = acls s" by (auto simp: TouchToken_def dest!: sql_Inr)
qed

lemma verify_complete:
  assumes "db_ok s" "no_faults s" "token_valid H nw s raw t u"
  shows "\<exists>s'. verify H nw raw s =
      (Inr \<lparr>vt_user = u, vt_scope = repo_scope t, vt_read_only = read_only t\<rparr>, s') \<and>
      no_faults s' \<and> acls s' = acls s \<and> repos s' = repos s \<and> users s' = users s"
proof -
  from assms(3) obtain secret where sp: "split raw = Some (selector t, secret)"
      "verifier t = hashSecret H secret" "t \<in> set (tokens s)" "u \<in> set (users s)"
      "user_id u = token_user t" "\<forall>e. expires_at t = Some e \<longrightarrow> nw < e"
    by (auto simp: token_valid_def)
  let ?s = "s\<lparr>tokens := update_where (\<lambda>x. token_id x = token_id t) (\<lambda>x. x\<lparr>last_used := Some nw\<rparr>) (tokens s)\<rparr>"
  have "verify H nw raw s =
      (Inr \<lparr>vt_user = u, vt_scope = repo_scope t, vt_read_only = read_only t\<rparr>, ?s)"
    using sp assms(2) TokenBySelector_found[OF assms(1,2) sp(3-5)]
    by (auto simp: verify_def token_auth_of_def bindE_def liftA_def TouchToken_def
        retE_def errE_def split: option.splits)
  then show ?thesis using assms(2) by (auto simp: no_faults_def)
qed

lemma keeps_verify [keeps_intro]: "keeps db_ok (verify H nw raw)"
  unfolding verify_def
  by (auto intro!: keeps_handleE keeps_errE keeps_bindE keeps_liftA keeps_retE keeps_reads keeps_TouchToken
      keeps_lookupE split: option.split prod.split)

lemma GetACL_Inr:
  "GetACL i uid s = (Inr g, s') \<Longrightarrow> \<exists>a \<in> set (acls s). acl_repo a = i \<and> acl_user a = uid \<and> acl_perm a = g"
  unfolding GetACL_def by (drule query_row_Inr) (auto dest!: first_where_Some)

lemma GetACL_found:
  assumes "db_ok s" "no_faults s" "a \<in> set (acls s)" "acl_repo a = i" "acl_user a = uid"
  shows "GetACL i uid s = (Inr (acl_perm a), s)"
proof -
  have "first_where (\<lambda>a. acl_repo a = i \<and> acl_user a = uid) (acls s) = Some a"
    by (rule first_where_unique[where key = "\<lambda>a. (acl_repo a, acl_user a)"])
       (use assms in \<open>auto simp: db_ok_def acls_ok_def\<close>)
  then show ?thesis using assms(2) by (simp add: GetACL_def)
qed

lemma CanRead_True:
  assumes "CanRead r uid s = (Inr True, s')"
  shows "Public r \<or> (\<exists>a \<in> set (acls s). acl_repo a = repo_id r \<and> acl_user a = uid)"
proof (cases "Public r \<or> uid = 0")
  case True
  with assms show ?thesis by (auto simp: CanRead_def retE_def split: if_splits)
next
  case False
  with assms have "lookupE (GetACL (repo_id r) uid) (retE False) errE (\<lambda>_. retE True) s = (Inr True, s')"
    by (simp add: CanRead_def)
  then obtain g u where "GetACL (repo_id r) uid s = (Inr g, u)"
    by (elim lookupE_cases) (auto simp: retE_def errE_def)
  then show ?thesis using GetACL_Inr by blast
qed

lemma may_cong: "acls s' = acls s \<Longrightarrow> may s' r u p = may s r u p"
proof -
  assume "acls s' = acls s"
  then have "granted_to s' = granted_to s" by (intro ext) (simp add: granted_to_def)
  then show ?thesis by (simp add: may_def)
qed

lemma granted_any: "(\<exists>g. granted_to s r u g) \<longleftrightarrow>
    (\<exists>a \<in> set (acls s). acl_repo a = repo_id r \<and> acl_user a = user_id u)"
  by (auto simp: granted_to_def)

lemma CanRead_complete:
  assumes "db_ok s" "no_faults s" "u \<in> set (users s)" "Public r \<or> (\<exists>g. granted_to s r u g)"
  shows "CanRead r (user_id u) s = (Inr True, s)"
proof (cases "Public r")
  case True
  then show ?thesis by (simp add: CanRead_def retE_def)
next
  case False
  with assms(4) obtain a where "a \<in> set (acls s)" "acl_repo a = repo_id r" "acl_user a = user_id u"
    by (auto simp: granted_to_def)
  from GetACL_found[OF assms(1,2) this] have "GetACL (repo_id r) (user_id u) s = (Inr (acl_perm a), s)" .
  moreover have "user_id u \<noteq> 0" using assms(1,3) by (auto simp: db_ok_def users_ok_def key_ok_def)
  ultimately show ?thesis using False by (simp add: CanRead_def handleE_def retE_def)
qed

definition admitted :: "(bytes \<Rightarrow> bytes) \<Rightarrow> time \<Rightarrow> db \<Rightarrow> string \<Rightarrow> repo \<Rightarrow> perm \<Rightarrow> user option \<Rightarrow> bool" where
  "admitted H nw s header r p who \<longleftrightarrow> (case (tokenFromRequest header, who) of
       (None, None) \<Rightarrow> p = PermRead \<and> Public r
     | (Some raw, Some u) \<Rightarrow> (\<exists>t. token_valid H nw s raw t u \<and> constraints_ok t r p \<and> may s r u p)
     | _ \<Rightarrow> False)"

lemma authorizeToken_Inr:
  assumes "authorizeToken r p \<lparr>vt_user = u, vt_scope = repo_scope t, vt_read_only = read_only t\<rparr> s = (Inr who, s')"
  shows "who = Some u \<and> constraints_ok t r p \<and> may s r u p"
proof -
  let ?vt = "\<lparr>vt_user = u, vt_scope = repo_scope t, vt_read_only = read_only t\<rparr>"
  from assms have c: "constraints_ok t r p"
    by (auto simp: authorizeToken_def constraints_ok_def errE_def split: if_splits option.splits)
  show ?thesis
  proof (cases "p = PermRead")
    case True
    with assms c obtain s1 where "CanRead r (user_id u) s = (Inr True, s1)" "who = Some u"
      by (auto simp: authorizeToken_def errE_def retE_def bindE_Inr liftA_Inr split: if_splits option.splits)
    with c True CanRead_True[of r "user_id u" s s1] show ?thesis
      by (auto simp: may_def granted_any)
  next
    case False
    with assms obtain g s1 where "GetACL (repo_id r) (user_id u) s = (Inr g, s1)" "allows g p" "who = Some u"
      by (auto simp: authorizeToken_def errE_def retE_def
          split: if_splits option.splits elim!: lookupE_cases)
    with c False GetACL_Inr[of "repo_id r" "user_id u" s g s1] show ?thesis
      by (auto simp: may_def granted_to_def allows_def Let_def)
  qed
qed

lemma authorizeToken_complete:
  assumes "db_ok s" "no_faults s" "u \<in> set (users s)" "constraints_ok t r p" "may s r u p"
  shows "authorizeToken r p \<lparr>vt_user = u, vt_scope = repo_scope t, vt_read_only = read_only t\<rparr> s
     = (Inr (Some u), s)"
proof (cases "p = PermRead")
  case True
  with assms CanRead_complete[OF assms(1-3), of r] show ?thesis
    by (auto simp: authorizeToken_def constraints_ok_def may_def bindE_def liftA_def retE_def
        split: option.splits)
next
  case False
  with assms(5) obtain a where a: "a \<in> set (acls s)" "acl_repo a = repo_id r" "acl_user a = user_id u"
      "allows (acl_perm a) p"
    by (auto simp: may_def granted_to_def allows_def Let_def)
  from GetACL_found[OF assms(1,2) a(1-3)] a(4) False assms(4) show ?thesis
    by (auto simp: authorizeToken_def constraints_ok_def retE_def split: option.splits)
qed

lemma GetRepo_found:
  assumes "db_ok s" "no_faults s" "r \<in> set (repos s)" "repo_name r = normalizeRepoName name"
  shows "GetRepo name s = (Inr r, s)"
proof -
  have "first_where (\<lambda>x. repo_name x = normalizeRepoName name) (repos s) = Some r"
    by (rule first_where_unique[where key = repo_name]) (use assms in \<open>auto simp: db_ok_def repos_ok_def\<close>)
  then show ?thesis using assms(2) by (simp add: GetRepo_def)
qed

lemma GetRepo_missing:
  "no_faults s \<Longrightarrow> \<forall>r \<in> set (repos s). repo_name r \<noteq> normalizeRepoName name \<Longrightarrow>
   GetRepo name s = (Inl NotFound, s)"
  by (simp add: GetRepo_def first_where_None[THEN iffD2])

lemma GetRepo_some:
  assumes "no_faults s" "r \<in> set (repos s)" "repo_name r = normalizeRepoName name"
  shows "\<exists>x \<in> set (repos s). GetRepo name s = (Inr x, s) \<and> repo_name x = normalizeRepoName name"
proof -
  obtain x where x: "first_where (\<lambda>r. repo_name r = normalizeRepoName name) (repos s) = Some x"
    using assms(2,3) by (cases "first_where (\<lambda>r. repo_name r = normalizeRepoName name) (repos s)")
      (auto simp: first_where_None)
  with first_where_Some[OF x] assms(1) show ?thesis by (auto simp: GetRepo_def)
qed

lemma GetRepo_Inr:
  "GetRepo name s = (Inr r, s') \<Longrightarrow>
   r \<in> set (repos s) \<and> repo_name r = normalizeRepoName name \<and> (\<exists>fs. s' = s\<lparr>faults := fs\<rparr>)"
  unfolding GetRepo_def by (drule query_row_Inr) (auto dest!: first_where_Some)

lemma authorize_admitted:
  assumes "Authorize H nw header name p s = (Inr who, s')"
  shows "\<exists>r \<in> set (repos s). repo_name r = normalizeRepoName name \<and> admitted H nw s header r p who"
proof -
  let ?k = "\<lambda>r. case tokenFromRequest header of
      None \<Rightarrow> if p = PermRead \<and> Public r then retE None else errE ErrUnauthorized
    | Some raw \<Rightarrow> bindE (verify H nw raw) (authorizeToken r p)"
  from assms have "lookupE (GetRepo name)
      (if tokenFromRequest header = None then errE ErrUnauthorized else errE (AuthMeta NotFound))
      (\<lambda>e. errE (AuthMeta e)) ?k s = (Inr who, s')" by (simp add: Authorize_def Let_def)
  then obtain r s1 where g: "GetRepo name s = (Inr r, s1)" "?k r s1 = (Inr who, s')"
    by (elim lookupE_cases) (auto simp: errE_def split: if_splits)
  from GetRepo_Inr[OF g(1)] obtain fs where
    repo: "r \<in> set (repos s)" "repo_name r = normalizeRepoName name" "s1 = s\<lparr>faults := fs\<rparr>" by blast
  have "admitted H nw s header r p who"
  proof (cases "tokenFromRequest header")
    case None
    with g(2) show ?thesis by (auto simp: errE_def retE_def admitted_def split: if_splits)
  next
    case (Some raw)
    with g(2) obtain vt s2 where v: "verify H nw raw s1 = (Inr vt, s2)"
        "authorizeToken r p vt s2 = (Inr who, s')"
      by (auto simp: bindE_Inr)
    from verify_Inr[OF v(1)] obtain t u where t: "token_valid H nw s1 raw t u" "acls s2 = acls s1"
      "vt = \<lparr>vt_user = u, vt_scope = repo_scope t, vt_read_only = read_only t\<rparr>" by blast
    have "who = Some u \<and> constraints_ok t r p \<and> may s2 r u p"
      by (rule authorizeToken_Inr) (use v(2) t(3) in simp)
    moreover have "token_valid H nw s raw t u" using t(1) by (simp add: token_valid_def repo(3))
    moreover have "may s2 r u p = may s r u p" by (rule may_cong) (simp add: t(2) repo(3))
    ultimately show ?thesis using Some by (auto simp: admitted_def)
  qed
  with repo show ?thesis by blast
qed

text \<open>
  C5. Whatever statement fails, the guard admits a request only as the access rules say: the
  repository exists, and either the caller is anonymous and reads a public repository, or a
  stored, unexpired token whose secret hashes to its verifier names the user, its scope
  and its read-only flag admit the operation, and the user may do it.
\<close>

theorem authorize_sound:
  assumes "Authorize H nw header name p s = (Inr who, s')"
  shows "\<exists>r \<in> set (repos s). repo_name r = normalizeRepoName name \<and> admitted H nw s header r p who"
  by (rule authorize_admitted[OF assms])

definition sample_auth :: string where
  "sample_auth = ''Bearer gmt_ab.cd''"

lemma authorize_sound_witness:
  "\<exists>s'. Authorize (\<lambda>x. x) 7 sample_auth ''app.git'' PermWrite sample_db
      = (Inr (Some \<lparr>user_id = 2, handle = ''bob'', is_admin = False, user_created = 0\<rparr>), s') \<and>
    (\<exists>r \<in> set (repos sample_db). repo_name r = normalizeRepoName ''app.git'' \<and>
      admitted (\<lambda>x. x) 7 sample_db sample_auth r PermWrite
        (Some \<lparr>user_id = 2, handle = ''bob'', is_admin = False, user_created = 0\<rparr>))"
proof -
  have "fst (Authorize (\<lambda>x. x) 7 sample_auth ''app.git'' PermWrite sample_db)
      = Inr (Some \<lparr>user_id = 2, handle = ''bob'', is_admin = False, user_created = 0\<rparr>)"
    by code_simp
  then obtain s' where "Authorize (\<lambda>x. x) 7 sample_auth ''app.git'' PermWrite sample_db
      = (Inr (Some \<lparr>user_id = 2, handle = ''bob'', is_admin = False, user_created = 0\<rparr>), s')"
    by (metis prod.collapse)
  with authorize_sound[OF this] show ?thesis by blast
qed

text \<open>
  C6. The guard is complete: on a database that answers, every request that the access
  rules admit is admitted, as the user that the rules name.
\<close>

theorem authorize_complete:
  assumes "db_ok s" "no_faults s" "r \<in> set (repos s)" "repo_name r = normalizeRepoName name"
    and "admitted H nw s header r p who"
  shows "fst (Authorize H nw header name p s) = Inr who"
proof (cases "tokenFromRequest header")
  case None
  with assms(5) GetRepo_found[OF assms(1-4)] show ?thesis
    by (auto simp: Authorize_def admitted_def retE_def split: option.splits)
next
  case (Some raw)
  with assms(5) obtain t u where t: "who = Some u" "token_valid H nw s raw t u"
      "constraints_ok t r p" "may s r u p"
    by (auto simp: admitted_def split: option.splits)
  from verify_complete[OF assms(1,2) t(2)] obtain s1 where
    v: "verify H nw raw s = (Inr \<lparr>vt_user = u, vt_scope = repo_scope t, vt_read_only = read_only t\<rparr>, s1)"
       "no_faults s1" "acls s1 = acls s" "users s1 = users s" by blast
  have ok: "db_ok s1" by (rule keeps_result[OF keeps_verify v(1) assms(1)])
  have "u \<in> set (users s1)" using t(2) v(4) by (simp add: token_valid_def)
  moreover have "may s1 r u p" using t(4) may_cong[OF v(3)] by simp
  ultimately have "authorizeToken r p \<lparr>vt_user = u, vt_scope = repo_scope t, vt_read_only = read_only t\<rparr> s1
     = (Inr (Some u), s1)" by (intro authorizeToken_complete ok v(2) t(3))
  with v(1) GetRepo_found[OF assms(1-4)] Some t(1) show ?thesis
    by (simp add: Authorize_def bindE_def)
qed

lemma authorize_complete_witness:
  "fst (Authorize (\<lambda>x. x) 7 sample_auth ''app.git'' PermWrite sample_db)
     = Inr (Some \<lparr>user_id = 2, handle = ''bob'', is_admin = False, user_created = 0\<rparr>)"
proof (rule authorize_complete[OF sample_db_ok sample_no_faults])
  let ?r = "\<lparr>repo_id = 2, repo_name = ''app'', default_branch = ''main'', visibility = ''private'', repo_created = 0\<rparr>"
  let ?u = "\<lparr>user_id = 2, handle = ''bob'', is_admin = False, user_created = 0\<rparr>"
  let ?t = "\<lparr>token_id = 1, token_user = 2, selector = ''ab'', verifier = ''6364'', token_label = ''laptop'',
                token_created = 0, last_used = None, expires_at = Some 100, repo_scope = None, read_only = False\<rparr>"
  show "?r \<in> set (repos sample_db)" by (simp add: sample_db_def)
  show "repo_name ?r = normalizeRepoName ''app.git''" by code_simp
  have tok: "tokenFromRequest sample_auth = Some ''gmt_ab.cd''" by code_simp
  have sp: "split ''gmt_ab.cd'' = Some (''ab'', ''cd'')" "hashSecret (\<lambda>x. x) ''cd'' = ''6364''" by code_simp+
  then have "token_valid (\<lambda>x. x) 7 sample_db ''gmt_ab.cd'' ?t ?u"
    by (simp add: token_valid_def sample_db_def)
  moreover have "constraints_ok ?t ?r PermWrite" by (simp add: constraints_ok_def)
  moreover have "may sample_db ?r ?u PermWrite"
    by (simp add: may_def granted_to_def sample_db_def)
  ultimately show "admitted (\<lambda>x. x) 7 sample_db sample_auth ?r PermWrite (Some ?u)"
    using tok unfolding admitted_def by auto
qed

text \<open>
  C10. A minted token authenticates its owner, with the constraints it was minted with, until it
  expires: nothing is lost between the raw token that is shown once and the stored row.
\<close>

theorem minted_token_verifies:
  assumes "db_ok s" "no_faults s" "u \<in> set (users s)"
    and "MintScoped H b1 b2 (user_id u) label scope ro expires ts s = (Inr raw, s')"
    and "b1 \<noteq> Some []" "b2 \<noteq> Some []" "\<forall>e. expires = Some e \<longrightarrow> nw < e"
  shows "fst (verify H nw raw s') = Inr \<lparr>vt_user = u, vt_scope = scope, vt_read_only = ro\<rparr>"
proof -
  from assms(4) obtain sel ver where m: "Mint H b1 b2 = Some (raw, sel, ver)"
    by (auto simp: MintScoped_def errE_def retE_def bindE_Inr split: option.splits)
  with assms(4) obtain ti where c: "CreateScopedToken (user_id u) sel ver label scope ro expires ts s = (Inr ti, s')"
    by (auto simp: MintScoped_def retE_def bindE_Inr liftA_Inr)
  let ?t = "\<lparr>token_id = next_id token_id (tokens s), token_user = user_id u, selector = sel,
               verifier = ver, token_label = label, token_created = ts, last_used = None,
               expires_at = expires, repo_scope = scope, read_only = ro\<rparr>"
  from c assms(2) have s': "s' = s\<lparr>tokens := tokens s @ [?t]\<rparr>"
    by (auto simp: CreateScopedToken_def Let_def split: if_splits)
  have "token_valid H nw s' raw ?t u"
    using Mint_split[OF m assms(5,6)] assms(3,7) s' by (auto simp: token_valid_def)
  moreover have "db_ok s'" by (rule keeps_result[OF keeps_CreateScopedToken c assms(1)])
  moreover have "no_faults s'" using assms(2) s' by (simp add: no_faults_def)
  ultimately show ?thesis using verify_complete[of s' H nw raw ?t u] by auto
qed

lemma minted_token_verifies_witness:
  "\<exists>raw s'. MintScoped (\<lambda>x. x) (Some ''01'') (Some ''xyz'') 3 ''ci'' (Some 1) True (Some 50) 8 sample_db = (Inr raw, s') \<and>
     fst (verify (\<lambda>x. x) 20 raw s') = Inr \<lparr>vt_user =
       \<lparr>user_id = 3, handle = ''carol'', is_admin = False, user_created = 0\<rparr>, vt_scope = Some 1, vt_read_only = True\<rparr>"
proof -
  let ?u = "\<lparr>user_id = 3, handle = ''carol'', is_admin = False, user_created = 0\<rparr>"
  let ?m = "MintScoped (\<lambda>x. x) (Some ''01'') (Some ''xyz'') (user_id ?u) ''ci'' (Some 1) True (Some 50) 8 sample_db"
  have "fst ?m = Inr ''gmt_3031.78797a''" by code_simp
  then obtain s' where m: "?m = (Inr ''gmt_3031.78797a'', s')" by (metis prod.collapse)
  have u: "?u \<in> set (users sample_db)" by (simp add: sample_db_def)
  have "fst (verify (\<lambda>x. x) 20 ''gmt_3031.78797a'' s') = Inr \<lparr>vt_user = ?u, vt_scope = Some 1, vt_read_only = True\<rparr>"
    by (rule minted_token_verifies[OF sample_db_ok sample_no_faults u m]) simp_all
  with m show ?thesis by auto
qed

text \<open>
  An anonymous caller learns nothing about repositories that it may not read: whether the
  repository is private or absent, and whatever it asks for, it gets the same challenge.
\<close>

theorem anonymous_gets_challenge:
  assumes "no_faults s" "tokenFromRequest header = None"
    and "\<not> (p = PermRead \<and> (\<exists>r \<in> set (repos s). repo_name r = normalizeRepoName name \<and> Public r))"
  shows "Authorize H nw header name p s = (Inl ErrUnauthorized, s)"
proof (cases "\<exists>r \<in> set (repos s). repo_name r = normalizeRepoName name")
  case False
  with assms(2) GetRepo_missing[OF assms(1), of name] show ?thesis by (simp add: Authorize_def errE_def)
next
  case True
  then obtain r where r: "r \<in> set (repos s)" "repo_name r = normalizeRepoName name"
    "GetRepo name s = (Inr r, s)" using GetRepo_some[OF assms(1)] by blast
  with assms(3) have "\<not> (p = PermRead \<and> Public r)" by blast
  with r(3) assms(2) show ?thesis unfolding Authorize_def by (auto simp: errE_def)
qed

lemma anonymous_gets_challenge_witness:
  "Authorize (\<lambda>x. x) 7 [] ''app'' PermRead sample_db = (Inl ErrUnauthorized, sample_db) \<and>
   Authorize (\<lambda>x. x) 7 [] ''gone'' PermRead sample_db = (Inl ErrUnauthorized, sample_db)"
  by (intro conjI anonymous_gets_challenge sample_no_faults)
     (simp_all add: sample_db_def tokenFromRequest_def normalizeRepoName_def trim_suffix_def has_suffix_def
        Public_def VisibilityPublic_def)

text \<open>
  The check of the repository comes before the check of the token, so a string that is no
  token at all tells its sender which repositories exist: 404 for a name that is free, the
  challenge for one that is taken, private or not.
\<close>

theorem bad_token_reveals_existence:
  assumes "no_faults s" "tokenFromRequest header = Some raw" "split raw = None"
  shows "fst (Authorize H nw header name p s) =
    (if \<exists>r \<in> set (repos s). repo_name r = normalizeRepoName name
     then Inl ErrUnauthorized else Inl (AuthMeta NotFound))"
proof (cases "\<exists>r \<in> set (repos s). repo_name r = normalizeRepoName name")
  case False
  with assms(2) GetRepo_missing[OF assms(1), of name] show ?thesis by (simp add: Authorize_def errE_def)
next
  case True
  then obtain r where "GetRepo name s = (Inr r, s)" using GetRepo_some[OF assms(1)] by blast
  with assms(2,3) True show ?thesis by (simp add: Authorize_def verify_def errE_def bindE_def)
qed

lemma bad_token_reveals_existence_witness:
  "fst (Authorize (\<lambda>x. x) 7 ''Bearer x'' ''app'' PermRead sample_db) = Inl ErrUnauthorized \<and>
   fst (Authorize (\<lambda>x. x) 7 ''Bearer x'' ''gone'' PermRead sample_db) = Inl (AuthMeta NotFound)"
proof -
  have t: "tokenFromRequest ''Bearer x'' = Some ''x''" "split ''x'' = None" by code_simp+
  have n: "normalizeRepoName ''app'' = ''app''" "normalizeRepoName ''gone'' = ''gone''" by code_simp+
  show ?thesis
    unfolding bad_token_reveals_existence[OF sample_no_faults t] n by (simp add: sample_db_def)
qed

end
