(* ===== verification/Store.thy ===== *)
theory Store
  imports Prelude "HOL-Library.AList"
begin

text \<open>
  \<open>internal/store\<close>: the object store that holds the git objects and the CI logs. The Go
  interface is the locale \<open>object_store\<close>; \<open>Mem\<close> implements it in memory. The bucket
  client of the AWS SDK is a record of its calls; \<open>S3\<close> is the same store with a prefix
  before every key, and it keeps the contract if the client does. What is put is what a
  reader delivers, \<open>None\<close> when reading fails.
\<close>

datatype store_error = StoreNotFound | StoreFailed

record 's store_ops =
  Put :: "string \<Rightarrow> bytes option \<Rightarrow> 's \<Rightarrow> (store_error + unit) \<times> 's"
  Get :: "string \<Rightarrow> 's \<Rightarrow> (store_error + bytes) \<times> 's"
  Exists :: "string \<Rightarrow> 's \<Rightarrow> (store_error + bool) \<times> 's"
  List :: "string \<Rightarrow> 's \<Rightarrow> (store_error + string list) \<times> 's"

section \<open>The contract\<close>

text \<open>
  \<open>contents\<close> is what a reader of the store would find under each key. A failed \<open>Put\<close> may
  have stored the object or not; nothing else changes what is stored.
\<close>

locale object_store =
  fixes contents :: "'s \<Rightarrow> string \<Rightarrow> bytes option" and ops :: "'s store_ops"
  assumes put_ok: "Put ops k rd s = (Inr (), t) \<Longrightarrow> \<exists>d. rd = Some d \<and> contents t = (contents s)(k \<mapsto> d)"
    and put_failed: "Put ops k rd s = (Inl e, t) \<Longrightarrow>
      contents t = contents s \<or> (\<exists>d. rd = Some d \<and> contents t = (contents s)(k \<mapsto> d))"
    and get_result: "Get ops k s = (gr, t) \<Longrightarrow> contents t = contents s \<and>
      (case gr of Inr d \<Rightarrow> contents s k = Some d | Inl e \<Rightarrow> e = StoreNotFound \<longrightarrow> contents s k = None)"
    and exists_result: "Exists ops k s = (er, t) \<Longrightarrow> contents t = contents s \<and>
      (case er of Inr b \<Rightarrow> b = (contents s k \<noteq> None) | Inl e \<Rightarrow> True)"
    and list_result: "List ops p s = (lr, t) \<Longrightarrow> contents t = contents s \<and>
      (case lr of Inr ks \<Rightarrow> sorted ks \<and> distinct ks \<and>
          set ks = {k. has_prefix p k \<and> contents s k \<noteq> None} | Inl e \<Rightarrow> True)"
begin

lemma put_grows: "Put ops k r s = (x, t) \<Longrightarrow> contents s j \<noteq> None \<Longrightarrow> contents t j \<noteq> None"
  using put_ok[of k r s t] put_failed[of k r s _ t] by (cases x) (auto split: if_splits)

lemma put_other: "Put ops k r s = (x, t) \<Longrightarrow> j \<noteq> k \<Longrightarrow> contents t j = contents s j"
  using put_ok[of k r s t] put_failed[of k r s _ t] by (cases x) auto

lemma put_get:
  assumes "Put ops k (Some d) s = (Inr (), t)" "Get ops k t = (Inr d', u)"
  shows "d' = d"
  using put_ok[OF assms(1)] get_result[OF assms(2)] by auto

end

section \<open>The store in memory\<close>

type_synonym mem = "(string \<times> bytes) list"

definition mem_put :: "string \<Rightarrow> bytes option \<Rightarrow> mem \<Rightarrow> (store_error + unit) \<times> mem" where
  "mem_put k r m = (case r of None \<Rightarrow> (Inl StoreFailed, m) | Some d \<Rightarrow> (Inr (), AList.update k d m))"

definition mem_get :: "string \<Rightarrow> mem \<Rightarrow> (store_error + bytes) \<times> mem" where
  "mem_get k m = (case map_of m k of None \<Rightarrow> Inl StoreNotFound | Some d \<Rightarrow> Inr d, m)"

definition mem_exists :: "string \<Rightarrow> mem \<Rightarrow> (store_error + bool) \<times> mem" where
  "mem_exists k m = (Inr (map_of m k \<noteq> None), m)"

definition mem_list :: "string \<Rightarrow> mem \<Rightarrow> (store_error + string list) \<times> mem" where
  "mem_list p m = (Inr (sort (filter (has_prefix p) (remdups (map fst m)))), m)"

definition Mem :: "mem store_ops" where
  "Mem = \<lparr>Put = mem_put, Get = mem_get, Exists = mem_exists, List = mem_list\<rparr>"

interpretation mem: object_store map_of Mem
proof (unfold_locales, goal_cases)
  case (1 k r s t) then show ?case
    by (auto simp: Mem_def mem_put_def update_conv' split: option.splits)
next
  case (2 k r s e t) then show ?case by (auto simp: Mem_def mem_put_def split: option.splits)
next
  case (3 k s r t) then show ?case by (auto simp: Mem_def mem_get_def split: option.splits)
next
  case (4 k s r t) then show ?case by (auto simp: Mem_def mem_exists_def)
next
  case (5 p s r t) then show ?case
    by (auto simp: Mem_def mem_list_def map_of_eq_None_iff image_iff)
qed

section \<open>The store in a bucket\<close>

definition s3_prefix :: "string \<Rightarrow> string" where
  "s3_prefix p = (if p \<noteq> [] \<and> \<not> has_suffix ''/'' p then p @ ''/'' else p)"

definition NewS3 :: "'s store_ops \<Rightarrow> string \<Rightarrow> 's store_ops" where
  "NewS3 client p = (let pre = s3_prefix p in
     \<lparr>Put = (\<lambda>k. Put client (pre @ k)),
      Get = (\<lambda>k. Get client (pre @ k)),
      Exists = (\<lambda>k. Exists client (pre @ k)),
      List = (\<lambda>q. bindE (List client (pre @ q)) (\<lambda>ks. retE (map (trim_prefix pre) ks)))\<rparr>)"

definition ParseBucket :: "string \<Rightarrow> string \<times> string" where
  "ParseBucket raw = (let r = trim_char (CHR ''/'') raw in
     case cut ''/'' r of None \<Rightarrow> (r, []) | Some (bucket, pre) \<Rightarrow> (bucket, pre))"

definition NewS3FromEnv :: "(string \<Rightarrow> string) \<Rightarrow> (string \<Rightarrow> 's store_ops option) \<Rightarrow> 's store_ops option" where
  "NewS3FromEnv env connect = (case ParseBucket (env ''GITMOTE_S3_BUCKET'') of (bucket, pre) \<Rightarrow>
     if bucket = [] then None
     else map_option (\<lambda>client. NewS3 client pre) (connect bucket))"

definition prefixed :: "string \<Rightarrow> ('s \<Rightarrow> string \<Rightarrow> bytes option) \<Rightarrow> 's \<Rightarrow> string \<Rightarrow> bytes option" where
  "prefixed p contents s k = contents s (s3_prefix p @ k)"

lemma sorted_trim_prefix:
  "sorted (ks :: string list) \<Longrightarrow> \<forall>k \<in> set ks. has_prefix p k \<Longrightarrow> sorted (map (trim_prefix p) ks)"
proof (induction ks)
  case (Cons k ks)
  have le: "a \<le> b" if "p @ a \<le> p @ b" for a b
    using that by (induction p) auto
  have "trim_prefix p k \<le> trim_prefix p j" if "j \<in> set ks" for j
  proof -
    from that Cons.prems obtain a b where "k = p @ a" "j = p @ b" by (auto simp: has_prefix_iff)
    with that Cons.prems(1) le show ?thesis by auto
  qed
  with Cons show ?case by auto
qed simp

context object_store
begin

lemma list_prefixed:
  assumes "List (NewS3 ops p) q s = (Inr ks, t)"
  shows "sorted ks" "distinct ks" "set ks = {k. has_prefix q k \<and> prefixed p contents s k \<noteq> None}"
proof -
  let ?p = "s3_prefix p"
  from assms obtain js where js: "List ops (?p @ q) s = (Inr js, t)" "ks = map (trim_prefix ?p) js"
    by (auto simp: NewS3_def Let_def bindE_Inr retE_def)
  from list_result[OF js(1)] have r: "sorted js" "distinct js"
    "set js = {k. has_prefix (?p @ q) k \<and> contents s k \<noteq> None}" by auto
  have pre: "\<forall>k \<in> set js. has_prefix ?p k" using r(3) by (auto simp: has_prefix_iff)
  show "sorted ks" unfolding js(2) by (rule sorted_trim_prefix[OF r(1) pre])
  have "inj_on (trim_prefix ?p) (set js)"
    using pre by (intro inj_onI) (metis has_prefix_iff trim_prefix_append)
  then show "distinct ks" using r(2) js(2) by (simp add: distinct_map)
  show "set ks = {k. has_prefix q k \<and> prefixed p contents s k \<noteq> None}"
    unfolding js(2) set_map r(3)
    by (auto simp: has_prefix_iff prefixed_def image_iff) (metis trim_prefix_append)
qed

text \<open>A prefix before every key keeps the contract: two forges can share a bucket.\<close>

lemma prefixed_store: "object_store (prefixed p contents) (NewS3 ops p)"
proof (unfold_locales, goal_cases)
  case (1 k r s t)
  then have "Put ops (s3_prefix p @ k) r s = (Inr (), t)" by (simp add: NewS3_def Let_def)
  from put_ok[OF this] show ?case by (auto simp: prefixed_def fun_eq_iff)
next
  case (2 k r s e t)
  then have "Put ops (s3_prefix p @ k) r s = (Inl e, t)" by (simp add: NewS3_def Let_def)
  from put_failed[OF this] show ?case by (auto simp: prefixed_def fun_eq_iff)
next
  case (3 k s r t)
  then have "Get ops (s3_prefix p @ k) s = (r, t)" by (simp add: NewS3_def Let_def)
  from get_result[OF this] show ?case by (cases r) (auto simp: prefixed_def fun_eq_iff)
next
  case (4 k s r t)
  then have "Exists ops (s3_prefix p @ k) s = (r, t)" by (simp add: NewS3_def Let_def)
  from exists_result[OF this] show ?case by (cases r) (auto simp: prefixed_def fun_eq_iff)
next
  case (5 q s r t)
  obtain x where "List ops (s3_prefix p @ q) s = (x, t)"
    using 5 by (auto simp: NewS3_def Let_def bindE_def retE_def split: prod.splits sum.splits)
  from list_result[OF this] have "contents t = contents s" by simp
  with 5 list_prefixed[of p q s _ t] show ?case by (auto simp: prefixed_def fun_eq_iff split: sum.splits)
qed

end



interpretation s3_mem: object_store "prefixed p map_of" "NewS3 Mem p" for p
  by (rule mem.prefixed_store)

lemma parse_bucket_examples:
  "ParseBucket ''shared/gitmote/'' = (''shared'', ''gitmote'')" "ParseBucket ''/gitmote/'' = (''gitmote'', [])"
  by code_simp+

end
