(* ===== verification/Hook.thy ===== *)
theory Hook
  imports Prelude
begin

text \<open>
  \<open>cmd/gitmote-hook\<close> and \<open>internal/hookrpc\<close>: the pre-receive hook, a process that git
  starts inside a push. It reads the ref commands, marks those that rewrite history, and
  asks the server over a socket. \<open>git merge-base --is-ancestor\<close>, the resolution of a path
  against the working directory and the socket itself are parameters.
\<close>

definition zeroSHA :: string where
  "zeroSHA = ''0000000000000000000000000000000000000000''"

record ref_command =
  c_old :: string
  c_new :: string
  c_ref :: string
  c_force :: bool

record request =
  rq_nonce :: string
  rq_commands :: "ref_command list"
  rq_quarantine :: string

datatype response = Accepted | Refused string

datatype hook_error =
    OutsidePush
  | NoObjectDirectory
  | PathError
  | Malformed string
  | LineTooLong
  | RpcFailed
  | PushRejected string

definition isForce :: "(string \<Rightarrow> string \<Rightarrow> bool) \<Rightarrow> string \<Rightarrow> string \<Rightarrow> bool" where
  "isForce is_ancestor old new =
     (if new = zeroSHA then True else if old = zeroSHA then False else \<not> is_ancestor old new)"

text \<open>The scanner's buffer holds 64 KiB; a longer line ends the scan with an error.\<close>

definition max_line :: int where "max_line = 65536"

fun parse_lines :: "string list \<Rightarrow> hook_error + ref_command list" where
  "parse_lines [] = Inr []"
| "parse_lines (raw # rest) =
     (if max_line \<le> int (length raw) then Inl LineTooLong
      else (let line = trim_suffix [CHR 0x0D] raw in
       case str_fields line of
         [x, y, z] \<Rightarrow> (case parse_lines rest of Inl e \<Rightarrow> Inl e
           | Inr cs \<Rightarrow> Inr (\<lparr>c_old = x, c_new = y, c_ref = z, c_force = False\<rparr> # cs))
       | _ \<Rightarrow> Inl (Malformed line)))"

definition parseCommands :: "string \<Rightarrow> hook_error + ref_command list" where
  "parseCommands stdin = parse_lines (raw_lines stdin)"

definition mark_force :: "(string \<Rightarrow> string \<Rightarrow> bool) \<Rightarrow> ref_command \<Rightarrow> ref_command" where
  "mark_force is_ancestor c = c\<lparr>c_force := isForce is_ancestor (c_old c) (c_new c)\<rparr>"

definition hook_run :: "(string \<Rightarrow> string) \<Rightarrow> (string \<Rightarrow> string option) \<Rightarrow> (string \<Rightarrow> string \<Rightarrow> bool) \<Rightarrow>
    (string \<Rightarrow> request \<Rightarrow> response option) \<Rightarrow> string \<Rightarrow> hook_error + unit" where
  "hook_run env absp is_ancestor call stdin =
     (let sock = env ''GITMOTE_SOCK''; nonce = env ''GITMOTE_NONCE''; q = env ''GIT_OBJECT_DIRECTORY'' in
      if sock = [] \<or> nonce = [] then Inl OutsidePush
      else if q = [] then Inl NoObjectDirectory
      else (case absp q of None \<Rightarrow> Inl PathError
       | Some quarantine \<Rightarrow> (case parseCommands stdin of Inl e \<Rightarrow> Inl e
         | Inr cs \<Rightarrow> (case call sock \<lparr>rq_nonce = nonce, rq_commands = map (mark_force is_ancestor) cs,
                          rq_quarantine = quarantine\<rparr> of
             None \<Rightarrow> Inl RpcFailed
           | Some (Refused why) \<Rightarrow> Inl (PushRejected why)
           | Some Accepted \<Rightarrow> Inr ()))))"

definition print_command :: "ref_command \<Rightarrow> string" where
  "print_command c = c_old c @ '' '' @ c_new c @ '' '' @ c_ref c"

lemma fields_command:
  "word (c_old c) \<Longrightarrow> word (c_new c) \<Longrightarrow> word (c_ref c) \<Longrightarrow>
   str_fields (print_command c) = [c_old c, c_new c, c_ref c]"
  using fields_join[of "[c_old c, c_new c, c_ref c]"] by (simp add: print_command_def)

lemma word_no_newline: "word w \<Longrightarrow> newline \<notin> set w"
  by (auto simp: word_def)

lemma print_command_line:
  assumes "word (c_old c)" "word (c_new c)" "word (c_ref c)"
  shows "newline \<notin> set (print_command c)" "\<not> has_suffix [CHR 0x0D] (print_command c)"
    "print_command c \<noteq> []"
proof -
  have "newline \<noteq> CHR '' ''" by (simp add: newline_def)
  then show "newline \<notin> set (print_command c)"
    using assms word_no_newline by (auto simp: print_command_def)
  have "last (print_command c) = last (c_ref c)" using assms(3) by (simp add: print_command_def word_def)
  moreover have "\<not> is_space (last (c_ref c))" using assms(3) by (simp add: word_def)
  moreover have "is_space (CHR 0x0D)" by (simp add: is_space_def)
  ultimately show "\<not> has_suffix [CHR 0x0D] (print_command c)" by (metis has_suffix_iff last_snoc)
  show "print_command c \<noteq> []" by (simp add: print_command_def)
qed

text \<open>
  The hook reads back exactly the commands that git writes: one line for each, the two
  object ids and the ref, in order, none lost, none merged, whatever their number.
\<close>

theorem parse_commands_roundtrip:
  assumes "\<forall>c \<in> set cs. word (c_old c) \<and> word (c_new c) \<and> word (c_ref c) \<and> \<not> c_force c \<and>
      int (length (print_command c)) < max_line"
  shows "parseCommands (concat (map (\<lambda>c. print_command c @ [newline]) cs)) = Inr cs"
proof -
  have "raw_lines (concat (map (\<lambda>l. l @ [newline]) (map print_command cs))) = map print_command cs"
    by (rule raw_lines_concat) (use assms in \<open>auto simp: print_command_line(1)\<close>)
  then have raw: "raw_lines (concat (map (\<lambda>c. print_command c @ [newline]) cs)) = map print_command cs"
    by (simp add: comp_def)
  have "parse_lines (map print_command cs) = Inr cs"
    using assms
    by (induction cs) (auto simp: trim_suffix_id print_command_line fields_command Let_def)
  with raw show ?thesis by (simp add: parseCommands_def)
qed

definition sample_command :: ref_command where
  "sample_command = \<lparr>c_old = zeroSHA, c_new = ''bbbb'', c_ref = ''refs/heads/main'', c_force = False\<rparr>"

lemma parse_commands_roundtrip_witness:
  "parseCommands (print_command sample_command @ [newline] @ print_command sample_command @ [newline])
     = Inr [sample_command, sample_command]"
proof -
  have "word (c_old sample_command) \<and> word (c_new sample_command) \<and> word (c_ref sample_command)"
    "\<not> c_force sample_command" "int (length (print_command sample_command)) < max_line"
    by code_simp+
  then show ?thesis using parse_commands_roundtrip[of "[sample_command, sample_command]"] by simp
qed

text \<open>
  The hook fails closed: it lets a push through only if it asked the server, with the nonce
  of this push and with every command that git wrote marked as the history says, and the
  server accepted.
\<close>

theorem hook_fails_closed:
  assumes "hook_run env absp is_ancestor call stdin = Inr ()"
  shows "\<exists>cs q. parseCommands stdin = Inr cs \<and> absp (env ''GIT_OBJECT_DIRECTORY'') = Some q \<and>
    env ''GITMOTE_NONCE'' \<noteq> [] \<and>
    call (env ''GITMOTE_SOCK'') \<lparr>rq_nonce = env ''GITMOTE_NONCE'',
       rq_commands = map (mark_force is_ancestor) cs, rq_quarantine = q\<rparr> = Some Accepted"
  using assms
  by (auto simp: hook_run_def Let_def split: if_splits option.splits sum.splits response.splits)

lemma hook_fails_closed_witness:
  "let env = (\<lambda>v. if v = ''GIT_OBJECT_DIRECTORY'' then ''/q'' else ''x'');
       call = (\<lambda>_ r. if \<exists>c \<in> set (rq_commands r). c_force c then Some (Refused ''force'') else Some Accepted);
       input = print_command sample_command @ [newline]
   in hook_run env Some (\<lambda>_ _. False) call input = Inr () \<and>
      (\<exists>cs. parseCommands input = Inr cs \<and>
        call (env ''GITMOTE_SOCK'') \<lparr>rq_nonce = ''x'', rq_commands = map (mark_force (\<lambda>_ _. False)) cs,
          rq_quarantine = ''/q''\<rparr> = Some Accepted)"
proof -
  let ?env = "\<lambda>v. if v = ''GIT_OBJECT_DIRECTORY'' then ''/q'' else ''x''"
  let ?call = "\<lambda>_ r. if \<exists>c \<in> set (rq_commands r). c_force c then Some (Refused ''force'') else Some Accepted"
  have r: "hook_run ?env Some (\<lambda>_ _. False) ?call (print_command sample_command @ [newline]) = Inr ()"
    by code_simp
  from hook_fails_closed[OF r] r show ?thesis by (auto simp: Let_def)
qed

end
