(* ===== verification/GoJson.thy ===== *)
theory GoJson
  imports Prelude
begin

text \<open>
  Go's \<open>encoding/json\<close>, as far as the program uses it: the encoder of strings, booleans, lists
  and structs, and the decoder of one value from the front of a stream. Strings are bytes. The
  encoder escapes what HTML gives a meaning, and both sides put the replacement character for
  bytes that are not UTF-8. The decoder reads any JSON value, nested at most \<open>maxNestingDepth\<close>
  deep; its fuel is the length of the input, and \<open>json_terminates\<close> says that it is enough.
\<close>

section \<open>UTF-8\<close>

abbreviation byte :: "char \<Rightarrow> nat" where "byte c \<equiv> of_char c"

definition byte_in :: "nat \<Rightarrow> nat \<Rightarrow> char \<Rightarrow> bool" where
  "byte_in lo hi c \<longleftrightarrow> lo \<le> byte c \<and> byte c \<le> hi"

abbreviation cont :: "char \<Rightarrow> bool" where "cont \<equiv> byte_in 128 191"

text \<open>
  The size of the encoding that stands first, 0 if there is none: \<open>utf8.DecodeRune\<close> then gives the
  replacement character and size 1. The second byte has a range that excludes overlong forms,
  surrogates and numbers above 0x10FFFF.
\<close>

definition second_ok :: "char \<Rightarrow> char \<Rightarrow> bool" where
  "second_ok a b \<longleftrightarrow>
     (if byte a = 224 then byte_in 160 191 b
      else if byte a = 237 then byte_in 128 159 b
      else if byte a = 240 then byte_in 144 191 b
      else if byte a = 244 then byte_in 128 143 b
      else cont b)"

definition rune_size :: "bytes \<Rightarrow> nat" where
  "rune_size bs = (case bs of [] \<Rightarrow> 0 | a # r \<Rightarrow>
     if byte a < 128 then 1
     else if byte_in 194 223 a then (case r of b # _ \<Rightarrow> if cont b then 2 else 0 | _ \<Rightarrow> 0)
     else if byte_in 224 239 a then
       (case r of b # c # _ \<Rightarrow> if second_ok a b \<and> cont c then 3 else 0 | _ \<Rightarrow> 0)
     else if byte_in 240 244 a then
       (case r of b # c # d # _ \<Rightarrow> if second_ok a b \<and> cont c \<and> cont d then 4 else 0 | _ \<Rightarrow> 0)
     else 0)"

definition replacement :: bytes where
  "replacement = [char_of (239 :: nat), char_of (191 :: nat), char_of (189 :: nat)]"

definition encode_rune :: "nat \<Rightarrow> bytes" where
  "encode_rune n =
     (if n < 128 then [char_of n]
      else if n < 2048 then [char_of (192 + n div 64), char_of (128 + n mod 64)]
      else if 55296 \<le> n \<and> n < 57344 \<or> 1114112 \<le> n then replacement
      else if n < 65536 then [char_of (224 + n div 4096), char_of (128 + n div 64 mod 64), char_of (128 + n mod 64)]
      else [char_of (240 + n div 262144), char_of (128 + n div 4096 mod 64), char_of (128 + n div 64 mod 64),
            char_of (128 + n mod 64)])"

text \<open>A string with the replacement character for each byte that is not UTF-8.\<close>

fun valid_utf8 :: "bytes \<Rightarrow> bytes" where
  "valid_utf8 [] = []"
| "valid_utf8 (c # cs) = (case rune_size (c # cs) of
       0 \<Rightarrow> replacement @ valid_utf8 cs
     | Suc n \<Rightarrow> c # take n cs @ valid_utf8 (drop n cs))"

fun is_utf8 :: "bytes \<Rightarrow> bool" where
  "is_utf8 [] = True"
| "is_utf8 (c # cs) = (case rune_size (c # cs) of 0 \<Rightarrow> False | Suc n \<Rightarrow> is_utf8 (drop n cs))"

lemma valid_utf8_id: "is_utf8 s \<Longrightarrow> valid_utf8 s = s"
  by (induction s rule: is_utf8.induct) (auto split: nat.splits)

section \<open>Strings\<close>

abbreviation quote_char :: char where "quote_char \<equiv> CHR 0x22"
abbreviation backslash :: char where "backslash \<equiv> CHR 0x5C"

text \<open>Letters that name a control character after a backslash.\<close>

definition short_escapes :: "(char \<times> char) list" where
  "short_escapes = [(CHR 0x08, CHR ''b''), (CHR 0x0C, CHR ''f''), (CHR 0x0A, CHR ''n''),
     (CHR 0x0D, CHR ''r''), (CHR 0x09, CHR ''t'')]"

definition escape_byte :: "char \<Rightarrow> string" where
  "escape_byte c =
     (if c = quote_char \<or> c = backslash then [backslash, c]
      else (case map_of short_escapes c of Some l \<Rightarrow> [backslash, l]
       | None \<Rightarrow> if byte c < 32 \<or> c \<in> set ''<>&''
           then backslash # ''u00'' @ [hex_digit (byte c div 16), hex_digit (byte c mod 16)]
           else [c]))"

definition line_separator :: bytes where
  "line_separator = [char_of (226 :: nat), char_of (128 :: nat), char_of (168 :: nat)]"

definition paragraph_separator :: bytes where
  "paragraph_separator = [char_of (226 :: nat), char_of (128 :: nat), char_of (169 :: nat)]"

definition escape_rune :: "bytes \<Rightarrow> string" where
  "escape_rune r = (if r = line_separator then backslash # ''u2028''
     else if r = paragraph_separator then backslash # ''u2029'' else r)"

fun escape_string :: "bytes \<Rightarrow> string" where
  "escape_string [] = []"
| "escape_string (c # cs) =
     (if byte c < 128 then escape_byte c @ escape_string cs
      else (case rune_size (c # cs) of
          0 \<Rightarrow> backslash # ''ufffd'' @ escape_string cs
        | Suc n \<Rightarrow> escape_rune (c # take n cs) @ escape_string (drop n cs)))"

definition encode_string :: "bytes \<Rightarrow> string" where
  "encode_string s = quote_char # escape_string s @ [quote_char]"

definition hex_val :: "char \<Rightarrow> nat option" where
  "hex_val c = (if byte_in 48 57 c then Some (byte c - 48)
     else if byte_in 97 102 c then Some (byte c - 87)
     else if byte_in 65 70 c then Some (byte c - 55) else None)"

definition hex4 :: "string \<Rightarrow> (nat \<times> string) option" where
  "hex4 s = (case s of a # b # c # d # r \<Rightarrow>
       (case (hex_val a, hex_val b, hex_val c, hex_val d) of
          (Some w, Some x, Some y, Some z) \<Rightarrow> Some (((w * 16 + x) * 16 + y) * 16 + z, r)
        | _ \<Rightarrow> None)
     | _ \<Rightarrow> None)"

text \<open>\<open>utf16.DecodeRune\<close>: two escapes that are the halves of a surrogate pair make one rune.\<close>

definition surrogate_pair :: "nat \<Rightarrow> nat \<Rightarrow> nat option" where
  "surrogate_pair h l = (if 55296 \<le> h \<and> h < 56320 \<and> 56320 \<le> l \<and> l < 57344
     then Some ((h - 55296) * 1024 + (l - 56320) + 65536) else None)"

definition unicode_escape :: "string \<Rightarrow> (bytes \<times> string) option" where
  "unicode_escape s = (case hex4 s of None \<Rightarrow> None
     | Some (n, r) \<Rightarrow>
         if 55296 \<le> n \<and> n < 57344
         then (case r of
             b # u # r1 \<Rightarrow>
               (case (if b = backslash \<and> u = CHR ''u'' then hex4 r1 else None) of
                  None \<Rightarrow> Some (replacement, r)
                | Some (m, r2) \<Rightarrow> (case surrogate_pair n m of
                    None \<Rightarrow> Some (replacement, r) | Some k \<Rightarrow> Some (encode_rune k, r2)))
           | _ \<Rightarrow> Some (replacement, r))
         else Some (encode_rune n, r))"

definition escape_sequence :: "string \<Rightarrow> (bytes \<times> string) option" where
  "escape_sequence s = (case s of [] \<Rightarrow> None
     | e # r \<Rightarrow> if e = CHR ''u'' then unicode_escape r
         else if e = quote_char \<or> e = backslash \<or> e = CHR ''/'' then Some ([e], r)
         else map_option (\<lambda>c. ([c], r)) (map_of (map prod.swap short_escapes) e))"

lemma hex4_shorter: "hex4 s = Some (n, r) \<Longrightarrow> length r < length s"
  by (auto simp: hex4_def split: list.splits option.splits)

lemma unicode_escape_shorter: "unicode_escape s = Some (b, r) \<Longrightarrow> length r < length s"
  by (auto simp: unicode_escape_def split: list.splits option.splits if_splits dest!: hex4_shorter)

lemma escape_sequence_shorter: "escape_sequence s = Some (b, r) \<Longrightarrow> length r < length s"
  by (auto simp: escape_sequence_def split: list.splits if_splits dest!: unicode_escape_shorter)

text \<open>The rest of a string after its opening quote; \<open>None\<close> if it does not end or is malformed.\<close>

function decode_chars :: "string \<Rightarrow> (bytes \<times> string) option" where
  "decode_chars s = (case s of [] \<Rightarrow> None
     | c # cs \<Rightarrow>
        if c = quote_char then Some ([], cs)
        else if c = backslash then (case escape_sequence cs of None \<Rightarrow> None
          | Some (b, r) \<Rightarrow> map_option (apfst ((@) b)) (decode_chars r))
        else if byte c < 32 then None
        else (case rune_size (c # cs) of
            0 \<Rightarrow> map_option (apfst ((@) replacement)) (decode_chars cs)
          | Suc n \<Rightarrow> map_option (apfst ((@) (c # take n cs))) (decode_chars (drop n cs))))"
  by pat_completeness auto
termination
  by (relation "measure length") (auto dest: escape_sequence_shorter)

declare decode_chars.simps [simp del]

subsection \<open>The decoder inverts the encoder\<close>

lemma hex_val_digit [simp]: "k < 16 \<Longrightarrow> hex_val (hex_digit k) = Some k"
proof -
  have "\<forall>k \<in> set [0..<16]. hex_val (hex_digit k) = Some k" by code_simp
  then show "k < 16 \<Longrightarrow> hex_val (hex_digit k) = Some k" by simp
qed

lemma rune_size_take:
  assumes "rune_size (c # cs) = Suc n"
  shows "rune_size (c # take n cs @ x) = Suc n" "length (take n cs) = n"
  using assms by (auto simp: rune_size_def split: if_splits list.splits)

lemma decode_chars_quote [simp]: "decode_chars (quote_char # t) = Some ([], t)"
  by (simp add: decode_chars.simps)

lemma decode_chars_escape:
  "escape_sequence s = Some (b, t) \<Longrightarrow> decode_chars (backslash # s) = map_option (apfst ((@) b)) (decode_chars t)"
  by (subst decode_chars.simps) simp

lemma decode_chars_rune:
  assumes "rune_size (c # cs) = Suc n" "c \<noteq> quote_char" "c \<noteq> backslash" "32 \<le> byte c"
  shows "decode_chars (c # take n cs @ t) = map_option (apfst ((@) (c # take n cs))) (decode_chars t)"
  using assms rune_size_take(1)[OF assms(1), of t] rune_size_take(2)[OF assms(1)]
  by (subst decode_chars.simps) simp

lemma hex4_byte: "hex4 (''00'' @ [hex_digit (byte c div 16), hex_digit (byte c mod 16)] @ t) = Some (byte c, t)"
proof -
  have "byte c div 16 < 16" using nat_of_char_less_256[of c] by linarith
  moreover have "hex_val CHR ''0'' = Some 0" by code_simp
  ultimately show ?thesis by (simp add: hex4_def)
qed

lemma append_one: "(@) [x] = (#) x"
  by auto

lemma escape_byte_decoded:
  assumes "byte c < 128"
  shows "decode_chars (escape_byte c @ t) = map_option (apfst ((#) c)) (decode_chars t)"
proof -
  consider "c = quote_char \<or> c = backslash" | l where "c \<noteq> quote_char" "c \<noteq> backslash" "map_of short_escapes c = Some l"
    | "map_of short_escapes c = None" "byte c < 32 \<or> c \<in> set ''<>&''" "c \<noteq> quote_char" "c \<noteq> backslash"
    | "map_of short_escapes c = None" "\<not> (byte c < 32 \<or> c \<in> set ''<>&'')" "c \<noteq> quote_char" "c \<noteq> backslash"
    by fastforce
  then show ?thesis
  proof cases
    case 1
    then have "escape_sequence (c # t) = Some ([c], t)" by (auto simp: escape_sequence_def)
    from decode_chars_escape[OF this] 1 show ?thesis by (auto simp: escape_byte_def append_one)
  next
    case 2
    then have "escape_sequence (l # t) = Some ([c], t)"
      by (auto simp: escape_sequence_def short_escapes_def split: if_splits)
    from decode_chars_escape[OF this] 2 show ?thesis by (simp add: escape_byte_def append_one)
  next
    case 3
    from 3(2) have "byte c < 128" by auto
    then have "escape_sequence (''u00'' @ [hex_digit (byte c div 16), hex_digit (byte c mod 16)] @ t) = Some ([c], t)"
      using hex4_byte[of c t] by (simp add: escape_sequence_def unicode_escape_def encode_rune_def)
    from decode_chars_escape[OF this] 3 show ?thesis by (simp add: escape_byte_def append_one)
  next
    case 4
    from assms have "rune_size (c # []) = Suc 0" by (simp add: rune_size_def)
    from decode_chars_rune[OF this 4(3,4)] 4 show ?thesis by (simp add: escape_byte_def append_one)
  qed
qed

lemma escape_rune_decoded:
  assumes "rune_size (c # cs) = Suc n" "128 \<le> byte c"
  shows "decode_chars (escape_rune (c # take n cs) @ t) = map_option (apfst ((@) (c # take n cs))) (decode_chars t)"
proof -
  have sep: "unicode_escape (''2028'' @ t) = Some (line_separator, t)"
    "unicode_escape (''2029'' @ t) = Some (paragraph_separator, t)"
    by (simp_all add: unicode_escape_def hex4_def hex_val_def byte_in_def encode_rune_def line_separator_def
        paragraph_separator_def)
  have "c \<noteq> quote_char" "c \<noteq> backslash" using assms(2) by auto
  with decode_chars_rune[OF assms(1)] assms(2)
  have raw: "decode_chars (c # take n cs @ t) = map_option (apfst ((@) (c # take n cs))) (decode_chars t)" by simp
  have "decode_chars (backslash # ''u2028'' @ t) = map_option (apfst ((@) line_separator)) (decode_chars t)"
    "decode_chars (backslash # ''u2029'' @ t) = map_option (apfst ((@) paragraph_separator)) (decode_chars t)"
    using sep by (simp_all add: decode_chars_escape escape_sequence_def)
  with raw show ?thesis by (simp add: escape_rune_def)
qed

lemma replacement_decoded:
  "decode_chars (backslash # ''ufffd'' @ t) = map_option (apfst ((@) replacement)) (decode_chars t)"
proof -
  have "unicode_escape (''fffd'' @ t) = Some (replacement, t)"
    by (simp add: unicode_escape_def hex4_def hex_val_def byte_in_def encode_rune_def replacement_def)
  then show ?thesis by (simp add: decode_chars_escape escape_sequence_def)
qed

theorem string_roundtrip: "decode_chars (escape_string s @ quote_char # t) = Some (valid_utf8 s, t)"
proof (induction s rule: escape_string.induct)
  case (2 c cs)
  show ?case
  proof (cases "byte c < 128")
    case True
    then have "rune_size (c # cs) = Suc 0" by (simp add: rune_size_def)
    with True 2(1) show ?thesis by (simp add: escape_byte_decoded)
  next
    case False
    show ?thesis
    proof (cases "rune_size (c # cs)")
      case 0
      with False 2(2) replacement_decoded show ?thesis by simp
    next
      case (Suc n)
      with False 2(3) escape_rune_decoded[OF Suc] show ?thesis by simp
    qed
  qed
qed simp

section \<open>Values\<close>

datatype json =
    JNull
  | JBool bool
  | JNum string
  | JStr bytes
  | JArr "json list"
  | JObj "(bytes \<times> json) list"

fun print_json :: "json \<Rightarrow> string" and print_elems :: "json list \<Rightarrow> string" and
    print_members :: "(bytes \<times> json) list \<Rightarrow> string" where
  "print_json JNull = ''null''"
| "print_json (JBool b) = (if b then ''true'' else ''false'')"
| "print_json (JNum lit) = lit"
| "print_json (JStr s) = encode_string s"
| "print_json (JArr vs) = ''['' @ (case vs of [] \<Rightarrow> '']'' | _ \<Rightarrow> print_elems vs)"
| "print_json (JObj ms) = ''{'' @ (case ms of [] \<Rightarrow> ''}'' | _ \<Rightarrow> print_members ms)"
| "print_elems [] = []"
| "print_elems (v # vs) = print_json v @ (case vs of [] \<Rightarrow> '']'' | _ \<Rightarrow> '','' @ print_elems vs)"
| "print_members [] = []"
| "print_members ((k, v) # ms) = encode_string k @ '':'' @ print_json v @
     (case ms of [] \<Rightarrow> ''}'' | _ \<Rightarrow> '','' @ print_members ms)"

definition json_space :: "char \<Rightarrow> bool" where
  "json_space c \<longleftrightarrow> c = CHR '' '' \<or> c = CHR 0x09 \<or> c = CHR 0x0A \<or> c = CHR 0x0D"

definition skip_space :: "string \<Rightarrow> string" where
  "skip_space = dropWhile json_space"

definition is_digit :: "char \<Rightarrow> bool" where
  "is_digit c \<longleftrightarrow> byte_in 48 57 c"

text \<open>One digit or more.\<close>

definition lex_digits :: "string \<Rightarrow> (string \<times> string) option" where
  "lex_digits s = (if takeWhile is_digit s = [] then None else Some (takeWhile is_digit s, dropWhile is_digit s))"

definition lex_integer :: "string \<Rightarrow> (string \<times> string) option" where
  "lex_integer s = (case s of [] \<Rightarrow> None | c # r \<Rightarrow> if c = CHR ''0'' then Some ([c], r) else lex_digits s)"

definition lex_fraction :: "string \<Rightarrow> (string \<times> string) option" where
  "lex_fraction s = (case s of c # r \<Rightarrow>
       if c = CHR ''.'' then map_option (apfst ((#) c)) (lex_digits r) else Some ([], s)
     | [] \<Rightarrow> Some ([], s))"

definition lex_exponent :: "string \<Rightarrow> (string \<times> string) option" where
  "lex_exponent s = (case s of c # r \<Rightarrow>
       if c = CHR ''e'' \<or> c = CHR ''E'' then (case r of
           g # r1 \<Rightarrow> if g = CHR ''+'' \<or> g = CHR ''-'' then map_option (apfst (\<lambda>d. c # g # d)) (lex_digits r1)
             else map_option (apfst ((#) c)) (lex_digits r)
         | [] \<Rightarrow> None)
       else Some ([], s)
     | [] \<Rightarrow> Some ([], s))"

definition lex_number :: "string \<Rightarrow> (string \<times> string) option" where
  "lex_number s =
     (let sign = takeWhile (\<lambda>c. c = CHR ''-'') (take 1 s) in
      case lex_integer (drop (length sign) s) of None \<Rightarrow> None
      | Some (i, r) \<Rightarrow> (case lex_fraction r of None \<Rightarrow> None
        | Some (f, r1) \<Rightarrow> (case lex_exponent r1 of None \<Rightarrow> None
          | Some (e, r2) \<Rightarrow> Some (sign @ i @ f @ e, r2))))"

definition keywords_json :: "(string \<times> json) list" where
  "keywords_json = [(''null'', JNull), (''true'', JBool True), (''false'', JBool False)]"

definition lex_literal :: "string \<Rightarrow> (json \<times> string) option" where
  "lex_literal s = (case filter (\<lambda>(k, v). has_prefix k s) keywords_json of
       (k, v) # _ \<Rightarrow> Some (v, drop (length k) s)
     | [] \<Rightarrow> map_option (apfst JNum) (lex_number s))"

text \<open>A value and the rest of the input, malformed input, or no fuel left.\<close>

datatype 'a parsed = Parsed 'a string | Bad | NoFuel

definition maxNestingDepth :: nat where "maxNestingDepth = 10000"

fun parse_value :: "nat \<Rightarrow> nat \<Rightarrow> string \<Rightarrow> json parsed" and
    parse_elems :: "nat \<Rightarrow> nat \<Rightarrow> string \<Rightarrow> json list parsed" and
    parse_members :: "nat \<Rightarrow> nat \<Rightarrow> string \<Rightarrow> (bytes \<times> json) list parsed" where
  "parse_value 0 d s = NoFuel"
| "parse_value (Suc f) d s = (case skip_space s of [] \<Rightarrow> Bad
     | c # r \<Rightarrow>
        if c = CHR ''{'' then (if d = 0 then Bad else (case skip_space r of [] \<Rightarrow> Bad
          | e # r1 \<Rightarrow> if e = CHR ''}'' then Parsed (JObj []) r1 else map_parsed JObj (parse_members f (d - 1) (e # r1))))
        else if c = CHR ''['' then (if d = 0 then Bad else (case skip_space r of [] \<Rightarrow> Bad
          | e # r1 \<Rightarrow> if e = CHR '']'' then Parsed (JArr []) r1 else map_parsed JArr (parse_elems f (d - 1) (e # r1))))
        else if c = quote_char then (case decode_chars r of None \<Rightarrow> Bad | Some (t, r1) \<Rightarrow> Parsed (JStr t) r1)
        else (case lex_literal (c # r) of None \<Rightarrow> Bad | Some (v, r1) \<Rightarrow> Parsed v r1))"
| "parse_elems 0 d s = NoFuel"
| "parse_elems (Suc f) d s = (case parse_value f d s of Bad \<Rightarrow> Bad | NoFuel \<Rightarrow> NoFuel
     | Parsed v r \<Rightarrow> (case skip_space r of [] \<Rightarrow> Bad
        | c # r1 \<Rightarrow> if c = CHR '']'' then Parsed [v] r1
            else if c = CHR '','' then map_parsed ((#) v) (parse_elems f d r1) else Bad))"
| "parse_members 0 d s = NoFuel"
| "parse_members (Suc f) d s = (case skip_space s of [] \<Rightarrow> Bad
     | q # r \<Rightarrow> if q \<noteq> quote_char then Bad else (case decode_chars r of None \<Rightarrow> Bad
        | Some (k, r1) \<Rightarrow> (case skip_space r1 of [] \<Rightarrow> Bad
           | c # r2 \<Rightarrow> if c \<noteq> CHR '':'' then Bad else (case parse_value f d r2 of Bad \<Rightarrow> Bad | NoFuel \<Rightarrow> NoFuel
              | Parsed v r3 \<Rightarrow> (case skip_space r3 of [] \<Rightarrow> Bad
                 | e # r4 \<Rightarrow> if e = CHR ''}'' then Parsed [(k, v)] r4
                     else if e = CHR '','' then map_parsed ((#) (k, v)) (parse_members f d r4) else Bad)))))"

definition decode_json :: "string \<Rightarrow> json parsed" where
  "decode_json s = parse_value (2 * length s + 1) maxNestingDepth s"

subsection \<open>The parser consumes input, and its fuel is enough\<close>

lemma skip_space_le: "length (skip_space s) \<le> length s"
  by (simp add: skip_space_def length_dropWhile_le)

lemma skip_space_Cons: "skip_space s = c # r \<Longrightarrow> length r < length s"
  using skip_space_le[of s] by simp

lemma decode_chars_shorter: "decode_chars s = Some (b, r) \<Longrightarrow> length r < length s"
proof (induction "length s" arbitrary: s b rule: less_induct)
  case less
  have IH: "length t < length s \<Longrightarrow> decode_chars t = Some (x, r) \<Longrightarrow> length r < length s" for t x
    using less(1) order_less_trans by blast
  from less(2) show ?case
    by (subst (asm) decode_chars.simps)
      (auto split: list.splits if_splits option.splits nat.splits dest!: escape_sequence_shorter IH[rotated])
qed

lemma lex_digits_shorter: "lex_digits s = Some (a, r) \<Longrightarrow> length r < length s"
  by (cases s) (auto simp: lex_digits_def le_imp_less_Suc[OF length_dropWhile_le] split: if_splits)

lemma lex_number_shorter: "lex_number s = Some (a, r) \<Longrightarrow> length r < length s"
proof -
  have i: "length r < length s" if "lex_integer s = Some (a, r)" for s a r
    using that by (auto simp: lex_integer_def split: list.splits if_splits dest: lex_digits_shorter)
  have f: "length r \<le> length s" if "lex_fraction s = Some (a, r)" for s a r
    using that by (auto simp: lex_fraction_def split: list.splits if_splits dest!: lex_digits_shorter)
  have e: "length r \<le> length s" if "lex_exponent s = Some (a, r)" for s a r
    using that by (auto simp: lex_exponent_def split: list.splits if_splits dest!: lex_digits_shorter)
  show "lex_number s = Some (a, r) \<Longrightarrow> length r < length s"
    by (auto simp: lex_number_def Let_def split: option.splits dest!: i f e) linarith
qed

lemma lex_literal_shorter: "lex_literal s = Some (v, r) \<Longrightarrow> length r < length s"
  by (auto simp: lex_literal_def keywords_json_def has_prefix_iff split: list.splits if_splits dest!: lex_number_shorter)

lemma map_parsed_Parsed [simp]: "map_parsed g p = Parsed y r \<longleftrightarrow> (\<exists>x. p = Parsed x r \<and> y = g x)"
  by (cases p) auto

lemma map_parsed_NoFuel [simp]: "map_parsed g p = NoFuel \<longleftrightarrow> p = NoFuel"
  by (cases p) auto

lemma parse_shorter:
  "parse_value f d s = Parsed v r \<Longrightarrow> length r < length s"
  "parse_elems f d s = Parsed vs r \<Longrightarrow> length r < length s"
  "parse_members f d s = Parsed ms r \<Longrightarrow> length r < length s"
proof (induction f d s and f d s and f d s arbitrary: v r and vs r and ms r
    rule: parse_value_parse_elems_parse_members.induct)
  case (2 f d s)
  then show ?case
    by (auto split: list.splits if_splits option.splits
        dest!: skip_space_Cons decode_chars_shorter lex_literal_shorter)
      (metis length_Cons less_trans_Suc not_less_eq order_less_trans)+
next
  case (4 f d s)
  then show ?case
    by (fastforce split: list.splits if_splits option.splits parsed.splits dest!: skip_space_Cons)
next
  case (6 f d s)
  then show ?case
    by (fastforce split: list.splits if_splits option.splits parsed.splits dest!: skip_space_Cons decode_chars_shorter)
qed simp_all

lemma parse_fuel:
  "2 * length s + 1 \<le> f \<Longrightarrow> parse_value f d s \<noteq> NoFuel"
  "2 * length s + 2 \<le> f \<Longrightarrow> parse_elems f d s \<noteq> NoFuel"
  "2 * length s + 2 \<le> f \<Longrightarrow> parse_members f d s \<noteq> NoFuel"
proof (induction f d s and f d s and f d s rule: parse_value_parse_elems_parse_members.induct)
  case (2 f d s)
  have *: "2 * length (e # r1) + 2 \<le> f" if "skip_space s = c # r" "skip_space r = e # r1" for c r e r1
    using 2(3) skip_space_le[of r] skip_space_Cons[OF that(1)] that(2) by simp
  show ?case
    using 2(1)[OF _ _ _ _ _ *] 2(2)[OF _ _ _ _ _ _ *]
    by (auto split: list.splits if_splits option.splits)
next
  case (4 f d s)
  have "parse_value f d s \<noteq> NoFuel" using 4 by simp
  moreover have "2 * length r1 + 2 \<le> f" if "parse_value f d s = Parsed v r" "skip_space r = c # r1" for v r c r1
    using 4(3) parse_shorter(1)[OF that(1)] skip_space_Cons[OF that(2)] by simp
  ultimately show ?case using 4(2) by (auto split: list.splits if_splits parsed.splits)
next
  case (6 f d s)
  have v: "2 * length r2 + 1 \<le> f" if "skip_space s = q # r" "decode_chars r = Some (k, r1)" "skip_space r1 = c # r2"
    for q r k r1 c r2
    using 6(3) skip_space_Cons[OF that(1)] decode_chars_shorter[OF that(2)] skip_space_Cons[OF that(3)] by simp
  have m: "2 * length r4 + 2 \<le> f"
    if "skip_space s = q # r" "decode_chars r = Some (k, r1)" "skip_space r1 = c # r2"
      "parse_value f d r2 = Parsed w r3" "skip_space r3 = e # r4" for q r k r1 c r2 w r3 e r4
    using v[OF that(1-3)] parse_shorter(1)[OF that(4)] skip_space_Cons[OF that(5)] by simp
  from 6(1,2) v m show ?case by (auto split: list.splits if_splits option.splits parsed.splits)
qed simp_all

text \<open>
  The decoder always returns: with fuel for the length of its input it finds a value or rejects
  the input, and no larger fuel would change the answer.
\<close>

lemma parse_fuel_mono:
  "parse_value f d s \<noteq> NoFuel \<Longrightarrow> parse_value (f + n) d s = parse_value f d s"
  "parse_elems f d s \<noteq> NoFuel \<Longrightarrow> parse_elems (f + n) d s = parse_elems f d s"
  "parse_members f d s \<noteq> NoFuel \<Longrightarrow> parse_members (f + n) d s = parse_members f d s"
proof (induction f d s and f d s and f d s rule: parse_value_parse_elems_parse_members.induct)
  case (2 f d s)
  show ?case
  proof (cases "skip_space s")
    case s: (Cons c r)
    have m: "parse_members (f + n) (d - 1) (e # r1) = parse_members f (d - 1) (e # r1)"
      if "c = CHR ''{''" "d \<noteq> 0" "skip_space r = e # r1" "e \<noteq> CHR ''}''"
        "parse_members f (d - 1) (e # r1) \<noteq> NoFuel" for e r1
      using 2(1)[OF s that(1-4)] that(5) by simp
    have a: "parse_elems (f + n) (d - 1) (e # r1) = parse_elems f (d - 1) (e # r1)"
      if "c = CHR ''[''" "d \<noteq> 0" "skip_space r = e # r1" "e \<noteq> CHR '']''"
        "parse_elems f (d - 1) (e # r1) \<noteq> NoFuel" for e r1
      using 2(2)[OF s _ that(1-4)] that by simp
    consider "c = CHR ''{''" | "c = CHR ''[''" | "c \<noteq> CHR ''{''" "c \<noteq> CHR ''[''" by blast
    then show ?thesis
    proof cases
      case 1
      with 2(3) m show ?thesis by (cases "skip_space r"; cases "d = 0") (auto simp: s split: if_split_asm)
    next
      case 2
      with \<open>parse_value (Suc f) d s \<noteq> NoFuel\<close> a show ?thesis by (cases "skip_space r"; cases "d = 0") (auto simp: s split: if_split_asm)
    qed (simp add: s)
  qed simp
next
  case (4 f d s)
  show ?case
  proof (cases "parse_value f d s")
    case v: (Parsed v r)
    with 4(1) have "parse_value (f + n) d s = Parsed v r" by simp
    moreover have "parse_elems (f + n) d r1 = parse_elems f d r1"
      if "skip_space r = CHR '','' # r1" "parse_elems f d r1 \<noteq> NoFuel" for r1
      using 4(2)[OF v that(1)] that(2) by simp
    ultimately show ?thesis using 4(3) v by (cases "skip_space r") (auto split: if_split_asm)
  qed (use 4 in simp_all)
next
  case (6 f d s)
  show ?case
  proof (cases "skip_space s")
    case s: (Cons q r)
    show ?thesis
    proof (cases "q = quote_char \<and> decode_chars r \<noteq> None")
      case True
      then obtain k r1 where k: "q = quote_char" "decode_chars r = Some (k, r1)" by auto
      show ?thesis
      proof (cases "skip_space r1")
        case r1: (Cons c r2)
        show ?thesis
        proof (cases "c = CHR '':''")
          case True
          note at = s _ k(2) refl r1 
          show ?thesis
          proof (cases "parse_value f d r2")
            case v: (Parsed v r3)
            have "parse_value (f + n) d r2 = Parsed v r3" using 6(1)[OF at] v k(1) True by simp
            moreover have "parse_members (f + n) d r4 = parse_members f d r4"
              if "skip_space r3 = CHR '','' # r4" "parse_members f d r4 \<noteq> NoFuel" for r4
              using 6(2)[OF at _ v that(1)] that(2) k(1) True by simp
            ultimately show ?thesis using 6(3) v
              by (cases "skip_space r3") (auto simp: s k r1 True split: if_split_asm)
          next
            case Bad
            with 6(1)[OF at] k(1) True show ?thesis by (simp add: s k r1)
          qed (use 6(3) in \<open>simp add: s k r1 True\<close>)
        qed (simp add: s k r1)
      qed (simp add: s k)
    qed (auto simp: s split: option.split)
  qed simp
qed simp_all

theorem json_terminates:
  "decode_json s \<noteq> NoFuel \<and> parse_value (2 * length s + 1 + n) maxNestingDepth s = decode_json s"
  unfolding decode_json_def by (metis parse_fuel(1) parse_fuel_mono(1) order_refl)

lemma json_never_starves: "decode_json s \<noteq> NoFuel"
  by (rule json_terminates[THEN conjunct1])

subsection \<open>Printed values are read back\<close>

text \<open>The numbers that the program sends are integers; the depth is that of lists and structs.\<close>

fun integral :: "json \<Rightarrow> bool" where
  "integral (JNum lit) \<longleftrightarrow> lit \<in> range format_int"
| "integral (JArr vs) \<longleftrightarrow> (\<forall>v \<in> set vs. integral v)"
| "integral (JObj ms) \<longleftrightarrow> (\<forall>(k, v) \<in> set ms. integral v)"
| "integral v \<longleftrightarrow> True"

fun json_depth :: "json \<Rightarrow> nat" where
  "json_depth (JArr vs) = Suc (Max (set (0 # map json_depth vs)))"
| "json_depth (JObj ms) = Suc (Max (set (0 # map (\<lambda>(k, v). json_depth v) ms)))"
| "json_depth v = 0"

lemma json_depth_le [simp]:
  "json_depth (JArr vs) \<le> d \<longleftrightarrow> d \<noteq> 0 \<and> (\<forall>v \<in> set vs. json_depth v \<le> d - 1)"
  "json_depth (JObj ms) \<le> d \<longleftrightarrow> d \<noteq> 0 \<and> (\<forall>(k, v) \<in> set ms. json_depth v \<le> d - 1)"
  by (cases d; auto)+

declare json_depth.simps(1,2) [simp del]

fun valid_json :: "json \<Rightarrow> json" where
  "valid_json (JStr s) = JStr (valid_utf8 s)"
| "valid_json (JArr vs) = JArr (map valid_json vs)"
| "valid_json (JObj ms) = JObj (map (\<lambda>(k, v). (valid_utf8 k, valid_json v)) ms)"
| "valid_json v = v"

abbreviation printable :: "nat \<Rightarrow> json \<Rightarrow> bool" where
  "printable d v \<equiv> integral v \<and> json_depth v \<le> d"

lemma is_digit_decimal: "c \<in> decimal_digits \<longleftrightarrow> is_digit c"
proof -
  have "\<forall>c \<in> decimal_digits. is_digit c" by code_simp
  moreover have "c \<in> decimal_digits" if "is_digit c"
  proof -
    have "c = digit (byte c - 48)"
    proof -
      have "\<forall>n \<in> set [0..<10]. digit n = char_of (48 + n)" by code_simp
      moreover have "byte c - 48 < 10" "48 + (byte c - 48) = byte c"
        using that by (auto simp: is_digit_def byte_in_def)
      ultimately show ?thesis by simp
    qed
    moreover have "byte c - 48 < 10" using that by (auto simp: is_digit_def byte_in_def)
    ultimately show ?thesis using digit_range[of "byte c - 48"] by metis
  qed
  ultimately show ?thesis by blast
qed

text \<open>What may follow a number, so that it ends there.\<close>

definition number_ends :: "string \<Rightarrow> bool" where
  "number_ends t \<longleftrightarrow> (case t of [] \<Rightarrow> True | c # r \<Rightarrow> \<not> is_digit c \<and> c \<notin> {CHR ''.'', CHR ''e'', CHR ''E''})"

lemma number_ends_sep [simp]: "number_ends (CHR '','' # t)" "number_ends (CHR '']'' # t)" "number_ends (CHR ''}'' # t)"
  "number_ends []" "number_ends (newline # t)"
  by (simp_all add: number_ends_def is_digit_def byte_in_def newline_def)

lemma format_nat_digits: "\<forall>c \<in> set (format_nat n). is_digit c"
  using format_nat_chars is_digit_decimal by blast

lemma format_nat_leading: "hd (format_nat n) = CHR ''0'' \<Longrightarrow> n = 0"
proof (induction n rule: format_nat.induct)
  case (1 n)
  have "\<forall>n \<in> set [0..<10]. digit n = CHR ''0'' \<longrightarrow> n = 0" by code_simp
  then have d: "n < 10 \<Longrightarrow> digit n = CHR ''0'' \<Longrightarrow> n = 0" by simp
  show ?case
  proof (cases "n < 10")
    case True
    with 1(2) d show ?thesis by (simp add: format_nat.simps)
  next
    case False
    with 1(2) have "hd (format_nat (n div 10)) = CHR ''0''" by (simp add: format_nat.simps[of n])
    with 1(1) False show ?thesis by auto
  qed
qed

lemma format_nat_0: "format_nat 0 = ''0''"
  by code_simp

lemma lex_integer_format: "number_ends t \<Longrightarrow> lex_integer (format_nat n @ t) = Some (format_nat n, t)"
proof (cases "n = 0")
  case True
  then show ?thesis by (simp add: format_nat_0 lex_integer_def)
next
  case False
  assume t: "number_ends t"
  obtain c cs where f: "format_nat n = c # cs" by (metis format_nat_ne neq_Nil_conv)
  with False format_nat_leading[of n] have c: "c \<noteq> CHR ''0''" by auto
  have "takeWhile is_digit (format_nat n @ t) = format_nat n" "dropWhile is_digit (format_nat n @ t) = t"
    using format_nat_digits[of n] t
    by (simp_all add: takeWhile_append2 dropWhile_append2 number_ends_def split: list.splits)
  then show ?thesis using c f by (simp add: lex_integer_def lex_digits_def)
qed

lemma lex_number_format:
  assumes "number_ends t"
  shows "lex_number (format_int i @ t) = Some (format_int i, t)"
proof -
  have n: "lex_fraction t = Some ([], t)" "lex_exponent t = Some ([], t)"
    using assms by (auto simp: lex_fraction_def lex_exponent_def number_ends_def split: list.splits)
  obtain c cs where f: "format_nat (nat i) = c # cs" by (metis format_nat_ne neq_Nil_conv)
  with format_nat_hd[of "nat i"] have c: "c \<noteq> CHR ''-''" by (auto simp: decimal_digits_def)
  show ?thesis
  proof (cases "i < 0")
    case True
    then show ?thesis
      using lex_integer_format[OF assms, of "nat (- i)"] n by (simp add: lex_number_def format_int_def)
  next
    case False
    then show ?thesis
      using lex_integer_format[OF assms, of "nat i"] n c f by (simp add: lex_number_def format_int_def)
  qed
qed

lemma format_int_hd: "hd (format_int i) = CHR ''-'' \<or> is_digit (hd (format_int i))" "format_int i \<noteq> []"
  using format_nat_hd[of "nat i"] is_digit_decimal by (auto simp: format_int_def)

lemma print_json_hd:
  assumes "integral v"
  obtains c x where "print_json v = c # x" "\<not> json_space c" "c \<noteq> CHR '']''" "c \<noteq> CHR ''}''"
proof (cases v)
  case (JBool b)
  then show thesis using that by (cases b) (auto simp: json_space_def)
next
  case (JNum lit)
  with assms obtain i where l: "lit = format_int i" by auto
  obtain c x where f: "format_int i = c # x" by (metis format_int_hd(2) neq_Nil_conv)
  with format_int_hd(1)[of i] have "c = CHR ''-'' \<or> is_digit c" by simp
  then have "\<not> json_space c" "c \<noteq> CHR '']''" "c \<noteq> CHR ''}''"
    by (auto simp: json_space_def is_digit_def byte_in_def)
  with JNum l f show thesis using that by simp
qed (use assms that in \<open>auto simp: json_space_def encode_string_def\<close>)

lemma skip_space_id [simp]: "\<not> json_space c \<Longrightarrow> skip_space (c # x) = c # x"
  by (simp add: skip_space_def)

lemma no_space [simp]: "\<not> json_space (CHR ''{'')" "\<not> json_space (CHR ''['')" "\<not> json_space (CHR ''}'')"
  "\<not> json_space (CHR '']'')" "\<not> json_space (CHR '','')" "\<not> json_space (CHR '':'')" "\<not> json_space quote_char"
  by (simp_all add: json_space_def)

lemma decode_encoded [simp]: "decode_chars (escape_string s @ quote_char # t) = Some (valid_utf8 s, t)"
  by (rule string_roundtrip)

lemma parse_keywords:
  "parse_value (Suc f) d (''null'' @ t) = Parsed JNull t"
  "parse_value (Suc f) d (''true'' @ t) = Parsed (JBool True) t"
  "parse_value (Suc f) d (''false'' @ t) = Parsed (JBool False) t"
  by (simp_all add: skip_space_def json_space_def lex_literal_def keywords_json_def has_prefix_def)

lemma parse_number:
  "number_ends t \<Longrightarrow> parse_value (Suc f) d (format_int i @ t) = Parsed (JNum (format_int i)) t"
proof -
  assume t: "number_ends t"
  obtain c x where f: "format_int i = c # x" by (metis format_int_hd(2) neq_Nil_conv)
  with format_int_hd(1)[of i] have c: "c = CHR ''-'' \<or> is_digit c" by simp
  then have n: "\<not> json_space c" "c \<noteq> CHR ''{''" "c \<noteq> CHR ''[''" "c \<noteq> quote_char"
      "c \<notin> {CHR ''n'', CHR ''t'', CHR ''f''}"
    by (auto simp: json_space_def is_digit_def byte_in_def)
  have "lex_literal (c # x @ t) = Some (JNum (c # x), t)"
    using lex_number_format[OF t, of i] c n(5) by (auto simp: lex_literal_def keywords_json_def has_prefix_def f)
  then show ?thesis using n(1-4) by (simp add: f)
qed

text \<open>A number ends where the input goes on with something else; every other value ends itself.\<close>

abbreviation ends :: "json \<Rightarrow> string \<Rightarrow> bool" where
  "ends v t \<equiv> (\<exists>l. v = JNum l) \<longrightarrow> number_ends t"

lemma parse_printed:
  "printable d v \<Longrightarrow> ends v t \<Longrightarrow> parse_value f d (print_json v @ t) \<in> {NoFuel, Parsed (valid_json v) t}"
  "vs \<noteq> [] \<Longrightarrow> \<forall>v \<in> set vs. printable d v \<Longrightarrow>
   parse_elems f d (print_elems vs @ t) \<in> {NoFuel, Parsed (map valid_json vs) t}"
  "ms \<noteq> [] \<Longrightarrow> \<forall>(k, v) \<in> set ms. printable d v \<Longrightarrow>
   parse_members f d (print_members ms @ t) \<in> {NoFuel, Parsed (map (\<lambda>(k, v). (valid_utf8 k, valid_json v)) ms) t}"
proof (induction f arbitrary: d v vs ms t)
  case (Suc f)
  {
    case 1
    show ?case
    proof (cases v)
      case (JNum l)
      with 1 obtain i where "l = format_int i" "number_ends t" by auto
      with JNum show ?thesis by (simp only: print_json.simps valid_json.simps parse_number insert_iff simp_thms)
    next
      case (JArr vs)
      show ?thesis
      proof (cases vs)
        case (Cons w ws)
        with 1 JArr obtain c x where c: "print_json w = c # x" "\<not> json_space c" "c \<noteq> CHR '']''"
          by (auto elim: print_json_hd)
        from 1 JArr have d: "d \<noteq> 0" "\<forall>v \<in> set vs. printable (d - 1) v" by (auto simp: Cons)
        from Suc(2)[OF _ d(2), of t] show ?thesis using c d(1) by (auto simp: JArr Cons)
      qed (use 1 JArr in simp)
    next
      case (JObj ms)
      show ?thesis
      proof (cases ms)
        case (Cons m mt)
        from 1 JObj have d: "d \<noteq> 0" "\<forall>(k, v) \<in> set ms. printable (d - 1) v" by (auto simp: Cons)
        from Suc(3)[OF _ d(2), of t] show ?thesis
          using d(1) by (cases m) (auto simp: JObj Cons encode_string_def)
      qed (use 1 JObj in simp)
    next
      case JNull
      then show ?thesis by (simp only: print_json.simps valid_json.simps parse_keywords insert_iff simp_thms)
    next
      case (JBool b)
      then show ?thesis
        by (cases b) (simp_all only: print_json.simps valid_json.simps parse_keywords insert_iff simp_thms if_True if_False)
    qed (use 1 in \<open>simp_all add: encode_string_def\<close>)
  next
    case 2
    then obtain w ws where vs: "vs = w # ws" by (cases vs) auto
    have w: "parse_value f d (print_json w @ x) \<in> {NoFuel, Parsed (valid_json w) x}" if "number_ends x" for x
      using Suc(1) 2 vs that by simp
    show ?case
    proof (cases ws)
      case Nil
      then show ?thesis using w[of "'']'' @ t"] vs by auto
    next
      case (Cons u us)
      have "parse_elems f d (print_elems ws @ t) \<in> {NoFuel, Parsed (map valid_json ws) t}"
        using Suc(2)[of ws d t] 2 vs Cons by simp
      then show ?thesis using w[of "'','' @ print_elems ws @ t"] vs Cons by auto
    qed
  next
    case 3
    then obtain k w mt where ms: "ms = (k, w) # mt" by (cases ms) auto
    have w: "parse_value f d (print_json w @ x) \<in> {NoFuel, Parsed (valid_json w) x}" if "number_ends x" for x
      using Suc(1) 3 ms that by simp
    show ?case
    proof (cases mt)
      case Nil
      then show ?thesis using w[of "''}'' @ t"] ms by (auto simp: encode_string_def)
    next
      case (Cons m ns)
      have "parse_members f d (print_members mt @ t) \<in>
          {NoFuel, Parsed (map (\<lambda>(k, v). (valid_utf8 k, valid_json v)) mt) t}"
        using Suc(3)[of mt d t] 3 ms Cons by simp
      then show ?thesis using w[of "'','' @ print_members mt @ t"] ms Cons by (auto simp: encode_string_def)
    qed
  }
qed simp_all

theorem json_roundtrip:
  assumes "printable maxNestingDepth v" "ends v t"
  shows "decode_json (print_json v @ t) = Parsed (valid_json v) t"
  using parse_printed(1)[OF assms] json_terminates unfolding decode_json_def by blast

section \<open>More input does not change what was read\<close>

text \<open>
  A value that has been read from the front of the input stays what it is when the input turns out to
  be longer. Only a number can grow.
\<close>

lemma hex4_append: "hex4 s = Some (n, r) \<Longrightarrow> hex4 (s @ x) = Some (n, r @ x)"
  by (auto simp: hex4_def split: list.splits option.splits)

lemma hex4_short: "hex4 s = None \<Longrightarrow> hex4 (s @ x) \<noteq> None \<Longrightarrow> length s < 4"
  by (auto simp: hex4_def split: list.splits option.splits)

lemma unicode_escape_short: "length s < 4 \<Longrightarrow> unicode_escape s = None"
  by (auto simp: unicode_escape_def hex4_def split: list.splits)

lemma rune_size_cont: "rune_size (c # cs) = Suc n \<Longrightarrow> a \<in> set (take n cs) \<Longrightarrow> cont a"
  by (auto simp: rune_size_def second_ok_def byte_in_def split: if_splits list.splits)

lemma decode_chars_cont: "\<forall>c \<in> set s. cont c \<Longrightarrow> decode_chars s = None"
proof (induction s)
  case (Cons c s)
  then have "rune_size (c # s) = 0" by (simp add: rune_size_def byte_in_def)
  with Cons show ?case by (auto simp: decode_chars.simps[of "c # s"] byte_in_def)
qed (simp add: decode_chars.simps)

lemma rune_size_append:
  "rune_size (c # cs) = Suc n \<Longrightarrow> rune_size (c # cs @ x) = Suc n"
  using rune_size_take(1)[of c cs n "drop n cs @ x"] by (metis append.assoc append_take_drop_id)

lemma rune_size_0_append:
  assumes "rune_size (c # cs) = 0" "decode_chars cs \<noteq> None"
  shows "rune_size (c # cs @ x) = 0"
proof (rule ccontr)
  assume "rune_size (c # cs @ x) \<noteq> 0"
  then obtain n where n: "rune_size (c # cs @ x) = Suc n" by (meson not0_implies_Suc)
  show False
  proof (cases "n \<le> length cs")
    case True
    with rune_size_take(1)[OF n, of "drop n cs"] assms(1) show False by simp
  next
    case False
    then have "\<forall>a \<in> set cs. cont a" using rune_size_cont[OF n] by simp
    from decode_chars_cont[OF this] assms(2) show False by simp
  qed
qed

lemma unicode_escape_append:
  assumes "unicode_escape s = Some (b, r)" "decode_chars r \<noteq> None"
  shows "unicode_escape (s @ x) = Some (b, r @ x)"
proof -
  obtain n t where h: "hex4 s = Some (n, t)" using assms(1) by (auto simp: unicode_escape_def split: option.splits)
  note hx = hex4_append[OF h, of x]
  show ?thesis
  proof (cases "55296 \<le> n \<and> n < 57344")
    case False
    with assms(1) h hx show ?thesis by (auto simp: unicode_escape_def)
  next
    case s: True
    show ?thesis
    proof (cases "\<exists>u. t = backslash # CHR ''u'' # u")
      case True
      then obtain u where t: "t = backslash # CHR ''u'' # u" by blast
      show ?thesis
      proof (cases "hex4 u")
        case None
        with assms(1) h s t have e: "b = replacement" "r = t" by (simp_all add: unicode_escape_def)
        have "hex4 (u @ x) = None"
        proof (rule ccontr)
          assume "hex4 (u @ x) \<noteq> None"
          with None have "unicode_escape u = None" by (intro unicode_escape_short hex4_short)
          then have "decode_chars t = None" by (simp add: t decode_chars.simps[of "backslash # _"] escape_sequence_def)
          with assms(2) e show False by simp
        qed
        with hx s t e show ?thesis by (simp add: unicode_escape_def)
      next
        case (Some m)
        obtain k v where m: "hex4 u = Some (k, v)" using Some by (cases m) simp
        from hex4_append[OF m] assms(1) h hx s t m show ?thesis
          by (auto simp: unicode_escape_def split: option.splits)
      qed
    next
      case False
      then have e: "b = replacement" "r = t"
        using assms(1) h s by (auto simp: unicode_escape_def split: list.splits if_splits)
      with assms(2) have ne: "t \<noteq> []" "t \<noteq> [backslash]"
        by (auto simp: decode_chars.simps escape_sequence_def)
      then have "\<nexists>u. t @ x = backslash # CHR ''u'' # u" using False by (cases t; cases "tl t") auto
      with hx s e show ?thesis by (auto simp: unicode_escape_def split: list.split)
    qed
  qed
qed

lemma escape_sequence_append:
  "escape_sequence s = Some (b, r) \<Longrightarrow> decode_chars r \<noteq> None \<Longrightarrow> escape_sequence (s @ x) = Some (b, r @ x)"
  by (auto simp: escape_sequence_def unicode_escape_append split: list.splits if_splits)

lemma decode_chars_append: "decode_chars s = Some (b, r) \<Longrightarrow> decode_chars (s @ x) = Some (b, r @ x)"
proof (induction "length s" arbitrary: s b rule: less_induct)
  case less
  have IH: "decode_chars (t @ x) = Some (a, r @ x)" if "length t < length s" "decode_chars t = Some (a, r)" for t a
    using less(1) that by blast
  show ?case
  proof (cases s)
    case (Cons c cs)
    consider "c = quote_char" | "c = backslash" | "c \<noteq> quote_char" "c \<noteq> backslash" "rune_size (c # cs) = 0"
      | n where "c \<noteq> quote_char" "c \<noteq> backslash" "rune_size (c # cs) = Suc n"
      by (metis not0_implies_Suc)
    then show ?thesis
    proof cases
      case 1
      with less(2) Cons show ?thesis by simp
    next
      case 2
      with less(2) Cons obtain e t a where e: "escape_sequence cs = Some (e, t)" "decode_chars t = Some (a, r)" "b = e @ a"
        by (auto simp: decode_chars.simps[of "backslash # cs"] split: option.splits)
      with escape_sequence_shorter[OF e(1)] IH[of t a] Cons have "decode_chars (t @ x) = Some (a, r @ x)" by simp
      with decode_chars_escape[OF escape_sequence_append[OF e(1)]] e 2 Cons show ?thesis by simp
    next
      case 3
      with less(2) Cons obtain a where a: "decode_chars cs = Some (a, r)" "b = replacement @ a" "32 \<le> byte c"
        by (auto simp: decode_chars.simps[of "c # cs"] split: if_splits)
      with IH[of cs a] rune_size_0_append[OF 3(3)] 3 Cons show ?thesis
        by (simp add: decode_chars.simps[of "c # cs @ x"])
    next
      case 4
      with less(2) Cons obtain a where a: "decode_chars (drop n cs) = Some (a, r)" "b = (c # take n cs) @ a" "32 \<le> byte c"
        by (auto simp: decode_chars.simps[of "c # cs"] split: if_splits)
      have n: "n \<le> length cs" using rune_size_take(2)[OF 4(3)] by simp
      from a(1) IH[of "drop n cs" a] Cons have "decode_chars (drop n cs @ x) = Some (a, r @ x)" by simp
      with rune_size_append[OF 4(3), of x] a 4 n Cons show ?thesis
        by (simp add: decode_chars.simps[of "c # cs @ x"])
    qed
  qed (use less(2) in \<open>simp add: decode_chars.simps\<close>)
qed

lemma dropWhile_extend: "dropWhile P s = c # r \<Longrightarrow> dropWhile P (s @ x) = c # r @ x \<and> takeWhile P (s @ x) = takeWhile P s"
  by (induction s) (auto split: if_splits)

lemma skip_space_append: "skip_space s = c # r \<Longrightarrow> skip_space (s @ x) = c # r @ x"
  using dropWhile_extend[of json_space s c r x] by (simp add: skip_space_def)

lemma lex_digits_append: "lex_digits s = Some (a, r) \<Longrightarrow> r \<noteq> [] \<Longrightarrow> lex_digits (s @ x) = Some (a, r @ x)"
  using dropWhile_extend[of is_digit s _ _ x] by (cases r) (auto simp: lex_digits_def split: if_splits)

lemma lex_integer_append: "lex_integer s = Some (a, r) \<Longrightarrow> r \<noteq> [] \<Longrightarrow> lex_integer (s @ x) = Some (a, r @ x)"
  using lex_digits_append[of s a r x] by (cases s) (auto simp: lex_integer_def split: if_splits)

lemma lex_fraction_append: "lex_fraction s = Some (a, r) \<Longrightarrow> r \<noteq> [] \<Longrightarrow> lex_fraction (s @ x) = Some (a, r @ x)"
  by (cases s) (auto simp: lex_fraction_def split: if_splits dest!: lex_digits_append[of _ _ r x])

lemma lex_exponent_append: "lex_exponent s = Some (a, r) \<Longrightarrow> r \<noteq> [] \<Longrightarrow> lex_exponent (s @ x) = Some (a, r @ x)"
  by (cases s; cases "tl s") (auto simp: lex_exponent_def split: if_splits dest!: lex_digits_append[of _ _ r x])

lemma lex_number_append:
  assumes "lex_number s = Some (a, r)" "r \<noteq> []"
  shows "lex_number (s @ x) = Some (a, r @ x)"
proof -
  let ?sign = "takeWhile (\<lambda>c. c = CHR ''-'') (take 1 s)"
  obtain i f e r1 r2 where p: "lex_integer (drop (length ?sign) s) = Some (i, r1)" "lex_fraction r1 = Some (f, r2)"
      "lex_exponent r2 = Some (e, r)" "a = ?sign @ i @ f @ e"
    using assms(1) by (auto simp: lex_number_def Let_def split: option.splits)
  from p(3) assms(2) have r2: "r2 \<noteq> []" by (auto simp: lex_exponent_def)
  with p(2) have r1: "r1 \<noteq> []" by (auto simp: lex_fraction_def)
  have s: "s \<noteq> []" using p(1) by (auto simp: lex_integer_def)
  then have t: "take 1 (s @ x) = take 1 s" "drop (length ?sign) (s @ x) = drop (length ?sign) s @ x"
    by (cases s; simp)+
  show ?thesis
    unfolding lex_number_def Let_def t
    using lex_integer_append[OF p(1) r1, of x] lex_fraction_append[OF p(2) r2, of x]
      lex_exponent_append[OF p(3) assms(2), of x] p(4) by simp
qed

lemma lex_number_no_keyword:
  "lex_number s = Some (a, r) \<Longrightarrow> s \<noteq> [] \<and> hd s \<notin> {CHR ''n'', CHR ''t'', CHR ''f''}"
  by (cases s) (auto simp: lex_number_def Let_def lex_integer_def lex_digits_def is_digit_def byte_in_def
      split: option.splits if_splits)

lemma lex_keyword:
  "lex_literal (''null'' @ t) = Some (JNull, t)" "lex_literal (''true'' @ t) = Some (JBool True, t)"
  "lex_literal (''false'' @ t) = Some (JBool False, t)"
  by (simp_all add: lex_literal_def keywords_json_def has_prefix_def)

lemma lex_literal_append:
  assumes "lex_literal s = Some (v, r)" "r \<noteq> [] \<or> (\<forall>l. v \<noteq> JNum l)"
  shows "lex_literal (s @ x) = Some (v, r @ x)"
proof -
  consider t where "s = ''null'' @ t" | t where "s = ''true'' @ t" | t where "s = ''false'' @ t"
    | "\<forall>(k, w) \<in> set keywords_json. \<not> has_prefix k s"
    by (auto simp: keywords_json_def has_prefix_iff)
  then show ?thesis
  proof cases
    case (1 t)
    with assms(1) lex_keyword(1)[of t] lex_keyword(1)[of "t @ x"] show ?thesis by simp
  next
    case (2 t)
    with assms(1) lex_keyword(2)[of t] lex_keyword(2)[of "t @ x"] show ?thesis by simp
  next
    case (3 t)
    with assms(1) lex_keyword(3)[of t] lex_keyword(3)[of "t @ x"] show ?thesis by simp
  next
    case 4
    then have "lex_literal s = map_option (apfst JNum) (lex_number s)"
      by (auto simp: lex_literal_def keywords_json_def)
    with assms obtain l where l: "lex_number s = Some (l, r)" "v = JNum l" "r \<noteq> []" by auto
    with lex_number_no_keyword[OF l(1)]
    have "\<not> has_prefix ''null'' (s @ x)" "\<not> has_prefix ''true'' (s @ x)" "\<not> has_prefix ''false'' (s @ x)"
      by (cases s; auto simp: has_prefix_def)+
    with lex_number_append[OF l(1,3), of x] l(2) show ?thesis
      by (simp add: lex_literal_def keywords_json_def)
  qed
qed

lemma parse_append:
  "parse_value f d s = Parsed v r \<Longrightarrow> r \<noteq> [] \<or> (\<forall>l. v \<noteq> JNum l) \<Longrightarrow> parse_value f d (s @ x) = Parsed v (r @ x)"
  "parse_elems f d s = Parsed vs r \<Longrightarrow> parse_elems f d (s @ x) = Parsed vs (r @ x)"
  "parse_members f d s = Parsed ms r \<Longrightarrow> parse_members f d (s @ x) = Parsed ms (r @ x)"
proof (induction f arbitrary: d s v vs ms r)
  case (Suc f)
  {
    case 1
    then obtain c t where s: "skip_space s = c # t" by (auto split: list.splits)
    note sx = skip_space_append[OF s, of x]
    consider "c = CHR ''{''" | "c = CHR ''[''" | "c = quote_char" | "c \<notin> {CHR ''{'', CHR ''['', quote_char}" by blast
    then show ?case
    proof cases
      case c: 1
      with 1(1) s obtain e u where u: "d \<noteq> 0" "skip_space t = e # u" by (auto split: if_splits list.splits)
      note ux = skip_space_append[OF u(2), of x]
      show ?thesis
      proof (cases "e = CHR ''}''")
        case True
        with 1(1) c s sx u ux show ?thesis by simp
      next
        case False
        with 1(1) c s u obtain ms where m: "parse_members f (d - 1) (e # u) = Parsed ms r" "v = JObj ms" by auto
        from Suc(3)[OF m(1)] c False sx u ux m(2) show ?thesis by simp
      qed
    next
      case c: 2
      with 1(1) s obtain e u where u: "d \<noteq> 0" "skip_space t = e # u" by (auto split: if_splits list.splits)
      note ux = skip_space_append[OF u(2), of x]
      show ?thesis
      proof (cases "e = CHR '']''")
        case True
        with 1(1) c s sx u ux show ?thesis by simp
      next
        case False
        with 1(1) c s u obtain ms where m: "parse_elems f (d - 1) (e # u) = Parsed ms r" "v = JArr ms" by auto
        from Suc(2)[OF m(1)] c False sx u ux m(2) show ?thesis by simp
      qed
    next
      case c: 3
      with 1(1) s obtain b where "decode_chars t = Some (b, r)" "v = JStr b" by (auto split: option.splits)
      with decode_chars_append[of t b r x] c s sx show ?thesis by simp
    next
      case c: 4
      with 1(1) s have l: "lex_literal (c # t) = Some (v, r)" by (auto split: option.splits)
      from lex_literal_append[OF l 1(2), of x] c s sx show ?thesis by simp
    qed
  next
    case 2
    then obtain w t where w: "parse_value f d s = Parsed w t" by (auto split: parsed.splits)
    with 2 obtain c u where u: "skip_space t = c # u" by (auto split: list.splits)
    then have "t \<noteq> []" by (auto simp: skip_space_def)
    with Suc(1)[OF w] have "parse_value f d (s @ x) = Parsed w (t @ x)" by blast
    note wx = this skip_space_append[OF u, of x]
    show ?case
    proof (cases "c = CHR '']''")
      case True
      with 2 w u wx show ?thesis by simp
    next
      case False
      with 2 w u obtain ws where ws: "c = CHR '',''" "parse_elems f d u = Parsed ws r" "vs = w # ws"
        by (auto split: if_splits)
      from Suc(2)[OF ws(2)] ws wx show ?thesis by simp
    qed
  next
    case 3
    then obtain t where s: "skip_space s = quote_char # t" by (auto split: list.splits if_splits)
    with 3 obtain k t1 where k: "decode_chars t = Some (k, t1)" by (auto split: option.splits)
    with 3 s obtain t2 where t2: "skip_space t1 = CHR '':'' # t2" by (auto split: list.splits if_splits)
    with 3 s k obtain w t3 where w: "parse_value f d t2 = Parsed w t3" by (auto split: parsed.splits)
    with 3 s k t2 obtain c u where u: "skip_space t3 = c # u" by (auto split: list.splits)
    then have "t3 \<noteq> []" by (auto simp: skip_space_def)
    with Suc(1)[OF w] have "parse_value f d (t2 @ x) = Parsed w (t3 @ x)" by blast
    note wx = this skip_space_append[OF s, of x] decode_chars_append[OF k, of x] skip_space_append[OF t2, of x]
      skip_space_append[OF u, of x]
    show ?case
    proof (cases "c = CHR ''}''")
      case True
      with 3 s k t2 w u wx show ?thesis by simp
    next
      case False
      with 3 s k t2 w u obtain ns where ns: "c = CHR '',''" "parse_members f d u = Parsed ns r" "ms = (k, w) # ns"
        by (auto split: if_splits)
      from Suc(3)[OF ns(2)] ns wx show ?thesis by simp
    qed
  }
qed simp_all

text \<open>
  So a proper beginning of a printed list or struct is never read as a value, except for white space
  at the end: the connection that breaks is told from one that does not.
\<close>

theorem cut_value_rejected:
  assumes "printable maxNestingDepth v" "ends v t" "\<forall>l. w \<noteq> JNum l" "decode_json s = Parsed w r" "s @ x = print_json v @ t"
  shows "w = valid_json v \<and> r @ x = t"
proof -
  have "parse_value (2 * length s + 1) maxNestingDepth (s @ x) = Parsed w (r @ x)"
    by (rule parse_append) (use assms(3,4) in \<open>simp_all only: decode_json_def simp_thms\<close>)
  then have "decode_json (s @ x) = Parsed w (r @ x)"
    using parse_fuel_mono(1)[of "2 * length s + 1" maxNestingDepth "s @ x" "2 * length x"]
    by (simp add: decode_json_def del: parse_value.simps)
  with json_roundtrip[OF assms(1,2)] assms(5) show ?thesis by simp
qed

declare valid_utf8.simps(2) [simp del]

end
