(* ===== verification/GoQuote.thy ===== *)
theory GoQuote
  imports GoJson
begin

text \<open>
  The verb \<open>%q\<close> of \<open>fmt\<close>, which is \<open>strconv.AppendQuote\<close>: a string in double quotes with Go's
  escapes. Which characters above U+00FF are printed as they are is in the Unicode tables of the
  Go release, the parameter \<open>wide\<close>.
\<close>

definition rune_value :: "bytes \<Rightarrow> nat" where
  "rune_value bs = (case map byte bs of
      [a] \<Rightarrow> a
    | [a, b] \<Rightarrow> (a mod 32) * 64 + b mod 64
    | [a, b, c] \<Rightarrow> (a mod 16) * 4096 + (b mod 64) * 64 + c mod 64
    | [a, b, c, d] \<Rightarrow> (a mod 8) * 262144 + (b mod 64) * 4096 + (c mod 64) * 64 + d mod 64
    | _ \<Rightarrow> 0)"

definition IsPrint :: "(nat \<Rightarrow> bool) \<Rightarrow> nat \<Rightarrow> bool" where
  "IsPrint wide r \<longleftrightarrow> (if r \<le> 255 then 32 \<le> r \<and> r < 127 \<or> 161 \<le> r \<and> r \<noteq> 173 else wide r)"

definition hex_low :: "nat \<Rightarrow> nat \<Rightarrow> string" where
  "hex_low k n = map (\<lambda>i. hex_digit (n div 16 ^ i mod 16)) (rev [0..<k])"

definition escape_code :: "nat \<Rightarrow> string" where
  "escape_code r =
     (if r = 7 then ''a'' else if r = 8 then ''b'' else if r = 12 then ''f'' else if r = 10 then ''n''
      else if r = 13 then ''r'' else if r = 9 then ''t'' else if r = 11 then ''v''
      else if r < 32 \<or> r = 127 then CHR ''x'' # hex_low 2 r
      else if r < 65536 then CHR ''u'' # hex_low 4 r
      else CHR ''U'' # hex_low 8 r)"

definition quote_rune :: "(nat \<Rightarrow> bool) \<Rightarrow> bytes \<Rightarrow> string" where
  "quote_rune wide bs = (let r = rune_value bs in
     if bs = [quote_char] \<or> bs = [backslash] then backslash # bs
     else if IsPrint wide r then bs
     else backslash # escape_code r)"

fun quote_body :: "(nat \<Rightarrow> bool) \<Rightarrow> bytes \<Rightarrow> string" where
  "quote_body wide [] = []"
| "quote_body wide (c # cs) = (case rune_size (c # cs) of
      0 \<Rightarrow> backslash # CHR ''x'' # hex_low 2 (byte c) @ quote_body wide cs
    | Suc n \<Rightarrow> quote_rune wide (c # take n cs) @ quote_body wide (drop n cs))"

definition go_quote :: "(nat \<Rightarrow> bool) \<Rightarrow> bytes \<Rightarrow> string" where
  "go_quote wide s = quote_char # quote_body wide s @ [quote_char]"

text \<open>What is quoted has no control character, so it stays on its line of a terminal or a log.\<close>

abbreviation visible :: "char \<Rightarrow> bool" where "visible c \<equiv> 32 \<le> byte c \<and> byte c \<noteq> 127"

lemma hex_low_visible: "c \<in> set (hex_low k n) \<Longrightarrow> visible c"
proof -
  have "\<forall>i \<in> set [0..<16]. visible (hex_digit i)" by code_simp
  then have "visible (hex_digit (m mod 16))" for m by simp
  then show "c \<in> set (hex_low k n) \<Longrightarrow> visible c" by (auto simp: hex_low_def)
qed

lemma rune_bytes_high:
  assumes "rune_size (c # cs) = Suc n" "128 \<le> byte c" "x \<in> set (c # take n cs)"
  shows "128 \<le> byte x"
  using assms by (auto simp: rune_size_def second_ok_def byte_in_def split: if_splits list.splits)

lemma quote_rune_visible:
  assumes "rune_size (c # cs) = Suc n" "x \<in> set (quote_rune wide (c # take n cs))"
  shows "visible x"
proof -
  have e: "visible x" if "x \<in> set (backslash # escape_code r)" for r
    using that hex_low_visible by (auto simp: escape_code_def split: if_splits)
  consider "x \<in> set (c # take n cs)" "IsPrint wide (rune_value (c # take n cs))"
    | "x = backslash" | "x = quote_char" | "x \<in> set (backslash # escape_code (rune_value (c # take n cs)))"
    using assms(2) by (auto simp: quote_rune_def Let_def split: if_splits)
  then show ?thesis
  proof cases
    case 1
    show ?thesis
    proof (cases "byte c < 128")
      case True
      with assms(1) have "n = 0" by (simp add: rune_size_def)
      with 1 True show ?thesis by (auto simp: rune_value_def IsPrint_def)
    next
      case False
      with rune_bytes_high[OF assms(1) _ 1(1)] show ?thesis by simp
    qed
  qed (use e in auto)
qed

theorem quoted_visible: "x \<in> set (go_quote wide s) \<Longrightarrow> visible x"
proof -
  have "visible x" if "x \<in> set (quote_body wide s)" for s
    using that
  proof (induction wide s rule: quote_body.induct)
    case (2 wide c cs)
    show ?case
    proof (cases "rune_size (c # cs)")
      case 0
      with 2 hex_low_visible show ?thesis by auto
    next
      case (Suc n)
      with 2 quote_rune_visible[OF Suc] show ?thesis by auto
    qed
  qed simp
  then show "x \<in> set (go_quote wide s) \<Longrightarrow> visible x" by (auto simp: go_quote_def)
qed

text \<open>A name of letters, digits and the signs of a path is quoted as it is.\<close>

lemma quote_plain:
  assumes "\<forall>c \<in> set s. 32 \<le> byte c \<and> byte c < 127 \<and> c \<noteq> quote_char \<and> c \<noteq> backslash"
  shows "go_quote wide s = quote_char # s @ [quote_char]"
proof -
  have "quote_body wide s = s"
    using assms by (induction s) (simp_all add: rune_size_def quote_rune_def rune_value_def IsPrint_def)
  then show ?thesis by (simp add: go_quote_def)
qed

end
