(* ===== verification/Receive.thy ===== *)
theory Receive
  imports Auth Store Hook GoQuote "HOL-Library.Multiset"
begin

text \<open>
  \<open>internal/githttp/receive.go\<close>: the write path. A push takes the lock of its repository and a
  nonce; the hook of git calls back with the nonce; the objects go to the store, and only
  then the refs move. The state \<open>writer\<close> holds the database, the object store, the locks
  that are taken, the nonces in flight and the outcomes that the HTTP handler reads later; the
  table \<open>wide_print\<close> of the standard library is what \<open>%q\<close> looks up (\<open>GoQuote\<close>).
\<close>

record pushOp =
  op_repo_id :: int
  op_repo_name :: string
  op_default_branch :: string
  op_admin :: bool
  op_outcome :: nat

record commit_info =
  ci_repo_id :: int
  ci_repo_name :: string
  ci_ref :: string
  ci_old :: string
  ci_new :: string

record 's writer =
  wdb :: db
  objects :: 's
  locks :: "string list"
  pushes :: "string \<Rightarrow> pushOp option"
  outcomes :: "nat \<Rightarrow> commit_info list"
  next_outcome :: nat
  wide_print :: "nat \<Rightarrow> bool"

record push =
  p_nonce :: string
  p_outcome :: nat
  p_lock :: string

datatype begin_error = BeginMeta meta_error | BeginRandom

section \<open>Begin and Release\<close>

definition on_wdb :: "'a dbop \<Rightarrow> 's writer \<Rightarrow> (begin_error + 'a) \<times> 's writer" where
  "on_wdb m w = (case m (wdb w) of (Inl e, d) \<Rightarrow> (Inl (BeginMeta e), w\<lparr>wdb := d\<rparr>)
     | (Inr x, d) \<Rightarrow> (Inr x, w\<lparr>wdb := d\<rparr>))"

definition register :: "bytes option \<Rightarrow> pushOp \<Rightarrow> 's writer \<Rightarrow> (begin_error + string) \<times> 's writer" where
  "register rnd pop w = (case rnd of None \<Rightarrow> (Inl BeginRandom, w)
     | Some b \<Rightarrow> (let nonce = hex_encode b in (Inr nonce, w\<lparr>pushes := (pushes w)(nonce \<mapsto> pop)\<rparr>)))"

definition unregister :: "string \<Rightarrow> 's writer \<Rightarrow> 's writer" where
  "unregister nonce w = w\<lparr>pushes := (pushes w)(nonce := None)\<rparr>"

definition take_nonce :: "string \<Rightarrow> 's writer \<Rightarrow> pushOp option \<times> 's writer" where
  "take_nonce nonce w = (case pushes w nonce of None \<Rightarrow> (None, w)
     | Some pop \<Rightarrow> (Some pop, w\<lparr>pushes := (pushes w)(nonce := None)\<rparr>))"

text \<open>What \<open>Begin\<close> reads before it asks for the lock: the repository and the pusher's level.\<close>

definition Begin_resolve :: "string \<Rightarrow> int \<Rightarrow> 's writer \<Rightarrow> (begin_error + repo \<times> bool) \<times> 's writer" where
  "Begin_resolve name pusher =
     bindE (on_wdb (GetRepo name)) (\<lambda>r.
       handleE (on_wdb (GetACL (repo_id r) pusher)) (\<lambda>p. case p of
           Inl e \<Rightarrow> if e = BeginMeta NotFound then retE (r, False) else errE e
         | Inr g \<Rightarrow> retE (r, g = PermAdmin)))"

definition Begin_register :: "string \<Rightarrow> bytes option \<Rightarrow> repo \<times> bool \<Rightarrow> 's writer \<Rightarrow>
    (begin_error + push) \<times> 's writer" where
  "Begin_register name rnd ra w =
     (let pop = \<lparr>op_repo_id = repo_id (fst ra), op_repo_name = name, op_default_branch = default_branch (fst ra),
                op_admin = snd ra, op_outcome = next_outcome w\<rparr>;
          w1 = w\<lparr>outcomes := (outcomes w)(next_outcome w := []), next_outcome := next_outcome w + 1\<rparr> in
      case register rnd pop w1 of
        (Inl e, w2) \<Rightarrow> (Inl e, w2)
      | (Inr nonce, w2) \<Rightarrow> (Inr \<lparr>p_nonce = nonce, p_outcome = op_outcome pop, p_lock = name\<rparr>,
                            w2\<lparr>locks := name # locks w2\<rparr>))"

text \<open>\<open>None\<close>: the lock of the name is taken, the call waits. A failed \<open>register\<close> gives it back.\<close>

definition Begin :: "string \<Rightarrow> int \<Rightarrow> bytes option \<Rightarrow> 's writer \<Rightarrow> ((begin_error + push) \<times> 's writer) option" where
  "Begin name pusher rnd w = (case Begin_resolve name pusher w of
       (Inl e, w1) \<Rightarrow> Some (Inl e, w1)
     | (Inr ra, w1) \<Rightarrow> if name \<in> set (locks w1) then None else Some (Begin_register name rnd ra w1))"

definition Release :: "push \<Rightarrow> 's writer \<Rightarrow> 's writer" where
  "Release p w = (unregister (p_nonce p) w)\<lparr>locks := remove1 (p_lock p) (locks w)\<rparr>"

section \<open>The objects of a push\<close>

datatype walk_entry = WalkDirEntry string | WalkFile string "bytes option" | WalkError

definition isObjectPath :: "string \<Rightarrow> bool" where
  "isObjectPath rel = (case cut ''/'' rel of None \<Rightarrow> False
     | Some (dir, _) \<Rightarrow> dir = ''pack'' \<or> length dir = 2 \<and> (\<forall>c \<in> set dir. c \<in> set ''0123456789abcdef''))"

definition object_key :: "string \<Rightarrow> string \<Rightarrow> string" where
  "object_key name rel = name @ ''/objects/'' @ rel"

fun putObjects :: "'s store_ops \<Rightarrow> string \<Rightarrow> walk_entry list \<Rightarrow> 's \<Rightarrow> (store_error + unit) \<times> 's" where
  "putObjects S name [] = retE ()"
| "putObjects S name (WalkError # es) = errE StoreFailed"
| "putObjects S name (WalkDirEntry d # es) = putObjects S name es"
| "putObjects S name (WalkFile rel data # es) =
     (if isObjectPath rel
      then bindE (Put S (object_key name rel) data) (\<lambda>_. putObjects S name es)
      else putObjects S name es)"

section \<open>The callback of the hook\<close>

definition guardDefault :: "pushOp \<Rightarrow> ref_command list \<Rightarrow> bool" where
  "guardDefault pop cs \<longleftrightarrow> op_admin pop \<or>
     \<not> (\<exists>c \<in> set cs. c_ref c = ''refs/heads/'' @ op_default_branch pop \<and> c_force c)"

definition update_of :: "ref_command \<Rightarrow> ref_update" where
  "update_of c = \<lparr>up_name = c_ref c, up_old = c_old c, up_new = c_new c\<rparr>"

definition commit_of :: "pushOp \<Rightarrow> ref_command \<Rightarrow> commit_info" where
  "commit_of pop c = \<lparr>ci_repo_id = op_repo_id pop, ci_repo_name = op_repo_name pop, ci_ref = c_ref c,
     ci_old = c_old c, ci_new = c_new c\<rparr>"

text \<open>\<open>CASMismatchError.Error\<close>.\<close>

definition mismatch_text :: "(nat \<Rightarrow> bool) \<Rightarrow> string \<Rightarrow> string \<Rightarrow> string \<Rightarrow> string" where
  "mismatch_text wide n want got = ''meta: ref '' @ go_quote wide n @ '' CAS mismatch: expected '' @
     go_quote wide (absentAsZero want) @ '', found '' @ go_quote wide (absentAsZero got)"

definition casPhase :: "pushOp \<Rightarrow> ref_command list \<Rightarrow> time \<Rightarrow> 's writer \<Rightarrow> response \<times> 's writer" where
  "casPhase pop cs ts w = (case CASRefs (op_repo_id pop) (map update_of cs) ts (wdb w) of
       (Inr _, d) \<Rightarrow> (Accepted, w\<lparr>wdb := d, outcomes := (outcomes w)(op_outcome pop := map (commit_of pop) cs)\<rparr>)
     | (Inl (CasMismatch n want got), d) \<Rightarrow>
         (Refused (''non-fast-forward (ref moved concurrently): '' @ mismatch_text (wide_print w) n want got), w\<lparr>wdb := d\<rparr>)
     | (Inl _, d) \<Rightarrow> (Refused ''ref update failed'', w\<lparr>wdb := d\<rparr>))"

definition handle_push :: "'s store_ops \<Rightarrow> (string \<Rightarrow> walk_entry list) \<Rightarrow> time \<Rightarrow> request \<Rightarrow> 's writer \<Rightarrow>
    response \<times> 's writer" where
  "handle_push S walk ts rq w =
     (case take_nonce (rq_nonce rq) w of
        (None, w1) \<Rightarrow> (Refused ''invalid or expired nonce'', w1)
      | (Some pop, w1) \<Rightarrow>
          if \<not> guardDefault pop (rq_commands rq)
          then (Refused (''force-push or deletion of the default branch '' @
                  go_quote (wide_print w1) (op_default_branch pop) @ '' requires admin''), w1)
          else (case putObjects S (op_repo_name pop) (walk (rq_quarantine rq)) (objects w1) of
              (Inl e, s) \<Rightarrow> (Refused ''object upload failed'', w1\<lparr>objects := s\<rparr>)
            | (Inr _, s) \<Rightarrow> casPhase pop (rq_commands rq) ts (w1\<lparr>objects := s\<rparr>)))"

definition FireAfterCommit :: "(int \<Rightarrow> commit_info list \<Rightarrow> 's \<Rightarrow> 's) option \<Rightarrow> int \<Rightarrow> commit_info list \<Rightarrow> 's \<Rightarrow> 's" where
  "FireAfterCommit after pusher commits s = (case after of None \<Rightarrow> s
     | Some f \<Rightarrow> if commits = [] then s else f pusher commits s)"

section \<open>Content before pointer\<close>

text \<open>
  \<open>complete A x\<close> stands for git's notion that the files \<open>A\<close> of an object directory hold
  everything that is reachable from the object \<open>x\<close>; more files never make it false.
\<close>

definition present :: "('s \<Rightarrow> string \<Rightarrow> bytes option) \<Rightarrow> 's \<Rightarrow> string \<Rightarrow> string set" where
  "present contents s name = {rel. contents s (object_key name rel) \<noteq> None}"

definition pushed :: "walk_entry list \<Rightarrow> string set" where
  "pushed es = {rel. isObjectPath rel \<and> (\<exists>d. WalkFile rel d \<in> set es)}"

definition content_ok :: "(string set \<Rightarrow> string \<Rightarrow> bool) \<Rightarrow> ('s \<Rightarrow> string \<Rightarrow> bytes option) \<Rightarrow> 's writer \<Rightarrow> bool" where
  "content_ok complete contents w \<longleftrightarrow> (\<forall>r \<in> set (repos (wdb w)). \<forall>n x.
     ref_map (wdb w) (repo_id r) n = Some x \<longrightarrow> complete (present contents (objects w) (repo_name r)) x)"

context object_store
begin

lemma putObjects_grows:
  "putObjects ops name es s = (r, t) \<Longrightarrow> contents s k \<noteq> None \<Longrightarrow> contents t k \<noteq> None"
proof (induction es arbitrary: s)
  case (Cons e es)
  show ?case
  proof (cases e)
    case (WalkFile rel data)
    show ?thesis
    proof (cases "isObjectPath rel")
      case True
      obtain x u where p: "Put ops (object_key name rel) data s = (x, u)"
        by (cases "Put ops (object_key name rel) data s")
      note kept = put_grows[OF p Cons.prems(2)]
      show ?thesis
      proof (cases x)
        case (Inl er)
        with Cons.prems(1) p WalkFile True kept show ?thesis by (simp add: bindE_def)
      next
        case (Inr v)
        with Cons.prems(1) p WalkFile True have "putObjects ops name es u = (r, t)" by (simp add: bindE_def)
        from Cons.IH[OF this kept] show ?thesis .
      qed
    qed (use Cons WalkFile in simp)
  qed (use Cons in \<open>simp_all add: errE_def\<close>)
qed (simp add: retE_def)

lemma putObjects_stored:
  "putObjects ops name es s = (Inr v, t) \<Longrightarrow> rel \<in> pushed es \<Longrightarrow> contents t (object_key name rel) \<noteq> None"
proof (induction es arbitrary: s)
  case (Cons e es)
  show ?case
  proof (cases e)
    case (WalkFile f data)
    show ?thesis
    proof (cases "isObjectPath f")
      case True
      with Cons.prems(1) WalkFile obtain u where
        p: "Put ops (object_key name f) data s = (Inr (), u)" "putObjects ops name es u = (Inr v, t)"
        by (auto simp: bindE_Inr)
      show ?thesis
      proof (cases "rel \<in> pushed es")
        case True
        with Cons.IH[OF p(2)] show ?thesis by simp
      next
        case False
        with Cons.prems(2) WalkFile have "rel = f" by (auto simp: pushed_def)
        with put_ok[OF p(1)] have "contents u (object_key name rel) \<noteq> None" by auto
        with putObjects_grows[OF p(2)] show ?thesis by simp
      qed
    next
      case False
      with Cons WalkFile show ?thesis by (auto simp: pushed_def)
    qed
  qed (use Cons in \<open>auto simp: errE_def pushed_def\<close>)
qed (simp add: pushed_def)

lemma present_grows:
  "putObjects ops name es s = (r, t) \<Longrightarrow> present contents s n \<subseteq> present contents t n"
  using putObjects_grows by (fastforce simp: present_def)

lemma present_pushed:
  "putObjects ops name es s = (Inr v, t) \<Longrightarrow> present contents s name \<union> pushed es \<subseteq> present contents t name"
  using putObjects_grows putObjects_stored by (fastforce simp: present_def)

end

lemma refs_frame_tables: "refs_frame s t \<Longrightarrow> repos t = repos s \<and> acls t = acls s \<and> jobs t = jobs s"
  by (cases s; cases t) (simp add: refs_frame_def)

lemma CASRefs_repos: "CASRefs repo us ts s = (r, t) \<Longrightarrow> repos t = repos s"
  using refs_frame_tables[OF CASRefs_frame] by blast

lemma casPhase_wdb:
  "casPhase pop cs ts w = (resp, w') \<Longrightarrow>
   \<exists>r d. CASRefs (op_repo_id pop) (map update_of cs) ts (wdb w) = (r, d) \<and> wdb w' = d \<and> objects w' = objects w \<and>
     (resp = Accepted \<longleftrightarrow> r = Inr ())"
  by (auto simp: casPhase_def split: prod.splits sum.splits meta_error.splits)

text \<open>The bodies of \<open>handle\<close>: what an accepted and what a refused call did.\<close>

lemma handle_accepted:
  assumes "handle_push S walk ts rq w = (Accepted, w')"
  obtains pop v s where "pushes w (rq_nonce rq) = Some pop" "guardDefault pop (rq_commands rq)"
    "putObjects S (op_repo_name pop) (walk (rq_quarantine rq)) (objects w) = (Inr v, s)"
    "casPhase pop (rq_commands rq) ts (w\<lparr>pushes := (pushes w)(rq_nonce rq := None), objects := s\<rparr>) = (Accepted, w')"
  using assms
  by (auto simp: handle_push_def take_nonce_def split: option.splits if_splits prod.splits sum.splits)

lemma handle_cases:
  assumes "handle_push S walk ts rq w = (resp, w')"
  obtains "resp \<noteq> Accepted" "wdb w' = wdb w" "objects w' = objects w"
  | pop :: pushOp and e s where "resp \<noteq> Accepted" "wdb w' = wdb w"
    "putObjects S (op_repo_name pop) (walk (rq_quarantine rq)) (objects w) = (Inl e, s)" "objects w' = s"
  | pop v s where "pushes w (rq_nonce rq) = Some pop"
    "putObjects S (op_repo_name pop) (walk (rq_quarantine rq)) (objects w) = (Inr v, s)" "objects w' = s"
    "casPhase pop (rq_commands rq) ts (w\<lparr>pushes := (pushes w)(rq_nonce rq := None), objects := s\<rparr>) = (resp, w')"
proof (cases "pushes w (rq_nonce rq)")
  case None
  with assms that(1) show thesis by (auto simp: handle_push_def take_nonce_def)
next
  case pop: (Some pop)
  obtain x s where p: "putObjects S (op_repo_name pop) (walk (rq_quarantine rq)) (objects w) = (x, s)"
    by (cases "putObjects S (op_repo_name pop) (walk (rq_quarantine rq)) (objects w)")
  show thesis
  proof (cases "guardDefault pop (rq_commands rq)")
    case False
    with assms pop that(1) show thesis by (auto simp: handle_push_def take_nonce_def)
  next
    case True
    show thesis
    proof (cases x)
      case (Inl e)
      with True assms pop p that(2)[of pop e s] show thesis
        by (auto simp: handle_push_def take_nonce_def)
    next
      case (Inr v)
      with True assms pop p have c: "casPhase pop (rq_commands rq) ts
          (w\<lparr>pushes := (pushes w)(rq_nonce rq := None), objects := s\<rparr>) = (resp, w')"
        by (auto simp: handle_push_def take_nonce_def)
      with casPhase_wdb[OF c] have "objects w' = s" by auto
      with that(3)[OF pop p[unfolded Inr] _ c] show thesis by blast
    qed
  qed
qed

definition sample_push :: "string \<Rightarrow> pushOp" where
  "sample_push name = \<lparr>op_repo_id = 2, op_repo_name = name, op_default_branch = ''main'', op_admin = False, op_outcome = 0\<rparr>"

definition sample_writer :: "string \<Rightarrow> mem writer" where
  "sample_writer name = \<lparr>wdb = sample_db, objects = [], locks = [name], pushes = [''n1'' \<mapsto> sample_push name],
     outcomes = (\<lambda>_. []), next_outcome = 1, wide_print = (\<lambda>_. True)\<rparr>"

definition sample_walk :: "string \<Rightarrow> walk_entry list" where
  "sample_walk q = [WalkDirEntry ''pack'', WalkFile ''pack/p1.pack'' (Some ''x''), WalkFile ''info/alternates'' (Some ''y'')]"

definition sample_request :: request where
  "sample_request = \<lparr>rq_nonce = ''n1'', rq_commands =
     map (mark_force (\<lambda>_ _. True)) [\<lparr>c_old = sha1_a, c_new = sha1_b, c_ref = ''refs/heads/main'', c_force = False\<rparr>],
     rq_quarantine = ''/q''\<rparr>"

definition sample_complete :: "string set \<Rightarrow> string \<Rightarrow> bool" where
  "sample_complete A x \<longleftrightarrow> x = sha1_a \<or> ''pack/p1.pack'' \<in> A"

lemma sample_handle:
  "\<exists>w'. handle_push Mem sample_walk 5 sample_request (sample_writer ''app'') = (Accepted, w')"
  "\<exists>w'. handle_push Mem sample_walk 5 sample_request (sample_writer ''app.git'') = (Accepted, w')"
proof -
  have "fst (handle_push Mem sample_walk 5 sample_request (sample_writer ''app'')) = Accepted"
    "fst (handle_push Mem sample_walk 5 sample_request (sample_writer ''app.git'')) = Accepted"
    by code_simp+
  then show "\<exists>w'. handle_push Mem sample_walk 5 sample_request (sample_writer ''app'') = (Accepted, w')"
    "\<exists>w'. handle_push Mem sample_walk 5 sample_request (sample_writer ''app.git'') = (Accepted, w')"
    by (metis prod.collapse)+
qed

lemma sample_pushed: "pushed (sample_walk q) = {''pack/p1.pack''}"
proof -
  have "isObjectPath ''pack/p1.pack''" "\<not> isObjectPath ''info/alternates''" by code_simp+
  then show ?thesis by (auto simp: pushed_def sample_walk_def)
qed

lemma sample_content_ok: "content_ok sample_complete map_of (sample_writer name)"
  by (auto simp: content_ok_def sample_complete_def sample_writer_def sample_db_def ref_lookup_def split: if_splits)



lemma handle_accepted_moves:
  assumes "object_store contents S" "db_ok (wdb w)" "handle_push S walk ts rq w = (Accepted, w')"
  obtains pop where "pushes w (rq_nonce rq) = Some pop" "guardDefault pop (rq_commands rq)"
    "abs_cas (map update_of (rq_commands rq)) (ref_map (wdb w) (op_repo_id pop)) =
       Some (ref_map (wdb w') (op_repo_id pop))"
    "\<forall>i. i \<noteq> op_repo_id pop \<longrightarrow> ref_map (wdb w') i = ref_map (wdb w) i"
    "pushed (walk (rq_quarantine rq)) \<subseteq> present contents (objects w') (op_repo_name pop)"
    "outcomes w' (op_outcome pop) = map (commit_of pop) (rq_commands rq)"
proof -
  from assms(3) obtain pop v s where h: "pushes w (rq_nonce rq) = Some pop" "guardDefault pop (rq_commands rq)"
    "putObjects S (op_repo_name pop) (walk (rq_quarantine rq)) (objects w) = (Inr v, s)"
    "casPhase pop (rq_commands rq) ts (w\<lparr>pushes := (pushes w)(rq_nonce rq := None), objects := s\<rparr>) = (Accepted, w')"
    by (auto elim: handle_accepted)
  from casPhase_wdb[OF h(4)] have
    cas: "CASRefs (op_repo_id pop) (map update_of (rq_commands rq)) ts (wdb w) = (Inr (), wdb w')"
    and ob: "objects w' = s" by auto
  have "outcomes w' (op_outcome pop) = map (commit_of pop) (rq_commands rq)"
    using h(4) by (auto simp: casPhase_def split: prod.splits sum.splits meta_error.splits)
  with CASRefs_Inr[OF assms(2) cas] object_store.present_pushed[OF assms(1) h(3)] h(1,2) ob that
  show thesis by auto
qed

lemma handle_refused_keeps:
  assumes "handle_push S walk ts rq w = (Refused why, w')"
  shows "ref_map (wdb w') = ref_map (wdb w)" "outcomes w' = outcomes w"
proof -
  show "outcomes w' = outcomes w"
    using assms
    by (auto simp: handle_push_def take_nonce_def casPhase_def
        split: option.splits if_splits prod.splits sum.splits meta_error.splits)
  from assms show "ref_map (wdb w') = ref_map (wdb w)"
  proof (cases rule: handle_cases)
    case (3 pop v s)
    from casPhase_wdb[OF 3(4)] obtain r where
      "CASRefs (op_repo_id pop) (map update_of (rq_commands rq)) ts (wdb w) = (r, wdb w')" "r \<noteq> Inr ()" by auto
    then obtain e where
      "CASRefs (op_repo_id pop) (map update_of (rq_commands rq)) ts (wdb w) = (Inl e, wdb w')" by (cases r) auto
    from CASRefs_Inl[OF this] show ?thesis by auto
  qed auto
qed

text \<open>
  C3. The verdict of the callback is the truth: an accepted push moved exactly its refs, as the
  compare-and-swap says, with every pushed object in the store, and its outcome lists its
  commands; a refused push moved no ref. In both cases the nonce is spent.
\<close>

theorem handle_verdict:
  assumes "object_store contents S" "db_ok (wdb w)" "handle_push S walk ts rq w = (resp, w')"
  shows "pushes w' (rq_nonce rq) = None \<and>
    (case resp of
       Accepted \<Rightarrow> (\<exists>pop. pushes w (rq_nonce rq) = Some pop \<and>
         abs_cas (map update_of (rq_commands rq)) (ref_map (wdb w) (op_repo_id pop)) =
           Some (ref_map (wdb w') (op_repo_id pop)) \<and>
         (\<forall>i. i \<noteq> op_repo_id pop \<longrightarrow> ref_map (wdb w') i = ref_map (wdb w) i) \<and>
         pushed (walk (rq_quarantine rq)) \<subseteq> present contents (objects w') (op_repo_name pop) \<and>
         outcomes w' (op_outcome pop) = map (commit_of pop) (rq_commands rq))
     | Refused why \<Rightarrow> ref_map (wdb w') = ref_map (wdb w) \<and> outcomes w' = outcomes w)"
proof -
  have "pushes w' (rq_nonce rq) = None"
    using assms(3)
    by (auto simp: handle_push_def take_nonce_def casPhase_def
        split: option.splits if_splits prod.splits sum.splits meta_error.splits)
  then show ?thesis
  proof (cases resp)
    case Accepted
    with assms(3) have "handle_push S walk ts rq w = (Accepted, w')" by simp
    then show ?thesis
      by (rule handle_accepted_moves[OF assms(1,2)]) (use Accepted \<open>pushes w' (rq_nonce rq) = None\<close> in auto)
  next
    case (Refused why)
    with assms(3) handle_refused_keeps[of S walk ts rq w why w'] \<open>pushes w' (rq_nonce rq) = None\<close>
    show ?thesis by simp
  qed
qed

lemma handle_verdict_witness:
  "\<exists>w'. handle_push Mem sample_walk 5 sample_request (sample_writer ''app'') = (Accepted, w') \<and>
     pushes w' ''n1'' = None \<and> pushed (sample_walk ''/q'') \<subseteq> present map_of (objects w') ''app''"
proof -
  obtain w' where h: "handle_push Mem sample_walk 5 sample_request (sample_writer ''app'') = (Accepted, w')"
    using sample_handle(1) by blast
  have "db_ok (wdb (sample_writer ''app''))" by (simp add: sample_writer_def)
  from handle_verdict[OF mem.object_store_axioms this h] h show ?thesis
    by (auto simp: sample_request_def sample_writer_def sample_push_def)
qed

text \<open>
  The objects of a push go under the name that its URL spells, not under the name of the
  repository that \<open>GetRepo\<close> found. So a push to a spelling that only resolves to the repository,
  such as one with a \<open>.git\<close> suffix, moves its refs without adding anything to its objects.
\<close>

theorem push_under_other_name_adds_nothing:
  assumes "object_store contents S" "handle_push S walk ts rq w = (Accepted, w')"
    and "pushes w (rq_nonce rq) = Some pop" "op_repo_name pop \<noteq> name"
    and "CHR ''/'' \<notin> set name" "CHR ''/'' \<notin> set (op_repo_name pop)"
  shows "present contents (objects w') name = present contents (objects w) name"
proof -
  from assms(2,3) obtain v s where h:
    "putObjects S (op_repo_name pop) (walk (rq_quarantine rq)) (objects w) = (Inr v, s)" "objects w' = s"
    by (auto elim!: handle_accepted dest!: casPhase_wdb)
  have key: "object_key name a \<noteq> object_key (op_repo_name pop) b" for a b
  proof
    assume "object_key name a = object_key (op_repo_name pop) b"
    then have "cut ''/'' (object_key name a) = cut ''/'' (object_key (op_repo_name pop) b)" by simp
    with assms(4-6) show False by (simp add: object_key_def cut_char)
  qed
  have "contents t (object_key name a) = contents u (object_key name a)"
    if "putObjects S (op_repo_name pop) es u = (r, t)" for es u r t a
    using that
  proof (induction es arbitrary: u)
    case (Cons e es)
    show ?case
    proof (cases e)
      case (WalkFile f data)
      show ?thesis
      proof (cases "isObjectPath f")
        case True
        obtain x u1 where p: "Put S (object_key (op_repo_name pop) f) data u = (x, u1)"
          by (cases "Put S (object_key (op_repo_name pop) f) data u")
        have "contents u1 (object_key name a) = contents u (object_key name a)"
          by (rule object_store.put_other[OF assms(1) p key])
        with Cons p WalkFile True show ?thesis by (cases x) (auto simp: bindE_def)
      qed (use Cons WalkFile in simp)
    qed (use Cons in \<open>simp_all add: errE_def\<close>)
  qed (simp add: retE_def)
  from this[OF h(1)] h(2) show ?thesis by (simp add: present_def)
qed

lemma push_under_other_name_adds_nothing_witness:
  "\<exists>w'. handle_push Mem sample_walk 5 sample_request (sample_writer ''app.git'') = (Accepted, w') \<and>
     present map_of (objects w') ''app'' = {} \<and> ref_map (wdb w') 2 ''refs/heads/main'' = Some sha1_b \<and>
     \<not> content_ok sample_complete map_of w'"
proof -
  obtain w' where h: "handle_push Mem sample_walk 5 sample_request (sample_writer ''app.git'') = (Accepted, w')"
    using sample_handle(2) by blast
  have p: "pushes (sample_writer ''app.git'') (rq_nonce sample_request) = Some (sample_push ''app.git'')"
    by (simp add: sample_writer_def sample_request_def)
  have "present map_of (objects w') ''app'' = present map_of (objects (sample_writer ''app.git'')) ''app''"
    by (rule push_under_other_name_adds_nothing[OF mem.object_store_axioms h p])
       (simp_all add: sample_push_def)
  then have none: "present map_of (objects w') ''app'' = {}" by (simp add: present_def sample_writer_def)
  have "ref_map (wdb (snd (handle_push Mem sample_walk 5 sample_request (sample_writer ''app.git'')))) 2 ''refs/heads/main''
      = Some sha1_b"
    "repos (wdb (snd (handle_push Mem sample_walk 5 sample_request (sample_writer ''app.git'')))) = repos sample_db"
    by code_simp+
  with h have r: "ref_map (wdb w') 2 ''refs/heads/main'' = Some sha1_b" "repos (wdb w') = repos sample_db" by auto
  have "\<not> content_ok sample_complete map_of w'"
  proof
    assume c: "content_ok sample_complete map_of w'"
    let ?r = "\<lparr>repo_id = 2, repo_name = ''app'', default_branch = ''main'', visibility = ''private'', repo_created = 0\<rparr>"
    have "?r \<in> set (repos (wdb w'))" using r(2) by (simp add: sample_db_def)
    with c r(1) have "sample_complete (present map_of (objects w') ''app'') sha1_b"
      unfolding content_ok_def by (metis repo.select_convs(1,2))
    with none show False by (simp add: sample_complete_def sha1_a_def sha1_b_def)
  qed
  with h none r show ?thesis by blast
qed



section \<open>A nonce is good for one call\<close>

datatype 's writer_op =
    WBegin string int "bytes option"
  | WHandle "'s store_ops" "string \<Rightarrow> walk_entry list" time request
  | WRelease push

text \<open>\<open>True\<close>: a callback was taken for a push in flight.\<close>

fun exec_writer :: "'s writer_op \<Rightarrow> 's writer \<Rightarrow> bool \<times> 's writer" where
  "exec_writer (WBegin name pusher rnd) w =
     (case Begin name pusher rnd w of None \<Rightarrow> (False, w) | Some (r, w1) \<Rightarrow> (False, w1))"
| "exec_writer (WHandle S walk ts rq) w = (pushes w (rq_nonce rq) \<noteq> None, snd (handle_push S walk ts rq w))"
| "exec_writer (WRelease p) w = (False, Release p w)"

fun mints :: "string \<Rightarrow> 's writer_op \<Rightarrow> bool" where
  "mints n (WBegin name pusher (Some b)) = (hex_encode b = n)"
| "mints n _ = False"

fun calls_back :: "string \<Rightarrow> 's writer_op \<Rightarrow> bool" where
  "calls_back n (WHandle S walk ts rq) = (rq_nonce rq = n)"
| "calls_back n _ = False"

lemma handle_pushes: "pushes (snd (handle_push S walk ts rq w)) = (pushes w)(rq_nonce rq := None)"
  by (auto simp: handle_push_def take_nonce_def casPhase_def fun_eq_iff
      split: option.splits prod.splits sum.splits meta_error.splits)

lemma Begin_resolve_pushes:
  "Begin_resolve name pusher w = (r, w') \<Longrightarrow> pushes w' = pushes w \<and> locks w' = locks w"
  by (auto simp: Begin_resolve_def bindE_def handleE_def on_wdb_def retE_def errE_def
      split: prod.splits sum.splits if_splits)

lemma Begin_pushes:
  assumes "Begin name pusher rnd w = Some (r, w')" "\<forall>b. rnd = Some b \<longrightarrow> hex_encode b \<noteq> n"
  shows "pushes w' n = pushes w n"
  using assms
  by (auto simp: Begin_def Begin_register_def register_def Let_def dest!: Begin_resolve_pushes
      split: prod.splits sum.splits if_splits option.splits)

interpretation nonce: one_shot exec_writer "calls_back n" "\<lambda>x. \<not> mints n x" "\<lambda>w. pushes w n = None" for n
proof (unfold_locales, goal_cases)
  case (1 x s t)
  then show ?case by (cases x) (auto simp: handle_pushes)
next
  case (2 x s)
  show ?case
  proof (cases x)
    case (WBegin name pusher rnd)
    with 2 Begin_pushes[of name pusher rnd s _ _ n] show ?thesis
      by (cases rnd) (auto split: option.splits)
  qed (use 2 in \<open>auto simp: handle_pushes Release_def unregister_def\<close>)
next
  case (3 x s)
  then show ?case by (cases x) auto
qed

text \<open>
  However pushes, callbacks and cleanups interleave, a nonce authenticates at most one
  callback, unless the random source repeats it.
\<close>

theorem nonce_single_use:
  assumes "\<forall>x \<in> set xs. \<not> mints n x"
  shows "length (filter (\<lambda>(x, taken). calls_back n x \<and> taken) (fst (exec_all exec_writer xs w))) \<le> 1"
  by (rule nonce.at_most_once[OF assms])

lemma nonce_single_use_witness:
  "length (filter (\<lambda>(x, taken). calls_back ''n1'' x \<and> taken) (fst (exec_all exec_writer
     [WHandle Mem sample_walk 5 sample_request, WBegin ''site'' 2 (Some ''z''),
      WHandle Mem sample_walk 6 sample_request] (sample_writer ''app'')))) \<le> 1"
proof (rule nonce_single_use)
  have "hex_encode ''z'' \<noteq> ''n1''" by code_simp
  then show "\<forall>x \<in> set [WHandle Mem sample_walk 5 sample_request, WBegin ''site'' 2 (Some ''z''),
      WHandle Mem sample_walk 6 sample_request]. \<not> mints ''n1'' x" by simp
qed

section \<open>Pushes to one repository\<close>

text \<open>The pushes in flight, each between its \<open>Begin\<close> and its \<open>Release\<close>.\<close>

inductive writer_step :: "'s writer \<times> push list \<Rightarrow> 's writer \<times> push list \<Rightarrow> bool" where
  enter: "Begin name pusher rnd w = Some (Inr p, w') \<Longrightarrow> writer_step (w, live) (w', p # live)"
| enter_failed: "Begin name pusher rnd w = Some (Inl e, w') \<Longrightarrow> writer_step (w, live) (w', live)"
| callback: "handle_push S walk ts rq w = (resp, w') \<Longrightarrow> writer_step (w, live) (w', live)"
| release: "p \<in> set live \<Longrightarrow> writer_step (w, live) (Release p w, remove1 p live)"

inductive_cases writer_stepE: "writer_step s t"

definition locks_ok :: "'s writer \<times> push list \<Rightarrow> bool" where
  "locks_ok s \<longleftrightarrow> mset (locks (fst s)) = mset (map p_lock (snd s)) \<and> distinct (locks (fst s))"

lemma handle_locks: "handle_push S walk ts rq w = (resp, w') \<Longrightarrow> locks w' = locks w"
  by (auto simp: handle_push_def take_nonce_def casPhase_def
      split: option.splits prod.splits sum.splits meta_error.splits if_splits)

lemma Begin_locks:
  assumes "Begin name pusher rnd w = Some (r, w')"
  shows "case r of Inl e \<Rightarrow> locks w' = locks w
    | Inr p \<Rightarrow> p_lock p = name \<and> name \<notin> set (locks w) \<and> locks w' = name # locks w"
  using assms
  by (auto simp: Begin_def Begin_register_def register_def Let_def dest!: Begin_resolve_pushes
      split: prod.splits sum.splits if_splits option.splits)

lemma locks_ok_step: "writer_step s t \<Longrightarrow> locks_ok s \<Longrightarrow> locks_ok t"
proof (induction rule: writer_step.induct)
  case (enter name pusher rnd w p w' live)
  with Begin_locks[OF enter(1)] show ?case by (auto simp: locks_ok_def)
next
  case (enter_failed name pusher rnd w e w' live)
  with Begin_locks[OF enter_failed(1)] show ?case by (auto simp: locks_ok_def)
next
  case (callback S walk ts rq w resp w' live)
  with handle_locks[OF callback(1)] show ?case by (auto simp: locks_ok_def)
next
  case (release p live w)
  have "mset (map p_lock (remove1 p live)) = mset (map p_lock live) - {#p_lock p#}"
    using release(1) by (simp add: image_mset_Diff)
  with release(2) show ?case by (auto simp: locks_ok_def Release_def unregister_def)
qed

text \<open>
  C8. Pushes are serialized by name: in every state that the write path can reach, no two
  pushes in flight hold the lock of the same repository name.
\<close>

theorem pushes_serialized:
  assumes "writer_step\<^sup>*\<^sup>* (w0, []) (w, live)" "locks w0 = []"
  shows "distinct (map p_lock live) \<and> set (locks w) = p_lock ` set live"
proof -
  have "locks_ok (w, live)"
    using assms(1)
  proof (induction rule: rtranclp_induct)
    case base
    then show ?case using assms(2) by (simp add: locks_ok_def)
  next
    case (step s t)
    then show ?case using locks_ok_step by blast
  qed
  then have m: "mset (locks w) = mset (map p_lock live)" "distinct (locks w)" by (auto simp: locks_ok_def)
  then have "set (locks w) = set (map p_lock live)" by (metis set_mset_mset)
  moreover have "distinct (map p_lock live)" using m by (metis distinct_count_atmost_1 set_mset_mset)
  ultimately show ?thesis by simp
qed

definition idle_writer :: "mem writer" where
  "idle_writer = \<lparr>wdb = sample_db, objects = [], locks = [], pushes = (\<lambda>_. None), outcomes = (\<lambda>_. []), next_outcome = 0, wide_print = (\<lambda>_. True)\<rparr>"

text \<open>Two pushes to one repository are in flight at once, if one of them spells \<open>.git\<close>.\<close>

lemma pushes_serialized_witness:
  "\<exists>w p q. writer_step\<^sup>*\<^sup>* (idle_writer, []) (w, [q, p]) \<and> p_lock p = ''app'' \<and> p_lock q = ''app.git'' \<and>
     map_option op_repo_id (pushes w (p_nonce p)) = Some 2 \<and> map_option op_repo_id (pushes w (p_nonce q)) = Some 2 \<and>
     distinct (map p_lock [q, p])"
proof -
  let ?b1 = "Begin ''app'' 2 (Some ''1'') idle_writer"
  have "case ?b1 of Some (Inr p, w) \<Rightarrow> True | _ \<Rightarrow> False" by code_simp
  then obtain p w1 where 1: "?b1 = Some (Inr p, w1)" by (auto split: option.splits prod.splits sum.splits)
  let ?b2 = "Begin ''app.git'' 2 (Some ''2'') w1"
  have "case ?b1 of Some (Inr p, w) \<Rightarrow> (case Begin ''app.git'' 2 (Some ''2'') w of Some (Inr q, w') \<Rightarrow>
       map_option op_repo_id (pushes w' (p_nonce p)) = Some 2 \<and> map_option op_repo_id (pushes w' (p_nonce q)) = Some 2
       | _ \<Rightarrow> False) | _ \<Rightarrow> False"
    by code_simp
  with 1 obtain q w2 where 2: "?b2 = Some (Inr q, w2)" "map_option op_repo_id (pushes w2 (p_nonce p)) = Some 2"
      "map_option op_repo_id (pushes w2 (p_nonce q)) = Some 2"
    by (auto split: option.splits prod.splits sum.splits)
  have "writer_step (idle_writer, []) (w1, [p])" by (rule writer_step.enter[OF 1])
  moreover have "writer_step (w1, [p]) (w2, [q, p])" by (rule writer_step.enter[OF 2(1)])
  ultimately have r: "writer_step\<^sup>*\<^sup>* (idle_writer, []) (w2, [q, p])" by auto
  have "locks idle_writer = []" by (simp add: idle_writer_def)
  from pushes_serialized[OF r this] have "distinct (map p_lock [q, p])" by blast
  moreover have "p_lock p = ''app''" "p_lock q = ''app.git''" using Begin_locks[OF 1] Begin_locks[OF 2(1)] by auto
  ultimately show ?thesis
    using r 2(2,3) by (intro exI[of _ w2] exI[of _ p] exI[of _ q]) simp
qed

end
