(* ===== verification/GoPath.thy ===== *)
theory GoPath
  imports Prelude
begin

text \<open>
  Go's \<open>path\<close> package: \<open>Clean\<close>, \<open>Join\<close>, \<open>Base\<close> and \<open>IsAbs\<close>. \<open>Clean\<close> goes over the segments of
  the path with the stack of those it keeps; \<open>filepath\<close> is the same on the systems that
  the server runs on.
\<close>

fun clean_step :: "bool \<Rightarrow> string list \<Rightarrow> string \<Rightarrow> string list" where
  "clean_step rooted st p =
     (if p = [] \<or> p = ''.'' then st
      else if p = ''..'' then
        (case st of [] \<Rightarrow> if rooted then [] else [''..'']
         | x # xs \<Rightarrow> if x = ''..'' then ''..'' # st else xs)
      else p # st)"

definition clean_segments :: "bool \<Rightarrow> string list \<Rightarrow> string list" where
  "clean_segments rooted ps = rev (foldl (clean_step rooted) [] ps)"

definition is_abs :: "string \<Rightarrow> bool" where
  "is_abs s = has_prefix ''/'' s"

definition path_clean :: "string \<Rightarrow> string" where
  "path_clean s = (let body = join_with ''/'' (clean_segments (is_abs s) (split_on (CHR ''/'') s)) in
     if is_abs s then ''/'' @ body else if body = [] then ''.'' else body)"

definition path_join :: "string list \<Rightarrow> string" where
  "path_join ps = (let qs = filter (\<lambda>p. p \<noteq> []) ps in if qs = [] then [] else path_clean (join_with ''/'' qs))"

definition path_base :: "string \<Rightarrow> string" where
  "path_base s = (if s = [] then ''.''
     else (let t = rev (dropWhile (\<lambda>c. c = CHR ''/'') (rev s)) in
       if t = [] then ''/'' else last (split_on (CHR ''/'') t)))"

text \<open>The segments that \<open>Clean\<close> keeps: proper names, behind \<open>..\<close> segments only at the front.\<close>

definition segment :: "string \<Rightarrow> bool" where
  "segment p \<longleftrightarrow> p \<noteq> [] \<and> p \<noteq> ''.'' \<and> CHR ''/'' \<notin> set p"

definition cleaned :: "bool \<Rightarrow> string list \<Rightarrow> bool" where
  "cleaned rooted st \<longleftrightarrow> (\<forall>p \<in> set st. segment p) \<and> (\<exists>xs k. st = xs @ replicate k ''..'' \<and> ''..'' \<notin> set xs \<and>
     (rooted \<longrightarrow> k = 0))"

lemma cleaned_Nil [simp]: "cleaned rooted []"
  unfolding cleaned_def by (rule conjI, simp) (rule exI[of _ "[]"], rule exI[of _ 0], simp)

lemma cleaned_step:
  assumes "cleaned rooted st" "CHR ''/'' \<notin> set p"
  shows "cleaned rooted (clean_step rooted st p)"
proof -
  from assms(1) obtain xs k where st: "st = xs @ replicate k ''..''" "''..'' \<notin> set xs" "rooted \<longrightarrow> k = 0"
    and seg: "\<forall>p \<in> set st. segment p"
    by (auto simp: cleaned_def)
  consider "p = [] \<or> p = ''.''" | "p = ''..''" | "p \<noteq> []" "p \<noteq> ''.''" "p \<noteq> ''..''" by blast
  then show ?thesis
  proof cases
    case 2
    show ?thesis
    proof (cases xs)
      case Nil
      have "cleaned rooted (replicate (Suc k) ''..'')" if "\<not> rooted"
        unfolding cleaned_def using that
        by (intro conjI exI[of _ "[]"] exI[of _ "Suc k"]) (auto simp: segment_def)
      with st(3) Nil st(1) 2 show ?thesis by (cases k) auto
    next
      case (Cons x ys)
      with st(2) have "x \<noteq> ''..''" by auto
      with Cons st(1) 2 have "clean_step rooted st p = ys @ replicate k ''..''" by simp
      with st Cons seg show ?thesis unfolding cleaned_def by auto
    qed
  next
    case 3
    then have "clean_step rooted st p = p # st" by simp
    moreover have "cleaned rooted (p # st)"
      unfolding cleaned_def
      by (intro conjI exI[of _ "p # xs"] exI[of _ k]) (use 3 st seg assms(2) in \<open>auto simp: segment_def\<close>)
    ultimately show ?thesis by simp
  qed (use assms in auto)
qed

lemma cleaned_foldl:
  "cleaned rooted st \<Longrightarrow> \<forall>p \<in> set ps. CHR ''/'' \<notin> set p \<Longrightarrow> cleaned rooted (foldl (clean_step rooted) st ps)"
proof (induction ps arbitrary: st)
  case (Cons p ps)
  from Cons.prems have "cleaned rooted (clean_step rooted st p)" by (intro cleaned_step) auto
  with Cons show ?case by (simp del: clean_step.simps)
qed simp

lemma clean_segments_shape:
  assumes "\<forall>p \<in> set ps. CHR ''/'' \<notin> set p"
  obtains k xs where "clean_segments rooted ps = replicate k ''..'' @ xs" "''..'' \<notin> set xs"
    "\<forall>p \<in> set (clean_segments rooted ps). segment p" "rooted \<Longrightarrow> k = 0"
proof -
  have "cleaned rooted (foldl (clean_step rooted) [] ps)"
    using assms by (intro cleaned_foldl) auto
  then obtain xs k where "foldl (clean_step rooted) [] ps = xs @ replicate k ''..''" "''..'' \<notin> set xs"
    "\<forall>p \<in> set (foldl (clean_step rooted) [] ps). segment p" "rooted \<longrightarrow> k = 0"
    by (auto simp: cleaned_def)
  then show thesis
    by (intro that[of k "rev xs"]) (auto simp: clean_segments_def)
qed

text \<open>A relative path that \<open>Clean\<close> leaves alone is the list of segments that it keeps.\<close>

lemma path_clean_fixed:
  assumes "path_clean s = s" "\<not> is_abs s" "s \<noteq> ''.''"
  shows "split_on (CHR ''/'') s = clean_segments False (split_on (CHR ''/'') s)"
proof -
  let ?c = "clean_segments False (split_on (CHR ''/'') s)"
  have j: "join_with ''/'' ?c = s" "?c \<noteq> []"
    using assms by (auto simp: path_clean_def Let_def split: if_splits)
  obtain k xs where "\<forall>p \<in> set ?c. segment p"
    by (rule clean_segments_shape[of "split_on (CHR ''/'') s" False]) (auto dest: split_on_parts)
  then have "split_on (CHR ''/'') (join_with ''/'' ?c) = ?c"
    using j(2) by (intro split_on_join) (auto simp: segment_def)
  with j(1) show ?thesis by simp
qed

lemma path_examples:
  "path_clean ''a//b/../c/.'' = ''a/c''" "path_clean ''/../x'' = ''/x''" "path_clean ''../../x'' = ''../../x''"
  "path_clean [] = ''.''" "path_join [''refs/heads'', ''main''] = ''refs/heads/main''" "path_base ''docs/a.md'' = ''a.md''"
  by code_simp+

end
