(* ===== verification/Materialize.thy ===== *)
theory Materialize
  imports MetaSecrets Store GoPath
begin

text \<open>
  \<open>internal/repo/materialize.go\<close>: the cache of bare repositories that git works on. A cached
  repository is what git reads of it: object files, loose refs, the text of packed-refs
  and HEAD. Each operation on the disk takes the head of \<open>m_faults\<close> and fails without an
  effect when it is \<open>True\<close>; a file appears by a rename, so never in part. The parallel copies
  of \<open>hydrateObjects\<close> touch different files and are modelled in the order of the listing.
\<close>

record bare =
  b_objs :: "(string \<times> bytes) list"
  b_loose :: "(string \<times> string) list"
  b_packed :: string
  b_head :: string

record 's mz =
  m_db :: db
  m_store :: 's
  m_cache :: "string \<Rightarrow> bare option"
  m_faults :: "bool list"

datatype mz_error = MzMeta meta_error | MzStore store_error | MzUnsafe string | MzDisk

type_synonym ('s, 'a) mzop = "'s mz \<Rightarrow> (mz_error + 'a) \<times> 's mz"

definition mz_meta :: "'a dbop \<Rightarrow> ('s, 'a) mzop" where
  "mz_meta m w = (case m (m_db w) of (Inl e, d) \<Rightarrow> (Inl (MzMeta e), w\<lparr>m_db := d\<rparr>)
     | (Inr x, d) \<Rightarrow> (Inr x, w\<lparr>m_db := d\<rparr>))"

definition mz_store :: "('s \<Rightarrow> (store_error + 'a) \<times> 's) \<Rightarrow> ('s, 'a) mzop" where
  "mz_store m w = (case m (m_store w) of (Inl e, s) \<Rightarrow> (Inl (MzStore e), w\<lparr>m_store := s\<rparr>)
     | (Inr x, s) \<Rightarrow> (Inr x, w\<lparr>m_store := s\<rparr>))"

definition disk :: "(bare option \<Rightarrow> bare option) \<Rightarrow> string \<Rightarrow> ('s, unit) mzop" where
  "disk f dir w = (let w1 = w\<lparr>m_faults := tl (m_faults w)\<rparr> in
     if m_faults w \<noteq> [] \<and> hd (m_faults w) then (Inl MzDisk, w1)
     else (Inr (), w1\<lparr>m_cache := (m_cache w)(dir := f (m_cache w dir))\<rparr>))"

definition look :: "string \<Rightarrow> ('s, bare option) mzop" where
  "look dir = bindE (disk (\<lambda>b. b) dir) (\<lambda>_ w. (Inr (m_cache w dir), w))"

section \<open>Directories\<close>

definition repoDir :: "string \<Rightarrow> string \<Rightarrow> string option" where
  "repoDir root name =
     (if name = [] \<or> is_abs name \<or> path_clean name \<noteq> name \<or> has_prefix ''../'' name then None
      else Some (path_join [root, name]))"

definition empty_bare :: bare where
  "empty_bare = \<lparr>b_objs = [], b_loose = [], b_packed = [], b_head = []\<rparr>"

definition ensureRepo :: "string \<Rightarrow> string \<Rightarrow> ('s, string) mzop" where
  "ensureRepo root name = (case repoDir root name of None \<Rightarrow> errE (MzUnsafe name)
     | Some dir \<Rightarrow> bindE (look dir) (\<lambda>b.
         if b = None then bindE (disk (\<lambda>_. Some empty_bare) dir) (\<lambda>_. retE dir) else retE dir))"

section \<open>Objects\<close>

definition on_disk :: "string \<Rightarrow> bare option \<Rightarrow> bool" where
  "on_disk rel b = (case b of None \<Rightarrow> False | Some r \<Rightarrow> map_of (b_objs r) rel \<noteq> None)"

definition add_object :: "string \<Rightarrow> bytes \<Rightarrow> bare option \<Rightarrow> bare option" where
  "add_object rel data = map_option (\<lambda>b. b\<lparr>b_objs := AList.update rel data (b_objs b)\<rparr>)"

definition copyObject :: "'s store_ops \<Rightarrow> string \<Rightarrow> string \<Rightarrow> string \<Rightarrow> ('s, unit) mzop" where
  "copyObject S key dir rel = bindE (mz_store (Get S key)) (\<lambda>data. disk (add_object rel data) dir)"

fun copyMissing :: "'s store_ops \<Rightarrow> string \<Rightarrow> string \<Rightarrow> string list \<Rightarrow> ('s, unit) mzop" where
  "copyMissing S name dir [] = retE ()"
| "copyMissing S name dir (key # keys) =
     (let rel = trim_prefix (name @ ''/'') key in
      bindE (look dir) (\<lambda>b.
        if on_disk rel b then copyMissing S name dir keys
        else bindE (copyObject S key dir rel) (\<lambda>_. copyMissing S name dir keys)))"

definition hydrateObjects :: "'s store_ops \<Rightarrow> string \<Rightarrow> string \<Rightarrow> ('s, unit) mzop" where
  "hydrateObjects S name dir =
     bindE (mz_store (List S (name @ ''/objects/''))) (copyMissing S name dir)"

section \<open>Refs\<close>

definition packed_line :: "ref_row \<Rightarrow> string" where
  "packed_line r = ref_sha r @ '' '' @ ref_name r"

definition packed_text :: "ref_row list \<Rightarrow> string" where
  "packed_text rows = concat (map (\<lambda>l. l @ [newline]) (map packed_line rows))"

definition writePackedRefs :: "string \<Rightarrow> ref_row list \<Rightarrow> ('s, unit) mzop" where
  "writePackedRefs dir rows = disk (map_option (\<lambda>b. b\<lparr>b_packed := packed_text rows\<rparr>)) dir"

definition remove_loose :: "string \<Rightarrow> bare option \<Rightarrow> bare option" where
  "remove_loose n = map_option (\<lambda>b. b\<lparr>b_loose := AList.delete n (b_loose b)\<rparr>)"

fun removeEach :: "string \<Rightarrow> string list \<Rightarrow> ('s, unit) mzop" where
  "removeEach dir [] = retE ()"
| "removeEach dir (n # ns) =
     (if has_suffix ''.lock'' n then removeEach dir ns
      else bindE (disk (remove_loose n) dir) (\<lambda>_. removeEach dir ns))"

definition removeLooseRefs :: "string \<Rightarrow> ('s, unit) mzop" where
  "removeLooseRefs dir = bindE (look dir) (\<lambda>b. case b of None \<Rightarrow> retE ()
     | Some r \<Rightarrow> removeEach dir (map fst (b_loose r)))"

definition mirrorRefs :: "string \<Rightarrow> ref_row list \<Rightarrow> ('s, unit) mzop" where
  "mirrorRefs dir rows = bindE (writePackedRefs dir rows) (\<lambda>_. removeLooseRefs dir)"

definition setHEAD :: "string \<Rightarrow> string \<Rightarrow> ('s, unit) mzop" where
  "setHEAD dir branch = disk (map_option (\<lambda>b. b\<lparr>b_head := path_join [''refs/heads'', branch]\<rparr>)) dir"

definition writeRefs :: "string \<Rightarrow> repo \<Rightarrow> ('s, unit) mzop" where
  "writeRefs dir r = bindE (mz_meta (ListRefs (repo_id r))) (\<lambda>rows.
     bindE (mirrorRefs dir rows) (\<lambda>_. setHEAD dir (default_branch r)))"

definition Materialize :: "'s store_ops \<Rightarrow> string \<Rightarrow> string \<Rightarrow> ('s, string) mzop" where
  "Materialize S root name = bindE (mz_meta (GetRepo name)) (\<lambda>r.
     bindE (ensureRepo root name) (\<lambda>dir.
       bindE (hydrateObjects S name dir) (\<lambda>_. bindE (writeRefs dir r) (\<lambda>_. retE dir))))"

definition MaterializeRefs :: "string \<Rightarrow> string \<Rightarrow> ('s, string) mzop" where
  "MaterializeRefs root name = bindE (mz_meta (GetRepo name)) (\<lambda>r.
     bindE (ensureRepo root name) (\<lambda>dir.
       bindE (mz_meta (ListRefs (repo_id r))) (\<lambda>rows.
         bindE (mirrorRefs dir rows) (\<lambda>_. bindE (setHEAD dir (default_branch r)) (\<lambda>_. retE dir)))))"

section \<open>What git reads\<close>

definition packed_entries :: "string \<Rightarrow> (string \<times> string) list" where
  "packed_entries txt = concat (map (\<lambda>l. case cut '' '' l of None \<Rightarrow> [] | Some (sha, n) \<Rightarrow> [(n, sha)]) (raw_lines txt))"

definition effective :: "bare \<Rightarrow> string \<Rightarrow> string option" where
  "effective b n = (case map_of (b_loose b) n of Some x \<Rightarrow> Some x | None \<Rightarrow> map_of (packed_entries (b_packed b)) n)"

definition printable :: "ref_row \<Rightarrow> bool" where
  "printable r \<longleftrightarrow> CHR '' '' \<notin> set (ref_sha r) \<and> newline \<notin> set (ref_sha r) \<and> newline \<notin> set (ref_name r)"

lemma packed_roundtrip:
  assumes "\<forall>r \<in> set rows. printable r"
  shows "packed_entries (packed_text rows) = map (\<lambda>r. (ref_name r, ref_sha r)) rows"
proof -
  have ne: "newline \<noteq> CHR '' ''" by (simp add: newline_def)
  have "raw_lines (packed_text rows) = map packed_line rows"
    unfolding packed_text_def
    by (rule raw_lines_concat) (use assms ne in \<open>auto simp: packed_line_def printable_def\<close>)
  moreover have "concat (map (\<lambda>l. case cut '' '' l of None \<Rightarrow> [] | Some (sha, n) \<Rightarrow> [(n, sha)])
      (map packed_line rows)) = map (\<lambda>r. (ref_name r, ref_sha r)) rows"
    using assms by (induction rows) (auto simp: packed_line_def printable_def cut_char)
  ultimately show ?thesis by (simp add: packed_entries_def)
qed

lemma disk_Inr: "disk f dir w = (Inr x, w') \<Longrightarrow>
    w' = w\<lparr>m_faults := tl (m_faults w), m_cache := (m_cache w)(dir := f (m_cache w dir))\<rparr>"
  by (auto simp: disk_def Let_def split: if_splits)

lemma look_Inr: "look dir w = (Inr b, w') \<Longrightarrow> b = m_cache w dir \<and> w' = w\<lparr>m_faults := tl (m_faults w)\<rparr>"
  by (auto simp: look_def bindE_Inr dest!: disk_Inr)

lemma mz_meta_Inr: "mz_meta m w = (Inr x, w') \<longleftrightarrow> (\<exists>d. m (m_db w) = (Inr x, d) \<and> w' = w\<lparr>m_db := d\<rparr>)"
  by (auto simp: mz_meta_def split: prod.splits sum.splits)

lemma mz_store_Inr: "mz_store m w = (Inr x, w') \<longleftrightarrow> (\<exists>s. m (m_store w) = (Inr x, s) \<and> w' = w\<lparr>m_store := s\<rparr>)"
  by (auto simp: mz_store_def split: prod.splits sum.splits)

text \<open>The steps touch one directory of the cache; a repository that is there stays there.\<close>

definition bare_at :: "'s mz \<Rightarrow> string \<Rightarrow> bare \<Rightarrow> bool" where
  "bare_at w dir b \<longleftrightarrow> m_cache w dir = Some b"

lemma disk_map:
  assumes "disk (map_option f) dir w = (r, w')" "m_cache w dir = Some b"
  shows "m_cache w' dir = Some (if r = Inr () then f b else b)" "m_db w' = m_db w" "m_store w' = m_store w"
  using assms by (auto simp: disk_def Let_def split: if_splits)

text \<open>
  Removing loose refs: at every point, done or failed, each loose ref is either as it was
  or gone; done, only lock files are left.
\<close>

lemma removeEach_outcome:
  assumes "removeEach dir ns w = (r, w')" "m_cache w dir = Some b"
  shows "\<exists>b'. m_cache w' dir = Some b' \<and> b_packed b' = b_packed b \<and> b_objs b' = b_objs b \<and> b_head b' = b_head b \<and>
    (\<forall>n. map_of (b_loose b') n = map_of (b_loose b) n \<or> map_of (b_loose b') n = None) \<and>
    (r = Inr () \<longrightarrow> (\<forall>n \<in> set ns. \<not> has_suffix ''.lock'' n \<longrightarrow> map_of (b_loose b') n = None)) \<and>
    m_db w' = m_db w"
  using assms
proof (induction ns arbitrary: w b)
  case Nil
  then show ?case by (auto simp: retE_def)
next
  case (Cons n ns)
  show ?case
  proof (cases "has_suffix ''.lock'' n")
    case True
    with Cons show ?thesis by auto
  next
    case False
    obtain x w1 where d: "disk (remove_loose n) dir w = (x, w1)" by (cases "disk (remove_loose n) dir w")
    let ?b = "b\<lparr>b_loose := AList.delete n (b_loose b)\<rparr>"
    note step = disk_map[OF d[unfolded remove_loose_def] Cons.prems(2)]
    show ?thesis
    proof (cases x)
      case (Inl e)
      with Cons.prems False d step show ?thesis by (auto simp: bindE_def)
    next
      case (Inr u)
      with Cons.prems(1) False d have rest: "removeEach dir ns w1 = (r, w')" by (simp add: bindE_def)
      have "m_cache w1 dir = Some ?b" using step(1) Inr by simp
      from Cons.IH[OF rest this] obtain b' where
        b': "m_cache w' dir = Some b'" "b_packed b' = b_packed b" "b_objs b' = b_objs b" "b_head b' = b_head b"
          "m_db w' = m_db w1"
        and kept: "map_of (b_loose b') k = map_of (AList.delete n (b_loose b)) k \<or> map_of (b_loose b') k = None"
        and gone: "r = Inr () \<Longrightarrow> k \<in> set ns \<Longrightarrow> \<not> has_suffix ''.lock'' k \<Longrightarrow> map_of (b_loose b') k = None" for k
        by auto
      have del: "map_of (AList.delete n (b_loose b)) k = (if k = n then None else map_of (b_loose b) k)" for k
        by (simp add: delete_conv')
      have "map_of (b_loose b') k = map_of (b_loose b) k \<or> map_of (b_loose b') k = None" for k
        using kept[of k] unfolding del by presburger
      moreover have "map_of (b_loose b') n = None" using kept[of n] unfolding del by simp
      ultimately show ?thesis using b' gone step(2) by (intro exI[of _ b']) auto
    qed
  qed
qed

lemma removeEachE:
  assumes "removeEach dir ns w = (r, w')" "m_cache w dir = Some b"
  obtains b' where "m_cache w' dir = Some b'" "b_packed b' = b_packed b" "b_objs b' = b_objs b"
    "b_head b' = b_head b" "m_db w' = m_db w"
    "\<And>n. map_of (b_loose b') n = map_of (b_loose b) n \<or> map_of (b_loose b') n = None"
    "\<And>n. r = Inr () \<Longrightarrow> n \<in> set ns \<Longrightarrow> \<not> has_suffix ''.lock'' n \<Longrightarrow> map_of (b_loose b') n = None"
  using removeEach_outcome[OF assms] that by blast

lemma disk_set: "disk (\<lambda>_. Some b) dir w = (Inr u, w') \<Longrightarrow>
    m_cache w' dir = Some b \<and> m_db w' = m_db w \<and> m_store w' = m_store w"
  by (auto simp: disk_def Let_def split: if_splits)

definition ref_pairs :: "ref_row list \<Rightarrow> (string \<times> string) list" where
  "ref_pairs rows = map (\<lambda>r. (ref_name r, ref_sha r)) rows"

lemma look_state: "look dir w = (r, w') \<Longrightarrow> m_cache w' = m_cache w \<and> m_db w' = m_db w \<and> m_store w' = m_store w"
  by (auto simp: look_def bindE_def disk_def Let_def split: if_splits)

lemma mirrorRefs_outcome:
  assumes "mirrorRefs dir rows w = (r, w')" "m_cache w dir = Some b" "\<forall>r \<in> set rows. printable r"
  shows "\<exists>b'. m_cache w' dir = Some b' \<and> b_objs b' = b_objs b \<and> b_head b' = b_head b \<and> m_db w' = m_db w \<and>
    (\<forall>n. effective b' n = effective b n \<or> effective b' n = map_of (ref_pairs rows) n) \<and>
    (r = Inr () \<longrightarrow> (\<forall>n. \<not> has_suffix ''.lock'' n \<longrightarrow> effective b' n = map_of (ref_pairs rows) n))"
proof -
  obtain x w1 where d: "writePackedRefs dir rows w = (x, w1)" by (cases "writePackedRefs dir rows w")
  note pk = disk_map[OF d[unfolded writePackedRefs_def] assms(2)]
  show ?thesis
  proof (cases x)
    case (Inl e)
    with assms(1) d pk show ?thesis by (auto simp: mirrorRefs_def bindE_def)
  next
    case (Inr u)
    let ?b = "b\<lparr>b_packed := packed_text rows\<rparr>"
    from pk Inr have b1: "m_cache w1 dir = Some ?b" by simp
    from assms(1) d Inr have rest: "removeLooseRefs dir w1 = (r, w')" by (simp add: mirrorRefs_def bindE_def)
    obtain y w2 where l: "look dir w1 = (y, w2)" by (cases "look dir w1")
    note ls = look_state[OF l]
    have pe: "packed_entries (packed_text rows) = ref_pairs rows"
      using packed_roundtrip[OF assms(3)] by (simp add: ref_pairs_def)
    have mid: "effective ?b n = effective b n \<or> effective ?b n = map_of (ref_pairs rows) n" for n
      using pe by (auto simp: effective_def split: option.splits)
    show ?thesis
    proof (cases y)
      case (Inl e)
      with rest l have "r = Inl e" "w' = w2" by (auto simp: removeLooseRefs_def bindE_def)
      with ls b1 pk mid show ?thesis by (intro exI[of _ ?b]) auto
    next
      case (Inr c)
      with l have "c = Some ?b" using look_Inr[of dir w1 c w2] b1 by auto
      with rest l Inr have rem: "removeEach dir (map fst (b_loose ?b)) w2 = (r, w')"
        by (simp add: removeLooseRefs_def bindE_def)
      have "m_cache w2 dir = Some ?b" using ls b1 by simp
      then obtain b' where
        c: "m_cache w' dir = Some b'" "b_packed b' = b_packed ?b" "b_objs b' = b_objs ?b" "b_head b' = b_head ?b"
          "m_db w' = m_db w2"
        and k: "map_of (b_loose b') n = map_of (b_loose ?b) n \<or> map_of (b_loose b') n = None"
        and gone: "r = Inr () \<Longrightarrow> n \<in> set (map fst (b_loose ?b)) \<Longrightarrow> \<not> has_suffix ''.lock'' n \<Longrightarrow>
          map_of (b_loose b') n = None"
        for n
        by (rule removeEachE[OF rem]) blast
      have b': "m_cache w' dir = Some b'" "b_packed b' = packed_text rows" "b_objs b' = b_objs b"
        "b_head b' = b_head b" "m_db w' = m_db w2" using c by simp_all
      have kept: "map_of (b_loose b') n = map_of (b_loose b) n \<or> map_of (b_loose b') n = None" for n
        using k[of n] by simp
      have eff: "effective b' n = effective b n \<or> effective b' n = map_of (ref_pairs rows) n" for n
        using kept[of n] pe b'(2) by (auto simp: effective_def split: option.splits)
      have new: "effective b' n = map_of (ref_pairs rows) n" if "r = Inr ()" "\<not> has_suffix ''.lock'' n" for n
      proof -
        have "map_of (b_loose b') n = None"
        proof (cases "n \<in> set (map fst (b_loose b))")
          case True
          then show ?thesis by (intro gone that) simp
        next
          case False
          then have "map_of (b_loose b) n = None" by (metis list.set_map map_of_eq_None_iff)
          with kept[of n] show ?thesis by auto
        qed
        with pe b'(2) show ?thesis by (simp add: effective_def)
      qed
      from b' eff new ls pk show ?thesis by (intro exI[of _ b']) auto
    qed
  qed
qed

lemma ListRefs_pairs:
  assumes "db_ok s" "ListRefs i s = (Inr rows, t)"
  shows "map_of (ref_pairs rows) n = ref_map s i n" "set rows \<subseteq> set (refs s)" "\<exists>fs. t = s\<lparr>faults := fs\<rparr>"
proof -
  from query_Inr[OF assms(2)[unfolded ListRefs_def]] obtain fs where t: "t = s\<lparr>faults := fs\<rparr>"
    and rows: "rows = sort_key ref_name (filter (\<lambda>r. ref_repo r = i) (refs s))" by auto
  from t show "\<exists>fs. t = s\<lparr>faults := fs\<rparr>" by blast
  have set: "set rows = {r \<in> set (refs s). ref_repo r = i}" using rows by auto
  then show "set rows \<subseteq> set (refs s)" by auto
  have dist: "distinct (map (\<lambda>r. (ref_repo r, ref_name r)) (refs s))"
    using assms(1) by (simp add: db_ok_def refs_ok_def)
  show "map_of (ref_pairs rows) n = ref_map s i n"
  proof (cases "map_of (ref_pairs rows) n")
    case None
    then have "\<forall>r \<in> set rows. ref_name r \<noteq> n" by (auto simp: map_of_eq_None_iff ref_pairs_def image_image)
    then have "first_where (is_ref i n) (refs s) = None" using set by (auto simp: first_where_None)
    with None show ?thesis by (simp add: ref_lookup_def)
  next
    case (Some x)
    then obtain r where r: "r \<in> set rows" "ref_name r = n" "ref_sha r = x"
      by (auto simp: ref_pairs_def dest!: map_of_SomeD)
    have "first_where (is_ref i n) (refs s) = Some r"
      by (rule first_where_unique[OF dist]) (use r set in auto)
    with Some r show ?thesis by (simp add: ref_lookup_def)
  qed
qed

lemma ensureRepo_Inr:
  assumes "ensureRepo root name w = (Inr dir, w')"
  shows "\<exists>b. m_cache w' dir = Some b \<and> m_db w' = m_db w \<and> m_store w' = m_store w \<and>
    (m_cache w dir = Some b \<or> m_cache w dir = None \<and> b = empty_bare)"
proof -
  from assms obtain d where d: "repoDir root name = Some d"
    by (auto simp: ensureRepo_def errE_def split: option.splits)
  with assms obtain c w1 where l: "look d w = (Inr c, w1)"
    "(if c = None then bindE (disk (\<lambda>_. Some empty_bare) d) (\<lambda>_. retE d) else retE d) w1 = (Inr dir, w')"
    by (auto simp: ensureRepo_def bindE_Inr)
  from look_Inr[OF l(1)] have c: "c = m_cache w d" and s: "m_cache w1 = m_cache w" "m_db w1 = m_db w" "m_store w1 = m_store w"
    by auto
  show ?thesis
  proof (cases c)
    case None
    have "bindE (disk (\<lambda>_. Some empty_bare) d) (\<lambda>_. retE d) w1 = (Inr dir, w')"
      using l(2) None by (simp only: if_True refl)
    then obtain w2 u where m: "disk (\<lambda>_. Some empty_bare) d w1 = (Inr u, w2)" "dir = d" "w' = w2"
      unfolding bindE_Inr retE_def by blast
    from disk_set[OF m(1)] have "m_cache w' dir = Some empty_bare" "m_db w' = m_db w1" "m_store w' = m_store w1"
      unfolding m(2,3) by blast+
    moreover have "m_cache w dir = None" using c None m(2) by simp
    ultimately show ?thesis using s(2,3) by simp
  next
    case (Some b)
    with l(2) have "w' = w1" "dir = d" by (simp_all add: retE_def)
    moreover have "m_cache w d = Some b" using c Some by simp
    ultimately show ?thesis using s by simp
  qed
qed

lemma disk_other: "disk f dir w = (r, w') \<Longrightarrow> m_db w' = m_db w \<and> m_store w' = m_store w"
  by (auto simp: disk_def Let_def split: if_splits)

text \<open>
  C15. The refs that git reads in the cache are exactly the refs of the metadata: after
  \<open>MaterializeRefs\<close> succeeds, whatever the cached directory held before, a ref resolves to what
  the database says, a ref that the database lacks does not resolve, and HEAD is the default
  branch.
\<close>

theorem advertised_refs_exact:
  assumes "db_ok (m_db w)" "\<forall>r \<in> set (refs (m_db w)). printable r"
    and "MaterializeRefs root name w = (Inr dir, w')"
  shows "\<exists>r b. r \<in> set (repos (m_db w)) \<and> repo_name r = normalizeRepoName name \<and> m_cache w' dir = Some b \<and>
    (\<forall>n. \<not> has_suffix ''.lock'' n \<longrightarrow> effective b n = ref_map (m_db w) (repo_id r) n) \<and>
    b_head b = path_join [''refs/heads'', default_branch r]"
proof -
  from assms(3) obtain r d1 w2 rows d3 w4 w5 where s:
    "GetRepo name (m_db w) = (Inr r, d1)" "ensureRepo root name (w\<lparr>m_db := d1\<rparr>) = (Inr dir, w2)"
    "ListRefs (repo_id r) (m_db w2) = (Inr rows, d3)" "mirrorRefs dir rows (w2\<lparr>m_db := d3\<rparr>) = (Inr (), w4)"
    "setHEAD dir (default_branch r) w4 = (Inr (), w5)" "w' = w5"
    by (auto simp: MaterializeRefs_def bindE_Inr mz_meta_Inr retE_def)
  from query_row_Inr[OF s(1)[unfolded GetRepo_def]] obtain fs where
    r: "d1 = (m_db w)\<lparr>faults := fs\<rparr>" "r \<in> set (repos (m_db w))" "repo_name r = normalizeRepoName name"
    by (auto dest!: first_where_Some)
  from ensureRepo_Inr[OF s(2)] obtain b where b: "m_cache w2 dir = Some b" "m_db w2 = d1" by auto
  have ok: "db_ok (m_db w2)" using assms(1) r(1) b(2) by simp
  note rows = ListRefs_pairs[OF ok s(3)]
  have pr: "\<forall>r \<in> set rows. printable r" using rows(2) assms(2) b(2) r(1) by auto
  from mirrorRefs_outcome[OF s(4) _ pr] b(1) obtain b' where
    b': "m_cache w4 dir = Some b'" "\<And>n. \<not> has_suffix ''.lock'' n \<Longrightarrow> effective b' n = map_of (ref_pairs rows) n"
    by auto
  from disk_map[OF s(5)[unfolded setHEAD_def] b'(1)]
  have h: "m_cache w5 dir = Some (b'\<lparr>b_head := path_join [''refs/heads'', default_branch r]\<rparr>)" by simp
  have "effective (b'\<lparr>b_head := x\<rparr>) n = effective b' n" for x n
    by (simp add: effective_def split: option.split)
  with h r s(6) b'(2) rows(1) b(2) show ?thesis
    by (intro exI[of _ r] exI[of _ "b'\<lparr>b_head := path_join [''refs/heads'', default_branch r]\<rparr>"]) auto
qed

definition sample_mz :: "mem mz" where
  "sample_mz = \<lparr>m_db = sample_db, m_store = [(''app/objects/aa/1'', ''x''), (''app/objects/pack/p.pack'', ''y'')],
     m_cache = [''/c/app'' \<mapsto> \<lparr>b_objs = [(''objects/aa/1'', ''x'')],
        b_loose = [(''refs/heads/main'', sha1_b), (''refs/heads/gone'', sha1_b), (''refs/heads/x.lock'', [])],
        b_packed = [], b_head = ''refs/heads/old''\<rparr>],
     m_faults = []\<rparr>"

lemma sample_printable: "\<forall>r \<in> set (refs (m_db sample_mz)). printable r"
  by (simp add: sample_mz_def sample_db_def printable_def sha1_a_def newline_def)

lemma advertised_refs_exact_witness:
  "\<exists>w' b. MaterializeRefs ''/c'' ''app'' sample_mz = (Inr ''/c/app'', w') \<and> m_cache w' ''/c/app'' = Some b \<and>
     effective b ''refs/heads/main'' = Some sha1_a \<and> effective b ''refs/heads/gone'' = None"
proof -
  have "fst (MaterializeRefs ''/c'' ''app'' sample_mz) = Inr ''/c/app''" by code_simp
  then obtain w' where m: "MaterializeRefs ''/c'' ''app'' sample_mz = (Inr ''/c/app'', w')" by (metis prod.collapse)
  have "db_ok (m_db sample_mz)" by (simp add: sample_mz_def)
  from advertised_refs_exact[OF this sample_printable m] obtain r b where
    r: "r \<in> set (repos sample_db)" "repo_name r = normalizeRepoName ''app''" "m_cache w' ''/c/app'' = Some b"
    and e: "\<And>n. \<not> has_suffix ''.lock'' n \<Longrightarrow> effective b n = ref_map sample_db (repo_id r) n"
    by (auto simp: sample_mz_def)
  have "normalizeRepoName ''app'' = ''app''" by code_simp
  with r(1,2) have "repo_id r = 2" by (auto simp: sample_db_def)
  moreover have "\<not> has_suffix ''.lock'' ''refs/heads/main''" "\<not> has_suffix ''.lock'' ''refs/heads/gone''" by code_simp+
  ultimately have "effective b ''refs/heads/main'' = Some sha1_a" "effective b ''refs/heads/gone'' = None"
    using e by (auto simp: ref_lookup_def sample_db_def)
  with m r(3) show ?thesis by blast
qed

text \<open>
  C16. The update of the refs can stop at any operation on the disk without showing a state that
  never was: each ref then resolves to what it was before or to what the metadata says, never
  to nothing in between.
\<close>

theorem mirror_never_between:
  assumes "mirrorRefs dir rows w = (r, w')" "m_cache w dir = Some b" "\<forall>r \<in> set rows. printable r"
  shows "\<exists>b'. m_cache w' dir = Some b' \<and>
    (\<forall>n. effective b' n = effective b n \<or> effective b' n = map_of (ref_pairs rows) n)"
  using mirrorRefs_outcome[OF assms] by blast

lemma mirror_never_between_witness:
  "\<exists>w' b'. mirrorRefs ''/c/app'' (refs sample_db) (sample_mz\<lparr>m_faults := [False, False, True]\<rparr>) = (Inl MzDisk, w') \<and>
     m_cache w' ''/c/app'' = Some b' \<and>
     (effective b' ''refs/heads/main'' = Some sha1_b \<or> effective b' ''refs/heads/main'' = Some sha1_a)"
proof -
  let ?w = "sample_mz\<lparr>m_faults := [False, False, True]\<rparr>"
  let ?b = "\<lparr>b_objs = [(''objects/aa/1'', ''x'')],
        b_loose = [(''refs/heads/main'', sha1_b), (''refs/heads/gone'', sha1_b), (''refs/heads/x.lock'', [])],
        b_packed = [], b_head = ''refs/heads/old''\<rparr>"
  have "fst (mirrorRefs ''/c/app'' (refs sample_db) ?w) = Inl MzDisk" by code_simp
  then obtain w' where m: "mirrorRefs ''/c/app'' (refs sample_db) ?w = (Inl MzDisk, w')" by (metis prod.collapse)
  have c: "m_cache ?w ''/c/app'' = Some ?b" by (simp add: sample_mz_def)
  have p: "\<forall>r \<in> set (refs sample_db). printable r" using sample_printable by (simp add: sample_mz_def)
  from mirror_never_between[OF m c p] obtain b' where b': "m_cache w' ''/c/app'' = Some b'"
    "effective b' ''refs/heads/main'' = effective ?b ''refs/heads/main'' \<or>
     effective b' ''refs/heads/main'' = map_of (ref_pairs (refs sample_db)) ''refs/heads/main''" by blast
  have "effective ?b ''refs/heads/main'' = Some sha1_b" by (simp add: effective_def)
  moreover have "map_of (ref_pairs (refs sample_db)) ''refs/heads/main'' = Some sha1_a"
    by (simp add: ref_pairs_def sample_db_def)
  ultimately show ?thesis using m b' by auto
qed

section \<open>Hydration\<close>

definition objects_of :: "'s mz \<Rightarrow> string \<Rightarrow> string \<Rightarrow> bytes option" where
  "objects_of w dir = (case m_cache w dir of None \<Rightarrow> (\<lambda>_. None) | Some b \<Rightarrow> map_of (b_objs b))"

lemma add_object_of:
  "m_cache w dir = Some b \<Longrightarrow> m_cache w' = (m_cache w)(dir := add_object rel data (m_cache w dir)) \<Longrightarrow>
   objects_of w' dir = (objects_of w dir)(rel \<mapsto> data)"
  by (simp add: objects_of_def add_object_def update_conv')

context object_store
begin

text \<open>
  What copying did, finished or not: objects that were on the disk are as they were, every new
  one is the store's, and a finished copy has all of the listing.
\<close>

lemma copyMissing_outcome:
  assumes "copyMissing ops name dir keys w = (r, w')" "m_cache w dir = Some b"
  shows "(\<exists>b'. m_cache w' dir = Some b') \<and> contents (m_store w') = contents (m_store w) \<and>
    (\<forall>rel. objects_of w dir rel \<noteq> None \<longrightarrow> objects_of w' dir rel = objects_of w dir rel) \<and>
    (\<forall>rel d. objects_of w' dir rel = Some d \<longrightarrow> objects_of w dir rel = Some d \<or>
       (\<exists>key \<in> set keys. rel = trim_prefix (name @ ''/'') key \<and> contents (m_store w) key = Some d)) \<and>
    (r = Inr () \<longrightarrow> (\<forall>key \<in> set keys. objects_of w' dir (trim_prefix (name @ ''/'') key) \<noteq> None))"
  using assms
proof (induction keys arbitrary: w b)
  case Nil
  then show ?case by (simp add: retE_def)
next
  case (Cons key keys)
  let ?rel = "trim_prefix (name @ ''/'') key"
  obtain x w1 where l: "look dir w = (x, w1)" by (cases "look dir w")
  note ls = look_state[OF l]
  have o1: "objects_of w1 dir = objects_of w dir" using ls by (simp add: objects_of_def)
  show ?case
  proof (cases x)
    case (Inl e)
    with Cons.prems l have "r = Inl e" "w' = w1" by (simp_all add: bindE_def Let_def)
    with ls o1 Cons.prems(2) show ?thesis by auto
  next
    case (Inr c)
    with l have c: "c = m_cache w dir" using look_Inr[of dir w c w1] by simp
    show ?thesis
    proof (cases "on_disk ?rel c")
      case True
      with Cons.prems(1) l Inr have "copyMissing ops name dir keys w1 = (r, w')" by (simp add: bindE_def Let_def)
      moreover have "objects_of w dir ?rel \<noteq> None"
        using True c by (auto simp: on_disk_def objects_of_def split: option.splits)
      ultimately show ?thesis using Cons.IH[of w1 b] ls o1 Cons.prems(2) by auto
    next
      case False
      with Cons.prems(1) l Inr have k: "bindE (copyObject ops key dir ?rel) (\<lambda>_. copyMissing ops name dir keys) w1 = (r, w')"
        by (simp add: bindE_def Let_def)
      have none: "objects_of w dir ?rel = None"
        using False c by (auto simp: on_disk_def objects_of_def split: option.splits)
      obtain g s where g: "Get ops key (m_store w1) = (g, s)" by (cases "Get ops key (m_store w1)")
      note gr = get_result[OF g]
      show ?thesis
      proof (cases g)
        case (Inl e)
        with k g have "r = Inl (MzStore e)" "w' = w1\<lparr>m_store := s\<rparr>"
          by (simp_all add: bindE_def copyObject_def mz_store_def)
        with gr ls o1 Cons.prems(2) show ?thesis by (auto simp: objects_of_def)
      next
        case (Inr d)
        obtain y w2 where d: "disk (add_object ?rel d) dir (w1\<lparr>m_store := s\<rparr>) = (y, w2)"
          by (cases "disk (add_object ?rel d) dir (w1\<lparr>m_store := s\<rparr>)")
        have stored: "contents (m_store w) key = Some d" "contents s = contents (m_store w)"
          using gr Inr ls by simp_all
        show ?thesis
        proof (cases y)
          case (Inl e)
          with k g d \<open>g = Inr d\<close> have e: "r = Inl e" "w' = w2" by (simp_all add: bindE_def copyObject_def mz_store_def)
          from d Inl have "m_cache w2 = m_cache w1" "m_store w2 = s" by (auto simp: disk_def Let_def split: if_splits)
          with e stored o1 ls Cons.prems(2) show ?thesis by (simp add: objects_of_def)
        next
          case (Inr u)
          with k g d \<open>g = Inr d\<close> have rest: "copyMissing ops name dir keys w2 = (r, w')"
            by (simp add: bindE_def copyObject_def mz_store_def)
          from d Inr have w2: "m_store w2 = s" "m_cache w2 = (m_cache w)(dir := add_object ?rel d (m_cache w dir))"
            using ls by (auto simp: disk_def Let_def split: if_splits)
          then have o2: "objects_of w2 dir = (objects_of w dir)(?rel \<mapsto> d)"
            by (intro add_object_of[OF Cons.prems(2)]) simp
          have "m_cache w2 dir = Some (b\<lparr>b_objs := AList.update ?rel d (b_objs b)\<rparr>)"
            using w2(2) Cons.prems(2) by (simp add: add_object_def)
          note IH = Cons.IH[OF rest this]
          show ?thesis
          proof (intro conjI allI impI)
            show "\<exists>b'. m_cache w' dir = Some b'" "contents (m_store w') = contents (m_store w)"
              using IH w2(1) stored by simp_all
            show "objects_of w' dir rel = objects_of w dir rel" if "objects_of w dir rel \<noteq> None" for rel
            proof -
              from that none have "rel \<noteq> ?rel" by auto
              then have e: "objects_of w2 dir rel = objects_of w dir rel" by (simp add: o2)
              with that IH have "objects_of w' dir rel = objects_of w2 dir rel" by metis
              with e show ?thesis by simp
            qed
            show "objects_of w dir rel = Some d' \<or> (\<exists>k \<in> set (key # keys). rel = trim_prefix (name @ ''/'') k \<and>
                contents (m_store w) k = Some d')" if "objects_of w' dir rel = Some d'" for rel d'
            proof -
              from that IH have "objects_of w2 dir rel = Some d' \<or> (\<exists>k \<in> set keys. rel = trim_prefix (name @ ''/'') k \<and>
                contents (m_store w2) k = Some d')" by blast
              then show ?thesis
                using stored w2(1) by (auto simp: o2 split: if_splits)
            qed
            show "\<forall>k \<in> set (key # keys). objects_of w' dir (trim_prefix (name @ ''/'') k) \<noteq> None" if "r = Inr ()"
            proof -
              have "objects_of w2 dir ?rel \<noteq> None" by (simp add: o2)
              with IH have "objects_of w' dir ?rel \<noteq> None" by metis
              with IH that show ?thesis by simp
            qed
          qed
        qed
      qed
    qed
  qed
qed

end

text \<open>
  C17. Hydration brings every object: when it succeeds, each object that the store holds under the
  repository's prefix is on the disk. Whether it succeeds or stops half way, it never replaces
  an object that was there, and every object that it adds has the bytes of the store.
\<close>

theorem hydration_complete:
  assumes "object_store contents S" "m_cache w dir = Some b"
    and "hydrateObjects S name dir w = (r, w')"
  shows "(\<forall>rel. objects_of w dir rel \<noteq> None \<longrightarrow> objects_of w' dir rel = objects_of w dir rel) \<and>
    (\<forall>rel d. objects_of w' dir rel = Some d \<longrightarrow>
       objects_of w dir rel = Some d \<or> contents (m_store w) (name @ ''/'' @ rel) = Some d) \<and>
    (r = Inr () \<longrightarrow> (\<forall>k. contents (m_store w) (name @ ''/objects/'' @ k) \<noteq> None \<longrightarrow>
       objects_of w' dir (''objects/'' @ k) \<noteq> None))"
proof -
  obtain x s where l: "List S (name @ ''/objects/'') (m_store w) = (x, s)"
    by (cases "List S (name @ ''/objects/'') (m_store w)")
  note lr = object_store.list_result[OF assms(1) l]
  show ?thesis
  proof (cases x)
    case (Inl e)
    with assms(3) l have "r = Inl (MzStore e)" "w' = w\<lparr>m_store := s\<rparr>"
      by (simp_all add: hydrateObjects_def bindE_def mz_store_def)
    then show ?thesis by (simp add: objects_of_def)
  next
    case (Inr keys)
    with assms(3) l have c: "copyMissing S name dir keys (w\<lparr>m_store := s\<rparr>) = (r, w')"
      by (simp add: hydrateObjects_def bindE_def mz_store_def)
    have "m_cache (w\<lparr>m_store := s\<rparr>) dir = Some b" using assms(2) by simp
    note o = object_store.copyMissing_outcome[OF assms(1) c this]
    have same: "objects_of (w\<lparr>m_store := s\<rparr>) dir = objects_of w dir" by (simp add: objects_of_def)
    have keys: "set keys = {k. has_prefix (name @ ''/objects/'') k \<and> contents (m_store w) k \<noteq> None}"
      and cs: "contents s = contents (m_store w)" using lr Inr by simp_all
    have trim: "name @ ''/'' @ trim_prefix (name @ ''/'') k = k" if "k \<in> set keys" for k
    proof -
      from that keys obtain t where k: "k = (name @ ''/'') @ ''objects/'' @ t" by (auto simp: has_prefix_iff)
      have "trim_prefix (name @ ''/'') k = ''objects/'' @ t" unfolding k by (rule trim_prefix_append)
      with k show ?thesis by simp
    qed
    show ?thesis
    proof (intro conjI allI impI)
      show "objects_of w' dir rel = objects_of w dir rel" if "objects_of w dir rel \<noteq> None" for rel
        using o that same by simp
      show "objects_of w dir rel = Some d \<or> contents (m_store w) (name @ ''/'' @ rel) = Some d"
        if "objects_of w' dir rel = Some d" for rel d
      proof -
        from o that same cs have "objects_of w dir rel = Some d \<or>
          (\<exists>key \<in> set keys. rel = trim_prefix (name @ ''/'') key \<and> contents (m_store w) key = Some d)" by simp
        with trim show ?thesis by auto
      qed
      show "objects_of w' dir (''objects/'' @ k) \<noteq> None"
        if "r = Inr ()" "contents (m_store w) (name @ ''/objects/'' @ k) \<noteq> None" for k
      proof -
        have "name @ ''/objects/'' @ k \<in> set keys" using that(2) keys by (auto simp: has_prefix_iff)
        with o that(1) have "objects_of w' dir (trim_prefix (name @ ''/'') (name @ ''/objects/'' @ k)) \<noteq> None" by blast
        moreover have "name @ ''/objects/'' @ k = (name @ ''/'') @ ''objects/'' @ k" by simp
        ultimately show ?thesis by (metis trim_prefix_append)
      qed
    qed
  qed
qed

lemma hydration_complete_witness:
  "\<exists>w'. hydrateObjects Mem ''app'' ''/c/app'' sample_mz = (Inr (), w') \<and>
     objects_of w' ''/c/app'' ''objects/pack/p.pack'' = Some ''y''"
proof -
  have "fst (hydrateObjects Mem ''app'' ''/c/app'' sample_mz) = Inr ()" by code_simp
  then obtain w' where m: "hydrateObjects Mem ''app'' ''/c/app'' sample_mz = (Inr (), w')" by (metis prod.collapse)
  have c: "m_cache sample_mz ''/c/app'' = Some (the (m_cache sample_mz ''/c/app''))" by (simp add: sample_mz_def)
  have s: "map_of (m_store sample_mz) (''app/objects/'' @ ''pack/p.pack'') = Some ''y''" by (simp add: sample_mz_def)
  from hydration_complete[OF mem.object_store_axioms c m] s
  have "objects_of w' ''/c/app'' (''objects/'' @ ''pack/p.pack'') \<noteq> None" by fastforce
  then obtain d where d: "objects_of w' ''/c/app'' ''objects/pack/p.pack'' = Some d" by auto
  moreover have "objects_of sample_mz ''/c/app'' ''objects/pack/p.pack'' = None"
    by (simp add: objects_of_def sample_mz_def)
  ultimately have "map_of (m_store sample_mz) (''app/'' @ ''objects/pack/p.pack'') = Some d"
    using hydration_complete[OF mem.object_store_axioms c m] by fastforce
  with s d m show ?thesis by simp
qed

section \<open>Names stay below the cache root\<close>

text \<open>
  A name that \<open>repoDir\<close> accepts is a path below the cache root: apart from the names \<open>.\<close> and
  \<open>..\<close>, it is not absolute and none of its segments is empty, \<open>.\<close> or \<open>..\<close>.
\<close>

theorem repo_dir_confined:
  assumes "repoDir root name = Some dir" "name \<noteq> ''.''" "name \<noteq> ''..''"
  shows "dir = path_join [root, name] \<and> \<not> is_abs name \<and>
    (\<forall>p \<in> set (split_on (CHR ''/'') name). segment p \<and> p \<noteq> ''..'')"
proof -
  from assms(1) have n: "path_clean name = name" "\<not> is_abs name" "\<not> has_prefix ''../'' name" "name \<noteq> []"
    "dir = path_join [root, name]"
    by (auto simp: repoDir_def split: if_splits)
  let ?ps = "split_on (CHR ''/'') name"
  have fixed: "?ps = clean_segments False ?ps" by (rule path_clean_fixed[OF n(1,2) assms(2)])
  obtain k xs where c: "clean_segments False ?ps = replicate k ''..'' @ xs" "''..'' \<notin> set xs"
    "\<forall>p \<in> set (clean_segments False ?ps). segment p"
    by (rule clean_segments_shape[of ?ps False]) (auto dest: split_on_parts)
  have "k = 0"
  proof (rule ccontr)
    assume "k \<noteq> 0"
    then obtain j where j: "?ps = ''..'' # replicate j ''..'' @ xs" using c(1) fixed by (cases k) auto
    have name: "name = join_with ''/'' ?ps" by simp
    show False
    proof (cases "replicate j ''..'' @ xs")
      case Nil
      with j name assms(3) show False by simp
    next
      case (Cons q qs)
      with j name have "name = ''..'' @ ''/'' @ join_with ''/'' (q # qs)" by simp
      then have "has_prefix ''../'' name" by (simp add: has_prefix_iff)
      with n(3) show False by simp
    qed
  qed
  with c fixed have "?ps = xs" "''..'' \<notin> set xs" "\<forall>p \<in> set xs. segment p" by simp_all
  with n show ?thesis by auto
qed

lemma repo_dir_confined_witness:
  "repoDir ''/cache'' ''team/app'' = Some ''/cache/team/app'' \<and> \<not> is_abs ''team/app'' \<and>
   list_all segment (split_on (CHR ''/'') ''team/app'')"
proof -
  have d: "repoDir ''/cache'' ''team/app'' = Some ''/cache/team/app''" by code_simp
  from repo_dir_confined[OF d] d show ?thesis by (simp add: list_all_iff)
qed

text \<open>
  The check lets the name \<open>..\<close> itself through, and with it the directory above the root;
  only the rule that a repository's name does not begin with a dot keeps it from being used.
\<close>

lemma repo_dir_parent: "repoDir ''/data/cache'' ''..'' = Some ''/data''"
  by code_simp

end
