(* ===== verification/Backend.thy ===== *)
theory Backend
  imports Receive Materialize
begin

text \<open>
  \<open>internal/githttp/backend.go\<close>: the smart-HTTP endpoints of git. The server decides who may
  do what, brings the cached repository up to date and hands the request to
  \<open>git http-backend\<close>, which is the parameter \<open>cgi\<close>; during a push it runs the hook, which calls
  back. \<open>None\<close> is the result of a push that waits for the lock of its repository.
\<close>

record 's server =
  sv_writer :: "'s writer"
  sv_cache :: "string \<Rightarrow> bare option"
  sv_disk :: "bool list"

record http_request =
  hq_method :: string
  hq_path :: string
  hq_service :: string
  hq_auth :: string
  hq_buffer :: "bool option"  \<comment> \<open>\<open>None\<close>: the length is known; otherwise if the body can be buffered\<close>

datatype http_response =
    HStatus nat
  | HChallenge
  | HRetry
  | HGit "string list"

record 's git_config =
  has_writer :: bool
  is_writable :: "bool option"
  hooks_path :: string
  sock_path :: string
  cache_root :: string
  hash :: "bytes \<Rightarrow> bytes"
  clock :: time
  store_ops :: "'s store_ops"
  nonce_bytes :: "bytes option"
  cgi :: "string list \<Rightarrow> 's server \<Rightarrow> 's server"
  after_commit :: "(int \<Rightarrow> commit_info list \<Rightarrow> 's server \<Rightarrow> 's server) option"

section \<open>Requests\<close>

fun match_endpoint :: "string \<Rightarrow> string list \<Rightarrow> (string \<times> string) option" where
  "match_endpoint p [] = None"
| "match_endpoint p (ep # eps) =
     (if has_suffix (''/'' @ ep) p
      then (let name = trim_suffix (''/'' @ ep) p in if name = [] then None else Some (name, ep))
      else match_endpoint p eps)"

definition parseGitPath :: "string \<Rightarrow> (string \<times> string) option" where
  "parseGitPath path = match_endpoint (trim_prefix ''/'' path) [''info/refs'', ''git-upload-pack'', ''git-receive-pack'']"

text \<open>The permission that is required, if it is about receive-pack, and if it is the push itself.\<close>

definition classify :: "string \<Rightarrow> http_request \<Rightarrow> (perm \<times> bool \<times> bool) option" where
  "classify endpoint q =
     (if endpoint = ''info/refs'' then
        (if hq_method q \<noteq> ''GET'' then None
         else if hq_service q = ''git-upload-pack'' then Some (PermRead, False, False)
         else if hq_service q = ''git-receive-pack'' then Some (PermWrite, True, False)
         else None)
      else if endpoint = ''git-upload-pack'' then
        (if hq_method q \<noteq> ''POST'' then None else Some (PermRead, False, False))
      else if endpoint = ''git-receive-pack'' then
        (if hq_method q \<noteq> ''POST'' then None else Some (PermWrite, True, True))
      else None)"

definition config_pair :: "nat \<Rightarrow> string \<times> string \<Rightarrow> string list" where
  "config_pair i kv = [''GIT_CONFIG_KEY_'' @ format_nat i @ ''='' @ fst kv,
     ''GIT_CONFIG_VALUE_'' @ format_nat i @ ''='' @ snd kv]"

definition gitConfigEnv :: "(string \<times> string) list \<Rightarrow> string list" where
  "gitConfigEnv pairs = (''GIT_CONFIG_COUNT='' @ format_nat (length pairs)) #
     concat (map (\<lambda>(i, kv). config_pair i kv) (enumerate 0 pairs))"

definition writeAuthError :: "auth_error \<Rightarrow> http_response" where
  "writeAuthError e = (case e of ErrForbidden \<Rightarrow> HStatus 403 | ErrUnauthorized \<Rightarrow> HChallenge
     | AuthMeta m \<Rightarrow> if m = NotFound then HStatus 404 else HStatus 500 | ErrRandom \<Rightarrow> HStatus 500)"

definition finishMaterialize :: "mz_error \<Rightarrow> http_response" where
  "finishMaterialize e = (if e = MzMeta NotFound then HStatus 404 else HStatus 500)"

section \<open>The handler\<close>

definition on_mz :: "('s, 'a) mzop \<Rightarrow> 's server \<Rightarrow> (mz_error + 'a) \<times> 's server" where
  "on_mz m v = (case m \<lparr>m_db = wdb (sv_writer v), m_store = objects (sv_writer v), m_cache = sv_cache v, m_faults = sv_disk v\<rparr>
     of (r, z) \<Rightarrow> (r, v\<lparr>sv_writer := (sv_writer v)\<lparr>wdb := m_db z, objects := m_store z\<rparr>,
                       sv_cache := m_cache z, sv_disk := m_faults z\<rparr>))"

definition on_guard :: "'a authop \<Rightarrow> 's server \<Rightarrow> (auth_error + 'a) \<times> 's server" where
  "on_guard m v = (case m (wdb (sv_writer v)) of (r, d) \<Rightarrow> (r, v\<lparr>sv_writer := (sv_writer v)\<lparr>wdb := d\<rparr>\<rparr>))"

definition serveCGI :: "'s git_config \<Rightarrow> http_request \<Rightarrow> string list \<Rightarrow> 's server \<Rightarrow> http_response \<times> 's server" where
  "serveCGI c q extra v =
     (if hq_buffer q = Some False then (HStatus 500, v)
      else (let env = [''GIT_PROJECT_ROOT='' @ cache_root c, ''GIT_HTTP_EXPORT_ALL=1''] @ extra
            in (HGit env, cgi c env v)))"

definition push_env :: "'s git_config \<Rightarrow> push \<Rightarrow> string list" where
  "push_env c p = gitConfigEnv [(''http.receivepack'', ''true''), (''core.hooksPath'', hooks_path c)] @
     [''GITMOTE_SOCK='' @ sock_path c, ''GITMOTE_NONCE='' @ p_nonce p]"

text \<open>The push between \<open>Begin\<close> and \<open>Release\<close>, which is deferred and so runs on every path.\<close>

definition runPush :: "'s git_config \<Rightarrow> http_request \<Rightarrow> string \<Rightarrow> int \<Rightarrow> push \<Rightarrow> 's server \<Rightarrow> http_response \<times> 's server" where
  "runPush c q name pusher p v =
     (case on_mz (Materialize (store_ops c) (cache_root c) name) v of
        (Inl e, v1) \<Rightarrow> (finishMaterialize e, v1)
      | (Inr dir, v1) \<Rightarrow> (case serveCGI c q (push_env c p) v1 of
          (resp, v2) \<Rightarrow> (resp, FireAfterCommit (after_commit c) pusher (outcomes (sv_writer v2) (p_outcome p)) v2)))"

definition serveReceivePack :: "'s git_config \<Rightarrow> http_request \<Rightarrow> string \<Rightarrow> int \<Rightarrow> 's server \<Rightarrow>
    (http_response \<times> 's server) option" where
  "serveReceivePack c q name pusher v =
     (case Begin name pusher (nonce_bytes c) (sv_writer v) of
        None \<Rightarrow> None
      | Some (Inl e, w) \<Rightarrow> Some (if e = BeginMeta NotFound then HStatus 404 else HStatus 500, v\<lparr>sv_writer := w\<rparr>)
      | Some (Inr p, w) \<Rightarrow> (case runPush c q name pusher p (v\<lparr>sv_writer := w\<rparr>) of
          (resp, v1) \<Rightarrow> Some (resp, v1\<lparr>sv_writer := Release p (sv_writer v1)\<rparr>)))"

text \<open>The pusher is the user of the guard; its write path never admits an anonymous caller.\<close>

definition pusher_id :: "user option \<Rightarrow> int" where
  "pusher_id who = (case who of None \<Rightarrow> 0 | Some u \<Rightarrow> user_id u)"

definition ServeHTTP :: "'s git_config \<Rightarrow> http_request \<Rightarrow> 's server \<Rightarrow> (http_response \<times> 's server) option" where
  "ServeHTTP c q v =
     (case parseGitPath (hq_path q) of None \<Rightarrow> Some (HStatus 404, v)
      | Some (name, endpoint) \<Rightarrow> (case classify endpoint q of None \<Rightarrow> Some (HStatus 404, v)
        | Some (p, isReceive, isPush) \<Rightarrow>
            if isReceive \<and> \<not> has_writer c then Some (HStatus 404, v)
            else if isReceive \<and> is_writable c = Some False then Some (HRetry, v)
            else (case on_guard (Authorize (hash c) (clock c) (hq_auth q) name p) v of
               (Inl e, v1) \<Rightarrow> Some (writeAuthError e, v1)
             | (Inr who, v1) \<Rightarrow>
                 if isPush then serveReceivePack c q name (pusher_id who) v1
                 else (case on_mz (if endpoint = ''info/refs'' then MaterializeRefs (cache_root c) name
                                   else Materialize (store_ops c) (cache_root c) name) v1 of
                    (Inl e, v2) \<Rightarrow> Some (finishMaterialize e, v2)
                  | (Inr dir, v2) \<Rightarrow> Some (serveCGI c q
                      (if isReceive then gitConfigEnv [(''http.receivepack'', ''true'')] else []) v2)))))"

section \<open>What reaches git\<close>

lemma admitted_write: "admitted H nw s header r p who \<Longrightarrow> p \<noteq> PermRead \<Longrightarrow> who \<noteq> None"
  by (auto simp: admitted_def split: option.splits)

lemma serveCGI_HGit: "serveCGI c q extra v = (HGit env, v') \<Longrightarrow> hq_buffer q \<noteq> Some False"
  by (auto simp: serveCGI_def split: if_splits)

lemma classify_receive: "classify ep q = Some (p, True, b) \<Longrightarrow> p = PermWrite"
  by (auto simp: classify_def split: if_splits)

lemma classify_push: "classify ep q = Some (p, r, True) \<Longrightarrow> r \<and> p = PermWrite"
  by (auto simp: classify_def split: if_splits)

text \<open>
  C14. Nothing reaches git without the guard: a request is handed to \<open>git http-backend\<close> only if
  its URL and method name an endpoint, the access rules admit the caller to the repository at
  the level that the endpoint needs, and, for anything about receive-pack, this instance has
  the write path and holds the writer lease; the pusher is then a known user.
\<close>

theorem git_only_if_admitted:
  assumes "ServeHTTP c q v = Some (HGit env, v')"
  shows "\<exists>name ep p isR isP r who. parseGitPath (hq_path q) = Some (name, ep) \<and>
    classify ep q = Some (p, isR, isP) \<and> r \<in> set (repos (wdb (sv_writer v))) \<and>
    repo_name r = normalizeRepoName name \<and>
    admitted (hash c) (clock c) (wdb (sv_writer v)) (hq_auth q) r p who \<and>
    (isR \<longrightarrow> has_writer c \<and> is_writable c \<noteq> Some False) \<and> (isP \<longrightarrow> who \<noteq> None)"
proof -
  from assms obtain name ep where path: "parseGitPath (hq_path q) = Some (name, ep)"
    by (auto simp: ServeHTTP_def split: option.splits)
  from assms path obtain p isR isP where cl: "classify ep q = Some (p, isR, isP)"
    by (auto simp: ServeHTTP_def split: option.splits)
  from assms path cl have w: "\<not> (isR \<and> \<not> has_writer c)" "\<not> (isR \<and> is_writable c = Some False)"
    by (auto simp: ServeHTTP_def split: if_splits)
  obtain res v1 where g: "on_guard (Authorize (hash c) (clock c) (hq_auth q) name p) v = (res, v1)"
    by (cases "on_guard (Authorize (hash c) (clock c) (hq_auth q) name p) v")
  have "res \<noteq> Inl e" for e
    using assms path cl w g by (auto simp: ServeHTTP_def writeAuthError_def split: auth_error.splits if_splits)
  then obtain who where "res = Inr who" by (cases res) auto
  with g obtain d where "Authorize (hash c) (clock c) (hq_auth q) name p (wdb (sv_writer v)) = (Inr who, d)"
    by (auto simp: on_guard_def split: prod.splits)
  from authorize_admitted[OF this] obtain r where
    r: "r \<in> set (repos (wdb (sv_writer v)))" "repo_name r = normalizeRepoName name"
      "admitted (hash c) (clock c) (wdb (sv_writer v)) (hq_auth q) r p who" by blast
  have "isP \<longrightarrow> who \<noteq> None"
  proof
    assume isP
    with cl classify_push[of ep q p isR] have "p = PermWrite" by simp
    with admitted_write[OF r(3)] show "who \<noteq> None" by simp
  qed
  with path cl r w show ?thesis by blast
qed

definition sample_server :: "mem server" where
  "sample_server = \<lparr>sv_writer = \<lparr>wdb = sample_db, objects = [(''app/objects/pack/p.pack'', ''y'')], locks = [],
     pushes = (\<lambda>_. None), outcomes = (\<lambda>_. []), next_outcome = 0, wide_print = (\<lambda>_. True)\<rparr>, sv_cache = (\<lambda>_. None), sv_disk = []\<rparr>"

lemma HGit_E:
  assumes "case x of Some (HGit env, v') \<Rightarrow> P v' | _ \<Rightarrow> False"
  obtains env v' where "x = Some (HGit env, v')" "P v'"
proof -
  from assms obtain a b where x: "x = Some (a, b)" by (cases x) auto
  with assms that show thesis by (cases a) auto
qed

text \<open>A git whose receive-pack does what a push of one commit does: it calls the hook back.\<close>

definition sample_git :: "string list \<Rightarrow> mem server \<Rightarrow> mem server" where
  "sample_git env v = (if ''GITMOTE_NONCE=6e31'' \<in> set env
     then v\<lparr>sv_writer := snd (handle_push Mem sample_walk 5 (sample_request\<lparr>rq_nonce := ''6e31''\<rparr>) (sv_writer v))\<rparr>
     else v)"

definition sample_config :: "mem git_config" where
  "sample_config = \<lparr>has_writer = True, is_writable = Some True, hooks_path = ''/h'', sock_path = ''/s'',
     cache_root = ''/c'', hash = (\<lambda>x. x), clock = 7, store_ops = Mem, nonce_bytes = Some ''n1'',
     cgi = sample_git, after_commit = None\<rparr>"

definition sample_http :: "string \<Rightarrow> string \<Rightarrow> string \<Rightarrow> http_request" where
  "sample_http meth path service = \<lparr>hq_method = meth, hq_path = path, hq_service = service,
     hq_auth = sample_auth, hq_buffer = None\<rparr>"

lemma git_only_if_admitted_witness:
  "\<exists>env v' who. ServeHTTP sample_config (sample_http ''POST'' ''/app/git-receive-pack'' []) sample_server = Some (HGit env, v') \<and>
     (\<exists>r. r \<in> set (repos sample_db) \<and> admitted (\<lambda>x. x) 7 sample_db sample_auth r PermWrite (Some who)) \<and>
     ref_map (wdb (sv_writer v')) 2 ''refs/heads/main'' = Some sha1_b"
proof -
  let ?q = "sample_http ''POST'' ''/app/git-receive-pack'' []"
  have "case ServeHTTP sample_config ?q sample_server of Some (HGit env, v') \<Rightarrow>
      ref_map (wdb (sv_writer v')) 2 ''refs/heads/main'' = Some sha1_b | _ \<Rightarrow> False" by code_simp
  then obtain env v' where s: "ServeHTTP sample_config ?q sample_server = Some (HGit env, v')"
      "ref_map (wdb (sv_writer v')) 2 ''refs/heads/main'' = Some sha1_b"
    by (rule HGit_E) blast
  have "parseGitPath (hq_path ?q) = Some (''app'', ''git-receive-pack'')"
    "classify ''git-receive-pack'' ?q = Some (PermWrite, True, True)" by code_simp+
  with git_only_if_admitted[OF s(1)] obtain r u where "r \<in> set (repos (wdb (sv_writer sample_server)))"
    "admitted (hash sample_config) (clock sample_config) (wdb (sv_writer sample_server)) (hq_auth ?q) r PermWrite (Some u)"
    by auto
  with s show ?thesis by (auto simp: sample_server_def sample_config_def sample_http_def)
qed

text \<open>
  An instance without the writer lease refuses everything about receive-pack with the
  retryable answer, before it looks at the token, and changes nothing.
\<close>

theorem follower_refuses_push:
  assumes "parseGitPath (hq_path q) = Some (name, ep)" "classify ep q = Some (p, True, isP)"
    and "has_writer c" "is_writable c = Some False"
  shows "ServeHTTP c q v = Some (HRetry, v)"
  using assms by (simp add: ServeHTTP_def)

lemma follower_refuses_push_witness:
  "ServeHTTP (sample_config\<lparr>is_writable := Some False\<rparr>) (sample_http ''GET'' ''/app/info/refs'' ''git-receive-pack'') sample_server
     = Some (HRetry, sample_server)"
proof (rule follower_refuses_push)
  show "parseGitPath (hq_path (sample_http ''GET'' ''/app/info/refs'' ''git-receive-pack'')) = Some (''app'', ''info/refs'')"
    "classify ''info/refs'' (sample_http ''GET'' ''/app/info/refs'' ''git-receive-pack'') = Some (PermWrite, True, False)"
    by code_simp+
qed (simp_all add: sample_config_def)

section \<open>Reads change nothing\<close>

abbreviation refs_are :: "ref_row list \<Rightarrow> db \<Rightarrow> bool" where
  "refs_are R s \<equiv> refs s = R"

lemma fault_free_refs: "fault_free (refs_are R)"
  by (simp add: fault_free_def)

lemma keeps_refs_Authorize: "keeps (refs_are R) (Authorize H nw header name p)"
proof -
  note k = keeps_query keeps_query_row fault_free_refs keeps_lookupE keeps_bindE keeps_retE keeps_errE
    keeps_liftA
  have t: "keeps (refs_are R) (TouchToken i ts)" for i ts
    unfolding TouchToken_def by (intro keeps_sql fault_free_refs keepsI) simp
  have v: "keeps (refs_are R) (verify H nw raw)" for raw
    unfolding verify_def TokenBySelector_def
    by (auto intro!: k t split: option.split prod.split)
  have a: "keeps (refs_are R) (authorizeToken r p vt)" for r vt
    unfolding authorizeToken_def CanRead_def GetACL_def by (auto intro!: k)
  show ?thesis
    unfolding Authorize_def GetRepo_def Let_def by (auto intro!: k v a split: option.split)
qed

definition quiet :: "('s \<Rightarrow> string \<Rightarrow> bytes option) \<Rightarrow> ref_row list \<Rightarrow> (string \<Rightarrow> bytes option) \<Rightarrow> 's mz \<Rightarrow> bool" where
  "quiet contents R C w \<longleftrightarrow> refs (m_db w) = R \<and> contents (m_store w) = C"

lemma quiet_mz_meta: "keeps (refs_are R) m \<Longrightarrow> keeps (quiet contents R C) (mz_meta m)"
  by (fastforce simp: keeps_def quiet_def mz_meta_def split: prod.splits sum.splits)

lemma quiet_disk: "keeps (quiet contents R C) (disk f dir)"
  by (auto simp: keeps_def quiet_def disk_def Let_def)

lemma quiet_look: "keeps (quiet contents R C) (look dir)"
  unfolding look_def by (intro keeps_bindE quiet_disk) (auto simp: keeps_def)

lemma quiet_mz_store: "(\<And>s r t. m s = (r, t) \<Longrightarrow> contents t = contents s) \<Longrightarrow> keeps (quiet contents R C) (mz_store m)"
  by (fastforce simp: keeps_def quiet_def mz_store_def split: prod.splits sum.splits)

lemma quiet_removeEach: "keeps (quiet contents R C) (removeEach dir ns)"
  by (induction ns) (auto intro!: keeps_retE keeps_bindE quiet_disk)

lemma quiet_refs: "keeps (quiet contents R C) (mirrorRefs dir rows)" "keeps (quiet contents R C) (setHEAD dir b)"
  "keeps (quiet contents R C) (mz_meta (GetRepo name))" "keeps (quiet contents R C) (mz_meta (ListRefs i))"
  "keeps (quiet contents R C) (ensureRepo root name)"
  unfolding mirrorRefs_def writePackedRefs_def removeLooseRefs_def setHEAD_def GetRepo_def ListRefs_def ensureRepo_def
  by (auto intro!: keeps_bindE keeps_retE keeps_errE quiet_disk quiet_look quiet_removeEach quiet_mz_meta
      keeps_query keeps_query_row fault_free_refs split: option.split)

context object_store
begin

lemma quiet_copyMissing: "keeps (quiet contents R C) (copyMissing ops name dir keys)"
  by (induction keys)
     (auto simp: Let_def copyObject_def intro!: keeps_retE keeps_bindE quiet_look quiet_disk quiet_mz_store
       dest: get_result)

lemma quiet_Materialize: "keeps (quiet contents R C) (Materialize ops root name)"
  unfolding Materialize_def hydrateObjects_def writeRefs_def
  by (auto intro!: keeps_bindE keeps_retE quiet_refs quiet_copyMissing quiet_mz_store dest: list_result)

end

lemma quiet_MaterializeRefs: "keeps (quiet contents R C) (MaterializeRefs root name)"
  unfolding MaterializeRefs_def by (auto intro!: keeps_bindE keeps_retE quiet_refs)

text \<open>
  Cloning and fetching never change a ref or an object, whatever fails on the way, as long
  as git's own upload-pack does not.
\<close>

theorem reads_change_nothing:
  assumes "object_store contents (store_ops c)"
    and "\<And>env x. refs (wdb (sv_writer (cgi c env x))) = refs (wdb (sv_writer x)) \<and>
      contents (objects (sv_writer (cgi c env x))) = contents (objects (sv_writer x))"
    and "parseGitPath (hq_path q) = Some (name, ep)" "classify ep q = Some (p, False, isP)"
    and "ServeHTTP c q v = Some (resp, v')"
  shows "refs (wdb (sv_writer v')) = refs (wdb (sv_writer v)) \<and>
    contents (objects (sv_writer v')) = contents (objects (sv_writer v))"
proof -
  have nopush: "\<not> isP" using assms(4) classify_push[of ep q p False] by auto
  obtain res v1 where g: "on_guard (Authorize (hash c) (clock c) (hq_auth q) name p) v = (res, v1)"
    by (cases "on_guard (Authorize (hash c) (clock c) (hq_auth q) name p) v")
  then have s1: "refs (wdb (sv_writer v1)) = refs (wdb (sv_writer v))" "objects (sv_writer v1) = objects (sv_writer v)"
    using keeps_result[OF keeps_refs_Authorize[of "refs (wdb (sv_writer v))"] _ refl]
    by (auto simp: on_guard_def split: prod.splits)
  show ?thesis
  proof (cases res)
    case (Inl e)
    with assms(3-5) g nopush have "v' = v1" by (simp add: ServeHTTP_def)
    with s1 show ?thesis by simp
  next
    case (Inr who)
    let ?m = "if ep = ''info/refs'' then MaterializeRefs (cache_root c) name
              else Materialize (store_ops c) (cache_root c) name"
    obtain y v2 where m: "on_mz ?m v1 = (y, v2)" by (cases "on_mz ?m v1")
    have "keeps (quiet contents (refs (wdb (sv_writer v1))) (contents (objects (sv_writer v1)))) ?m"
      by (auto intro: quiet_MaterializeRefs object_store.quiet_Materialize[OF assms(1)])
    moreover let ?z = "\<lparr>m_db = wdb (sv_writer v1), m_store = objects (sv_writer v1), m_cache = sv_cache v1,
        m_faults = sv_disk v1\<rparr>"
    obtain y' z where z: "?m ?z = (y', z)" by (cases "?m ?z")
    moreover have "quiet contents (refs (wdb (sv_writer v1))) (contents (objects (sv_writer v1))) ?z"
      by (simp add: quiet_def)
    ultimately have "quiet contents (refs (wdb (sv_writer v1))) (contents (objects (sv_writer v1))) z"
      by (rule keeps_result)
    moreover have "wdb (sv_writer v2) = m_db z" "objects (sv_writer v2) = m_store z"
      using m z by (auto simp: on_mz_def)
    ultimately have s2: "refs (wdb (sv_writer v2)) = refs (wdb (sv_writer v1))"
        "contents (objects (sv_writer v2)) = contents (objects (sv_writer v1))"
      by (simp_all add: quiet_def)
    show ?thesis
    proof (cases y)
      case (Inl e)
      with assms(3-5) g Inr m nopush have "v' = v2" by (simp add: ServeHTTP_def)
      with s1 s2 show ?thesis by simp
    next
      case dir: (Inr dir)
      with assms(3-5) g Inr m nopush have "serveCGI c q [] v2 = (resp, v')" by (simp add: ServeHTTP_def)
      with s1 s2 assms(2) show ?thesis by (auto simp: serveCGI_def Let_def split: if_splits)
    qed
  qed
qed

lemma reads_change_nothing_witness:
  "\<exists>env v'. ServeHTTP (sample_config\<lparr>cgi := (\<lambda>_ x. x)\<rparr>) (sample_http ''POST'' ''/app/git-upload-pack'' []) sample_server
      = Some (HGit env, v') \<and> sv_cache v' ''/c/app'' \<noteq> None \<and> refs (wdb (sv_writer v')) = refs sample_db"
proof -
  let ?c = "sample_config\<lparr>cgi := (\<lambda>_ x. x)\<rparr>" and ?q = "sample_http ''POST'' ''/app/git-upload-pack'' []"
  have "case ServeHTTP ?c ?q sample_server of Some (HGit env, v') \<Rightarrow> sv_cache v' ''/c/app'' \<noteq> None | _ \<Rightarrow> False"
    by code_simp
  then obtain env v' where s: "ServeHTTP ?c ?q sample_server = Some (HGit env, v')" "sv_cache v' ''/c/app'' \<noteq> None"
    by (rule HGit_E) blast
  have p: "parseGitPath (hq_path ?q) = Some (''app'', ''git-upload-pack'')"
    "classify ''git-upload-pack'' ?q = Some (PermRead, False, False)" by code_simp+
  have o: "object_store map_of (store_ops ?c)" using mem.object_store_axioms by (simp add: sample_config_def)
  have "refs (wdb (sv_writer v')) = refs (wdb (sv_writer sample_server)) \<and>
      map_of (objects (sv_writer v')) = map_of (objects (sv_writer sample_server))"
    by (rule reads_change_nothing[OF o _ p s(1)]) simp
  with s show ?thesis by (auto simp: sample_server_def)
qed

section \<open>A push ends\<close>

lemma Begin_ok:
  assumes "Begin name pusher rnd w = Some (Inr p, w')"
  shows "\<exists>pop. pushes w' = (pushes w)(p_nonce p \<mapsto> pop)" "locks w' = p_lock p # locks w"
  using assms
  by (auto simp: Begin_def Begin_register_def register_def Let_def dest!: Begin_resolve_pushes
      split: prod.splits sum.splits if_splits option.splits)

lemma Begin_error:
  assumes "Begin name pusher rnd w = Some (Inl e, w')"
  shows "pushes w' = pushes w" "locks w' = locks w"
  using assms
  by (auto simp: Begin_def Begin_register_def register_def Let_def dest!: Begin_resolve_pushes
      split: prod.splits sum.splits if_splits option.splits)

definition tidy :: "string list \<Rightarrow> string set \<Rightarrow> 's server \<Rightarrow> bool" where
  "tidy L N v \<longleftrightarrow> locks (sv_writer v) = L \<and> dom (pushes (sv_writer v)) \<subseteq> N"

lemma tidy_on_mz: "on_mz m v = (r, v') \<Longrightarrow> tidy L N v \<Longrightarrow> tidy L N v'"
  by (auto simp: on_mz_def tidy_def split: prod.splits)

lemma tidy_on_guard: "on_guard m v = (r, v') \<Longrightarrow> tidy L N v \<Longrightarrow> tidy L N v'"
  by (auto simp: on_guard_def tidy_def split: prod.splits)

lemma tidy_runPush:
  assumes "\<And>L N env x. tidy L N x \<Longrightarrow> tidy L N (cgi c env x)"
    and "\<And>f L N i cs x. after_commit c = Some f \<Longrightarrow> tidy L N x \<Longrightarrow> tidy L N (f i cs x)"
    and "runPush c q name pusher p v = (resp, v')" "tidy L N v"
  shows "tidy L N v'"
proof -
  obtain y v1 where m: "on_mz (Materialize (store_ops c) (cache_root c) name) v = (y, v1)"
    by (cases "on_mz (Materialize (store_ops c) (cache_root c) name) v")
  have t1: "tidy L N v1" by (rule tidy_on_mz[OF m assms(4)])
  show ?thesis
  proof (cases y)
    case (Inl e)
    with assms(3) m t1 show ?thesis by (simp add: runPush_def)
  next
    case (Inr dir)
    obtain rs v2 where g: "serveCGI c q (push_env c p) v1 = (rs, v2)" by (cases "serveCGI c q (push_env c p) v1")
    then have t2: "tidy L N v2" using assms(1) t1 by (auto simp: serveCGI_def Let_def split: if_splits)
    from assms(3) m g Inr have "v' = FireAfterCommit (after_commit c) pusher (outcomes (sv_writer v2) (p_outcome p)) v2"
      by (simp add: runPush_def)
    with t2 assms(2) show ?thesis by (auto simp: FireAfterCommit_def split: option.splits)
  qed
qed

text \<open>
  Every request gives back what it took: when it has been answered, on any path and with
  any failure, the locks are those from before and no nonce is left over, if git's processes and
  the after-commit hook take none of their own.
\<close>

theorem request_leaves_no_lock:
  assumes "\<And>L N env x. tidy L N x \<Longrightarrow> tidy L N (cgi c env x)"
    and "\<And>f L N i cs x. after_commit c = Some f \<Longrightarrow> tidy L N x \<Longrightarrow> tidy L N (f i cs x)"
    and "ServeHTTP c q v = Some (resp, v')"
  shows "locks (sv_writer v') = locks (sv_writer v) \<and>
    dom (pushes (sv_writer v')) \<subseteq> dom (pushes (sv_writer v))"
proof -
  let ?L = "locks (sv_writer v)" and ?N = "dom (pushes (sv_writer v))"
  have t: "tidy ?L ?N v" by (simp add: tidy_def)
  have push: "tidy ?L ?N v2" if t1: "tidy ?L ?N v1" and s: "serveReceivePack c q name i v1 = Some (rs, v2)" for name i v1 rs v2
  proof -
    from s obtain b w where b: "Begin name i (nonce_bytes c) (sv_writer v1) = Some (b, w)"
      by (auto simp: serveReceivePack_def split: option.splits)
    show ?thesis
    proof (cases b)
      case (Inl e)
      with s b have "v2 = v1\<lparr>sv_writer := w\<rparr>" by (simp add: serveReceivePack_def)
      with Begin_error[OF b[unfolded Inl]] t1 show ?thesis by (simp add: tidy_def)
    next
      case (Inr p)
      note ok = Begin_ok[OF b[unfolded Inr]]
      obtain rs' v3 where r: "runPush c q name i p (v1\<lparr>sv_writer := w\<rparr>) = (rs', v3)"
        by (cases "runPush c q name i p (v1\<lparr>sv_writer := w\<rparr>)")
      have t2: "tidy (p_lock p # ?L) (insert (p_nonce p) ?N) (v1\<lparr>sv_writer := w\<rparr>)"
      proof -
        from ok(1) obtain pop where "pushes w = (pushes (sv_writer v1))(p_nonce p \<mapsto> pop)" by blast
        then have "dom (pushes w) = insert (p_nonce p) (dom (pushes (sv_writer v1)))" by simp
        with ok(2) t1 show ?thesis by (auto simp: tidy_def)
      qed
      have "tidy (p_lock p # ?L) (insert (p_nonce p) ?N) v3"
        by (rule tidy_runPush[where c = c]) (use assms(1,2) r t2 in blast)+
      moreover from s b Inr r have "v2 = v3\<lparr>sv_writer := Release p (sv_writer v3)\<rparr>"
        by (simp add: serveReceivePack_def)
      ultimately show ?thesis by (auto simp: tidy_def Release_def unregister_def)
    qed
  qed
  have "tidy ?L ?N v'"
    using assms(3) t
    by (auto simp: ServeHTTP_def serveCGI_def Let_def split: option.splits prod.splits if_splits sum.splits
        dest!: tidy_on_guard[of _ v _ _ ?L ?N, OF _ t] intro: push tidy_on_mz assms(1))
  then show ?thesis by (simp add: tidy_def)
qed

lemma tidy_sample_git: "tidy L N v \<Longrightarrow> tidy L N (sample_git env v)"
  by (auto simp: tidy_def sample_git_def handle_pushes handle_locks[OF prod.collapse[symmetric]])

lemma request_leaves_no_lock_witness:
  "\<exists>env v'. ServeHTTP sample_config (sample_http ''POST'' ''/app/git-receive-pack'' []) sample_server = Some (HGit env, v') \<and>
     locks (sv_writer v') = [] \<and> dom (pushes (sv_writer v')) = {}"
proof -
  let ?q = "sample_http ''POST'' ''/app/git-receive-pack'' []"
  have "case ServeHTTP sample_config ?q sample_server of Some (HGit env, v') \<Rightarrow> True | _ \<Rightarrow> False" by code_simp
  then obtain env v' where s: "ServeHTTP sample_config ?q sample_server = Some (HGit env, v')"
    by (rule HGit_E) blast
  have "locks (sv_writer v') = locks (sv_writer sample_server) \<and>
      dom (pushes (sv_writer v')) \<subseteq> dom (pushes (sv_writer sample_server))"
    by (rule request_leaves_no_lock[OF _ _ s]) (simp_all add: sample_config_def tidy_sample_git)
  with s show ?thesis by (auto simp: sample_server_def)
qed

end
