(* ===== verification/Browse.thy ===== *)
theory Browse
  imports GoPath
begin

text \<open>
  \<open>internal/repo/browse.go\<close>: what the web interface reads of a materialized repository, by
  running git commands and parsing what they print. The git program is a parameter: a
  function of the directory and of the arguments, which exits with a status, its output and
  its error text, or could not be started.
\<close>

datatype git_exit = Exited int bytes string | NotStarted string

type_synonym git_program = "string \<Rightarrow> string list \<Rightarrow> git_exit"

datatype browse_error = BrowseNotFound | BrowseFailed string | BadSize

record TreeEntry =
  entry_mode :: string
  entry_type :: string
  entry_sha :: string
  entry_size :: int
  entry_path :: string
  entry_name :: string

record Commit =
  commit_sha :: string
  author :: string
  email :: string
  authored :: time
  subject :: string
  message_body :: string

section \<open>Dates of RFC 3339\<close>

text \<open>
  \<open>time.Parse(time.RFC3339, s)\<close> on the strict form that git prints, in seconds since 1970.
  The caller ignores the error, and a time that did not parse is Go's zero time, the start
  of the year 1.
\<close>

definition zero_time :: time where "zero_time = - 62135596800"

definition leap_year :: "int \<Rightarrow> bool" where
  "leap_year y \<longleftrightarrow> y mod 4 = 0 \<and> (y mod 100 \<noteq> 0 \<or> y mod 400 = 0)"

definition month_days :: "int \<Rightarrow> int \<Rightarrow> int" where
  "month_days y m = (if m = 2 then (if leap_year y then 29 else 28)
     else if m \<in> {4, 6, 9, 11} then 30 else 31)"

definition days_before :: "int \<Rightarrow> int \<Rightarrow> int \<Rightarrow> int" where
  "days_before y m d = 365 * (y - 1970) + ((y - 1) div 4 - 492) - ((y - 1) div 100 - 19)
     + ((y - 1) div 400 - 4) + sum_list (map (month_days y) [1..m - 1]) + (d - 1)"

definition number_at :: "string \<Rightarrow> nat \<Rightarrow> nat \<Rightarrow> int option" where
  "number_at s i n = (let ds = take n (drop i s)
     in if length ds = n then map_option int (parse_nat ds) else None)"

definition char_at :: "string \<Rightarrow> nat \<Rightarrow> char option" where
  "char_at s i = (if i < length s then Some (s ! i) else None)"

definition zone_offset :: "string \<Rightarrow> int option" where
  "zone_offset z = (if z = ''Z'' then Some 0
     else if length z = 6 \<and> hd z \<in> {CHR ''+'', CHR ''-''} \<and> char_at z 3 = Some (CHR '':'') then
       (case (number_at z 1 2, number_at z 4 2) of
          (Some h, Some m) \<Rightarrow> if h < 24 \<and> m < 60
             then Some ((if hd z = CHR ''-'' then - 1 else 1) * (3600 * h + 60 * m)) else None
        | _ \<Rightarrow> None)
     else None)"

definition parse_rfc3339 :: "string \<Rightarrow> time option" where
  "parse_rfc3339 s =
     (if map (char_at s) [4, 7, 10, 13, 16] = map Some ''--T::'' then
        (case (number_at s 0 4, number_at s 5 2, number_at s 8 2) of
           (Some y, Some mo, Some d) \<Rightarrow>
             (case (number_at s 11 2, number_at s 14 2, number_at s 17 2, zone_offset (drop 19 s)) of
                (Some h, Some mi, Some sec, Some z) \<Rightarrow>
                  if 1 \<le> mo \<and> mo \<le> 12 \<and> 1 \<le> d \<and> d \<le> month_days y mo \<and> h < 24 \<and> mi < 60 \<and> sec < 60
                  then Some (86400 * days_before y mo d + 3600 * h + 60 * mi + sec - z) else None
              | _ \<Rightarrow> None)
         | _ \<Rightarrow> None)
      else None)"

lemma parse_rfc3339_epoch: "parse_rfc3339 ''1970-01-01T00:00:00Z'' = Some 0"
  by code_simp

lemma parse_rfc3339_leap: "parse_rfc3339 ''2024-02-29T12:30:00+02:00'' = Some 1709202600"
  by code_simp

lemma parse_rfc3339_no_day: "parse_rfc3339 ''2023-02-29T12:30:00Z'' = None"
  by code_simp

section \<open>Parsing what git prints\<close>

definition tab :: char where "tab = CHR 0x09"
definition unit_sep :: char where "unit_sep = CHR 0x1F"
definition record_sep :: char where "record_sep = CHR 0x1E"

definition commitFormat :: string where
  "commitFormat = ''%H%x1f%an%x1f%ae%x1f%aI%x1f%s%x1f%b%x1e''"

definition formatArg :: string where
  "formatArg = ''--format='' @ commitFormat"

definition trim_left :: "char \<Rightarrow> string \<Rightarrow> string" where
  "trim_left c s = dropWhile (\<lambda>x. x = c) s"

definition trim_right :: "char \<Rightarrow> string \<Rightarrow> string" where
  "trim_right c s = rev (dropWhile (\<lambda>x. x = c) (rev s))"

definition parse_line :: "string \<Rightarrow> TreeEntry option" where
  "parse_line line =
     (if line = [] then None
      else case cut [tab] line of
        None \<Rightarrow> None
      | Some (meta, name) \<Rightarrow>
          (case str_fields meta of
             md # ty # sha # sz # _ \<Rightarrow>
               Some \<lparr>entry_mode = md, entry_type = ty, entry_sha = sha,
                     entry_size = (case parse_int64 sz of Some n \<Rightarrow> n | None \<Rightarrow> 0),
                     entry_path = name, entry_name = path_base name\<rparr>
           | _ \<Rightarrow> None))"

definition parseTree :: "bytes \<Rightarrow> TreeEntry list" where
  "parseTree out = List.map_filter parse_line (split_on newline out)"

definition parse_commit :: "string \<Rightarrow> Commit option" where
  "parse_commit rec =
     (let r = trim_char newline rec in
      if r = [] then None
      else case split_on unit_sep r of
        h # an # ae # d # sj # b # _ \<Rightarrow>
          Some \<lparr>commit_sha = h, author = an, email = ae,
                authored = (case parse_rfc3339 d of Some t \<Rightarrow> t | None \<Rightarrow> zero_time),
                subject = sj, message_body = trim_right newline b\<rparr>
      | _ \<Rightarrow> None)"

definition parseCommits :: "bytes \<Rightarrow> Commit list" where
  "parseCommits out = List.map_filter parse_commit (split_on record_sep out)"

definition isBinary :: "bytes \<Rightarrow> bool" where
  "isBinary content \<longleftrightarrow> CHR 0x00 \<in> set (take 8000 content)"

section \<open>The operations\<close>

definition safeRev :: "string \<Rightarrow> bool" where
  "safeRev r \<longleftrightarrow> r \<noteq> [] \<and> \<not> has_prefix ''-'' r"

definition safePath :: "string \<Rightarrow> bool" where
  "safePath p \<longleftrightarrow> p = [] \<or> (\<not> has_prefix ''/'' p \<and> ''..'' \<notin> set (split_on (CHR ''/'') p))"

definition runGitOut :: "git_program \<Rightarrow> string \<Rightarrow> string list \<Rightarrow> browse_error + bytes" where
  "runGitOut git dir args =
     (case git dir args of
        Exited code out err \<Rightarrow> if code = 0 then Inr out else Inl BrowseNotFound
      | NotStarted m \<Rightarrow> Inl (BrowseFailed (''git '' @ join_with '' '' args @ '': '' @ m)))"

definition on_output :: "(browse_error + 'a) \<Rightarrow> ('a \<Rightarrow> browse_error + 'b) \<Rightarrow> browse_error + 'b" where
  "on_output r k = (case r of Inl e \<Rightarrow> Inl e | Inr out \<Rightarrow> k out)"

definition checked :: "bool list \<Rightarrow> (browse_error + 'a) \<Rightarrow> browse_error + 'a" where
  "checked guards r = (if list_all id guards then r else Inl BrowseNotFound)"

definition ResolveRef :: "git_program \<Rightarrow> string \<Rightarrow> string \<Rightarrow> browse_error + string" where
  "ResolveRef git dir r = checked [safeRev r]
     (on_output (runGitOut git dir [''rev-parse'', ''--verify'', ''--end-of-options'', r @ ''^{commit}''])
       (\<lambda>out. Inr (trim_space out)))"

definition Tree :: "git_program \<Rightarrow> string \<Rightarrow> string \<Rightarrow> string \<Rightarrow> browse_error + TreeEntry list" where
  "Tree git dir sha treePath = checked [safeRev sha, safePath treePath]
     (on_output
       (runGitOut git dir ([''ls-tree'', ''--long'', ''--end-of-options'', sha] @
          (if treePath \<noteq> [] then [''--'', trim_suffix ''/'' treePath @ ''/''] else [])))
       (\<lambda>out. Inr (parseTree out)))"

definition EntryType :: "git_program \<Rightarrow> string \<Rightarrow> string \<Rightarrow> string \<Rightarrow> browse_error + string" where
  "EntryType git dir sha p =
     (if p = [] then Inr ''tree''
      else checked [safeRev sha, safePath p]
        (on_output
          (runGitOut git dir [''ls-tree'', ''--long'', ''--end-of-options'', sha, ''--'', trim_suffix ''/'' p])
          (\<lambda>out. case parseTree out of [] \<Rightarrow> Inl BrowseNotFound | e # _ \<Rightarrow> Inr (entry_type e))))"

definition Blob :: "git_program \<Rightarrow> string \<Rightarrow> string \<Rightarrow> string \<Rightarrow> browse_error + bytes \<times> int \<times> bool" where
  "Blob git dir sha blobPath = checked [safeRev sha, safePath blobPath]
     (on_output
       (runGitOut git dir [''cat-file'', ''blob'', ''--end-of-options'', sha @ '':'' @ blobPath])
       (\<lambda>out. Inr (out, int (length out), isBinary out)))"

definition BlobSize :: "git_program \<Rightarrow> string \<Rightarrow> string \<Rightarrow> string \<Rightarrow> browse_error + int" where
  "BlobSize git dir sha blobPath = checked [safeRev sha, safePath blobPath]
     (on_output
       (runGitOut git dir [''cat-file'', ''-s'', ''--end-of-options'', sha @ '':'' @ blobPath])
       (\<lambda>out. case parse_int64 (trim_space out) of None \<Rightarrow> Inl BadSize | Some n \<Rightarrow> Inr n))"

text \<open>
  \<open>BlobReader\<close> hands out the output of the running command and \<open>Close\<close> its exit: a
  failure of git shows only when the reader is closed, after what was printed was sent.
\<close>

definition BlobReader :: "git_program \<Rightarrow> string \<Rightarrow> string \<Rightarrow> string \<Rightarrow> browse_error + bytes \<times> bool" where
  "BlobReader git dir sha blobPath = checked [safeRev sha, safePath blobPath]
     (case git dir [''cat-file'', ''blob'', ''--end-of-options'', sha @ '':'' @ blobPath] of
        Exited code out err \<Rightarrow> Inr (out, code = 0)
      | NotStarted m \<Rightarrow> Inl (BrowseFailed m))"

definition Log :: "git_program \<Rightarrow> string \<Rightarrow> string \<Rightarrow> string \<Rightarrow> nat \<Rightarrow> browse_error + Commit list \<times> bool" where
  "Log git dir sha logPath limit = checked [safeRev sha, safePath logPath]
     (on_output
       (runGitOut git dir ([''log'', formatArg, ''-n'', format_nat (limit + 1),
          ''--end-of-options'', sha] @ (if logPath \<noteq> [] then [''--'', logPath] else [])))
       (\<lambda>out. let commits = parseCommits out in
          if length commits > limit then Inr (take limit commits, True) else Inr (commits, False)))"

definition Show :: "git_program \<Rightarrow> string \<Rightarrow> string \<Rightarrow> browse_error + Commit \<times> string" where
  "Show git dir sha = checked [safeRev sha]
     (on_output
       (runGitOut git dir [''show'', formatArg, ''--patch'', ''--root'',
          ''--end-of-options'', sha])
       (\<lambda>out. let (front, diff) = (case cut [record_sep] out of Some p \<Rightarrow> p | None \<Rightarrow> (out, []))
              in case parseCommits (front @ [record_sep]) of
                   [] \<Rightarrow> Inl BrowseNotFound
                 | c # _ \<Rightarrow> Inr (c, trim_left newline diff)))"

definition Compare :: "git_program \<Rightarrow> string \<Rightarrow> string \<Rightarrow> string \<Rightarrow> browse_error + Commit list \<times> string" where
  "Compare git dir base head = checked [safeRev base, safeRev head]
     (on_output
       (runGitOut git dir [''log'', formatArg, ''--end-of-options'', base @ ''..'' @ head])
       (\<lambda>log. on_output
          (runGitOut git dir [''diff'', ''--end-of-options'', base @ ''...'' @ head])
          (\<lambda>patch. Inr (parseCommits log, trim_left newline patch))))"

section \<open>The commands that a request can make git run\<close>

text \<open>
  A request names revisions and paths. \<open>confined\<close> says of a command line that what the
  request wrote is only ever an operand: the options before \<open>--end-of-options\<close> are one of
  the fixed lists below (\<open>-n\<close> takes a number), the revision is not empty and does not begin
  with a dash, and a path stands after \<open>--\<close>.
\<close>

definition fixed_options :: "string list \<Rightarrow> bool" where
  "fixed_options os \<longleftrightarrow>
     os \<in> {[''rev-parse'', ''--verify''], [''ls-tree'', ''--long''], [''cat-file'', ''blob''],
           [''cat-file'', ''-s''], [''show'', formatArg, ''--patch'', ''--root''],
           [''log'', formatArg], [''diff'']} \<or>
     (take 3 os = [''log'', formatArg, ''-n''] \<and> length os = 4 \<and>
      parse_nat (os ! 3) \<noteq> None)"

definition operands :: "string list \<Rightarrow> bool" where
  "operands rs \<longleftrightarrow> (case rs of
      [r] \<Rightarrow> safeRev r
    | [r, dashes, p] \<Rightarrow> safeRev r \<and> dashes = ''--'' \<and> \<not> has_prefix ''/'' p \<and>
        ''..'' \<notin> set (split_on (CHR ''/'') p)
    | _ \<Rightarrow> False)"

definition confined :: "string list \<Rightarrow> bool" where
  "confined args \<longleftrightarrow>
     fixed_options (takeWhile (\<lambda>a. a \<noteq> ''--end-of-options'') args) \<and>
     operands (tl (dropWhile (\<lambda>a. a \<noteq> ''--end-of-options'') args))"

datatype browse_op = OpResolve string | OpTree string string | OpType string string
  | OpBlob string string | OpSize string string | OpReader string string
  | OpLog string string nat | OpShow string | OpCompare string string

datatype browse_result = GotRev string | GotTree "TreeEntry list" | GotType string
  | GotBlob bytes int bool | GotSize int | GotReader bytes bool | GotLog "Commit list" bool
  | GotShow Commit string | GotCompare "Commit list" string

fun browse :: "git_program \<Rightarrow> string \<Rightarrow> browse_op \<Rightarrow> browse_error + browse_result" where
  "browse git dir (OpResolve r) = map_sum id GotRev (ResolveRef git dir r)"
| "browse git dir (OpTree s p) = map_sum id GotTree (Tree git dir s p)"
| "browse git dir (OpType s p) = map_sum id GotType (EntryType git dir s p)"
| "browse git dir (OpBlob s p) = map_sum id (\<lambda>(c, n, b). GotBlob c n b) (Blob git dir s p)"
| "browse git dir (OpSize s p) = map_sum id GotSize (BlobSize git dir s p)"
| "browse git dir (OpReader s p) = map_sum id (\<lambda>(c, b). GotReader c b) (BlobReader git dir s p)"
| "browse git dir (OpLog s p n) = map_sum id (\<lambda>(c, b). GotLog c b) (Log git dir s p n)"
| "browse git dir (OpShow s) = map_sum id (\<lambda>(c, d). GotShow c d) (Show git dir s)"
| "browse git dir (OpCompare b h) = map_sum id (\<lambda>(c, d). GotCompare c d) (Compare git dir b h)"

lemma safeRev_append [simp]: "safeRev r \<Longrightarrow> safeRev (r @ s)"
  by (cases r) (auto simp: safeRev_def has_prefix_def)

lemma safePath_split:
  "safePath p \<Longrightarrow> \<not> has_prefix ''/'' p \<and> ''..'' \<notin> set (split_on (CHR ''/'') p)"
  by (auto simp: safePath_def has_prefix_def)

lemma trim_slash_path:
  assumes "safePath p"
  shows "\<not> has_prefix ''/'' (trim_suffix ''/'' p) \<and> ''..'' \<notin> set (split_on (CHR ''/'') (trim_suffix ''/'' p))"
proof (cases "has_suffix ''/'' p")
  case True
  then obtain q where q: "p = q @ ''/''" by (auto simp: has_suffix_iff)
  have sp: "split_on (CHR ''/'') (q @ ''/'') = split_on (CHR ''/'') q @ [[]]"
    by (induction q) (auto split: list.splits)
  have t: "trim_suffix ''/'' p = q" unfolding q by (rule trim_suffix_append)
  from safePath_split[OF assms] have "\<not> has_prefix ''/'' q" "''..'' \<notin> set (split_on (CHR ''/'') q)"
    unfolding q sp by (auto simp: has_prefix_def)
  with t show ?thesis by simp
next
  case False
  then show ?thesis using safePath_split[OF assms] by (simp add: trim_suffix_id)
qed

lemma slash_path:
  assumes "safePath p" "p \<noteq> []"
  shows "\<not> has_prefix ''/'' (trim_suffix ''/'' p @ ''/'') \<and>
         ''..'' \<notin> set (split_on (CHR ''/'') (trim_suffix ''/'' p @ ''/''))"
proof -
  let ?q = "trim_suffix ''/'' p"
  have sp: "split_on (CHR ''/'') (q @ ''/'') = split_on (CHR ''/'') q @ [[]]" for q
    by (induction q) (auto split: list.splits)
  have "p \<noteq> ''/''" using assms(1) by (auto simp: safePath_def has_prefix_def)
  with assms(2) have "?q \<noteq> []" by (auto simp: trim_suffix_def has_suffix_iff)
  then have "\<not> has_prefix ''/'' (?q @ ''/'')"
    using trim_slash_path[OF assms(1)] by (cases ?q) (auto simp: has_prefix_def)
  with trim_slash_path[OF assms(1)] sp[of ?q] show ?thesis by auto
qed

lemma confinedI:
  assumes "fixed_options os" "''--end-of-options'' \<notin> set os" "operands rs"
  shows "confined (os @ ''--end-of-options'' # rs)"
proof -
  have "takeWhile (\<lambda>a. a \<noteq> ''--end-of-options'') (os @ ''--end-of-options'' # rs) = os"
    "dropWhile (\<lambda>a. a \<noteq> ''--end-of-options'') (os @ ''--end-of-options'' # rs) = ''--end-of-options'' # rs"
    using assms(2) by (auto simp: takeWhile_append dropWhile_append)
  with assms show ?thesis by (simp add: confined_def)
qed

lemma runGitOut_cong: "git1 dir args = git2 dir args \<Longrightarrow> runGitOut git1 dir args = runGitOut git2 dir args"
  by (simp add: runGitOut_def)

lemma checked_cong:
  "(list_all id gs \<Longrightarrow> r = s) \<Longrightarrow> checked gs r = checked gs s"
  by (simp add: checked_def)

lemma on_output_cong:
  "r = s \<Longrightarrow> (\<And>out. k out = l out) \<Longrightarrow> on_output r k = on_output s l"
  by (cases s) (auto simp: on_output_def)

lemma safe_colon: "safeRev r \<Longrightarrow> safeRev (r @ '':'' @ p)"
  by simp

lemma confined_rev:
  "fixed_options os \<Longrightarrow> ''--end-of-options'' \<notin> set os \<Longrightarrow> safeRev r \<Longrightarrow>
   confined (os @ [''--end-of-options'', r])"
  by (rule confinedI) (auto simp: operands_def)

lemma confined_path:
  "fixed_options os \<Longrightarrow> ''--end-of-options'' \<notin> set os \<Longrightarrow> safeRev r \<Longrightarrow>
   \<not> has_prefix ''/'' p \<Longrightarrow> ''..'' \<notin> set (split_on (CHR ''/'') p) \<Longrightarrow>
   confined (os @ [''--end-of-options'', r, ''--'', p])"
  by (rule confinedI) (auto simp: operands_def)

lemma format_nat_not_end: "format_nat n \<noteq> ''--end-of-options''"
  using format_nat_hd[of n] by (auto simp: decimal_digits_def)

lemma log_options:
  "fixed_options [''log'', formatArg, ''-n'', format_nat n]"
  "''--end-of-options'' \<notin> set [''log'', formatArg, ''-n'', format_nat n]"
  using format_nat_not_end[of n] by (auto simp: fixed_options_def formatArg_def commitFormat_def numeral_eq_Suc)

lemma confined_commands:
  "safeRev r \<Longrightarrow> confined [''rev-parse'', ''--verify'', ''--end-of-options'', r]"
  "safeRev r \<Longrightarrow> confined [''ls-tree'', ''--long'', ''--end-of-options'', r]"
  "safeRev r \<Longrightarrow> confined [''cat-file'', ''blob'', ''--end-of-options'', r]"
  "safeRev r \<Longrightarrow> confined [''cat-file'', ''-s'', ''--end-of-options'', r]"
  "safeRev r \<Longrightarrow> confined [''show'', formatArg, ''--patch'', ''--root'', ''--end-of-options'', r]"
  "safeRev r \<Longrightarrow> confined [''log'', formatArg, ''--end-of-options'', r]"
  "safeRev r \<Longrightarrow> confined [''diff'', ''--end-of-options'', r]"
  "safeRev r \<Longrightarrow> confined [''log'', formatArg, ''-n'', format_nat n, ''--end-of-options'', r]"
  using confined_rev[of "[''rev-parse'', ''--verify'']" r] confined_rev[of "[''ls-tree'', ''--long'']" r]
    confined_rev[of "[''cat-file'', ''blob'']" r] confined_rev[of "[''cat-file'', ''-s'']" r]
    confined_rev[of "[''show'', formatArg, ''--patch'', ''--root'']" r]
    confined_rev[of "[''log'', formatArg]" r] confined_rev[of "[''diff'']" r]
    confined_rev[OF log_options, of r n]
  by (simp_all add: fixed_options_def formatArg_def)

lemma confined_listing:
  assumes "safeRev r" "\<not> has_prefix ''/'' p" "''..'' \<notin> set (split_on (CHR ''/'') p)"
  shows "confined [''ls-tree'', ''--long'', ''--end-of-options'', r, ''--'', p]"
    "confined [''log'', formatArg, ''-n'', format_nat n, ''--end-of-options'', r, ''--'', p]"
  using confined_path[of "[''ls-tree'', ''--long'']" r p] confined_path[OF log_options, of r p n] assms
  by (simp_all add: fixed_options_def)

lemma browse_uses_confined:
  assumes "\<And>args. confined args \<Longrightarrow> git1 dir args = git2 dir args"
  shows "browse git1 dir op = browse git2 dir op"
proof -
  note sub = runGitOut_cong[where ?git1.0 = git1 and ?git2.0 = git2, OF assms]
  have rev: "ResolveRef git1 dir r = ResolveRef git2 dir r" for r
    unfolding ResolveRef_def
    by (intro checked_cong on_output_cong sub refl) (simp add: confined_commands)
  have tree: "Tree git1 dir s p = Tree git2 dir s p" for s p
    unfolding Tree_def
    by (intro checked_cong on_output_cong sub refl)
      (use slash_path[of p] in \<open>auto simp: confined_commands confined_listing\<close>)
  have type: "EntryType git1 dir s p = EntryType git2 dir s p" for s p
    unfolding EntryType_def
    by (intro if_cong checked_cong on_output_cong sub refl)
      (use trim_slash_path[of p] in \<open>auto simp: confined_listing\<close>)
  have blob: "Blob git1 dir s p = Blob git2 dir s p" "BlobSize git1 dir s p = BlobSize git2 dir s p" for s p
    unfolding Blob_def BlobSize_def
    by (intro checked_cong on_output_cong sub refl; simp add: confined_commands)+
  have reader: "BlobReader git1 dir s p = BlobReader git2 dir s p" for s p
    unfolding BlobReader_def
    by (rule checked_cong) (simp add: assms confined_commands)
  have log: "Log git1 dir s p n = Log git2 dir s p n" for s p n
    unfolding Log_def
    by (intro checked_cong on_output_cong sub refl)
      (use safePath_split[of p] in \<open>auto simp: confined_commands confined_listing\<close>)
  have show_: "Show git1 dir s = Show git2 dir s" for s
    unfolding Show_def
    by (intro checked_cong on_output_cong sub refl) (simp add: confined_commands)
  have compare: "Compare git1 dir b h = Compare git2 dir b h" for b h
    unfolding Compare_def
    by (intro checked_cong on_output_cong sub refl) (simp_all add: confined_commands)
  show ?thesis
    by (cases op) (simp_all only: browse.simps rev tree type blob reader log show_ compare)
qed



text \<open>A revision or path that is not safe is answered as not found without running git.\<close>

lemma unsafe_rev_rejected:
  assumes "\<not> safeRev r"
  shows "browse git dir (OpResolve r) = Inl BrowseNotFound" "browse git dir (OpTree r p) = Inl BrowseNotFound"
    "browse git dir (OpBlob r p) = Inl BrowseNotFound" "browse git dir (OpLog r p n) = Inl BrowseNotFound"
    "browse git dir (OpShow r) = Inl BrowseNotFound" "browse git dir (OpCompare r h) = Inl BrowseNotFound"
    "browse git dir (OpCompare b r) = Inl BrowseNotFound"
  using assms
  by (simp_all add: ResolveRef_def Tree_def Blob_def Log_def Show_def Compare_def checked_def)

section \<open>What the parsers recover\<close>

text \<open>
  \<open>print_commit\<close> is what git prints of a commit under the format above: the six fields
  separated by the unit separator, the record separator, and the line end of
  \<open>--format\<close>. \<open>print_entry\<close> is a line of \<open>ls-tree --long\<close>.
\<close>

definition print_commit :: "string list \<Rightarrow> bytes" where
  "print_commit fs = join_with [unit_sep] fs @ [record_sep, newline]"

definition commit_fields :: "string list \<Rightarrow> bool" where
  "commit_fields fs \<longleftrightarrow> length fs = 6 \<and> (\<forall>f \<in> set fs. unit_sep \<notin> set f \<and> record_sep \<notin> set f) \<and>
     hd fs \<noteq> [] \<and> newline \<notin> set (hd fs)"

definition commit_of :: "string list \<Rightarrow> Commit" where
  "commit_of fs = \<lparr>commit_sha = fs ! 0, author = fs ! 1, email = fs ! 2,
     authored = (case parse_rfc3339 (fs ! 3) of Some t \<Rightarrow> t | None \<Rightarrow> zero_time),
     subject = fs ! 4, message_body = trim_right newline (fs ! 5)\<rparr>"

definition print_entry :: "string \<times> string \<times> string \<times> string \<times> string \<Rightarrow> bytes" where
  "print_entry = (\<lambda>(md, ty, sha, sz, name).
     join_with '' '' [md, ty, sha, replicate (7 - length sz) (CHR '' '') @ sz] @ [tab] @ name)"

definition entry_fields :: "string \<times> string \<times> string \<times> string \<times> string \<Rightarrow> bool" where
  "entry_fields = (\<lambda>(md, ty, sha, sz, name). word md \<and> word ty \<and> word sha \<and> word sz \<and>
     newline \<notin> set name)"

definition entry_of :: "string \<times> string \<times> string \<times> string \<times> string \<Rightarrow> TreeEntry" where
  "entry_of = (\<lambda>(md, ty, sha, sz, name).
     \<lparr>entry_mode = md, entry_type = ty, entry_sha = sha,
      entry_size = (case parse_int64 sz of Some n \<Rightarrow> n | None \<Rightarrow> 0),
      entry_path = name, entry_name = path_base name\<rparr>)"

lemma separators [simp]:
  "unit_sep \<noteq> newline" "newline \<noteq> unit_sep" "record_sep \<noteq> newline" "newline \<noteq> record_sep"
  "unit_sep \<noteq> record_sep" "record_sep \<noteq> unit_sep" "tab \<noteq> newline" "newline \<noteq> tab" "is_space tab"
  by (simp_all add: unit_sep_def record_sep_def newline_def tab_def is_space_def)

lemma trim_right_snoc:
  assumes "u \<noteq> c"
  shows "trim_right c (p @ u # b) = p @ u # trim_right c b"
proof -
  have "dropWhile (\<lambda>x. x = c) (ys @ u # rev p) = dropWhile (\<lambda>x. x = c) ys @ u # rev p" for ys
    using assms by (induction ys) auto
  then show ?thesis by (simp add: trim_right_def)
qed

lemma trim_right_idem: "trim_right c (trim_right c b) = trim_right c b"
proof -
  have "dropWhile P (dropWhile P xs) = dropWhile P xs" for P and xs :: string
    by (induction xs) auto
  then show ?thesis by (simp add: trim_right_def)
qed

lemma trim_right_subset: "set (trim_right c b) \<subseteq> set b"
  by (auto simp: trim_right_def dest: set_dropWhileD)

lemma trim_char_both: "trim_char c s = trim_right c (trim_left c s)"
  by (simp add: trim_char_def trim_right_def trim_left_def)

lemma parse_commit_printed:
  assumes "commit_fields fs" "set nl \<subseteq> {newline}"
  shows "parse_commit (nl @ join_with [unit_sep] fs) = Some (commit_of fs)"
proof -
  obtain h an ae d sj b where fs: "fs = [h, an, ae, d, sj, b]"
    using assms(1) by (auto simp: commit_fields_def length_Suc_conv numeral_eq_Suc)
  obtain x h' where h: "h = x # h'" "x \<noteq> newline"
    using assms(1) fs by (cases h) (auto simp: commit_fields_def)
  let ?p = "h @ unit_sep # an @ unit_sep # ae @ unit_sep # d @ unit_sep # sj"
  have j: "join_with [unit_sep] fs = ?p @ unit_sep # b" by (simp add: fs)
  have "trim_left newline (nl @ ?p @ unit_sep # b) = ?p @ unit_sep # b"
    using assms(2) h by (induction nl) (auto simp: trim_left_def)
  then have t: "trim_char newline (nl @ join_with [unit_sep] fs) = ?p @ unit_sep # trim_right newline b"
    using trim_right_snoc[of unit_sep newline ?p b] by (simp add: trim_char_both j)
  have s: "split_on unit_sep (?p @ unit_sep # trim_right newline b) =
      [h, an, ae, d, sj, trim_right newline b]"
  proof -
    have "?p @ unit_sep # trim_right newline b =
        join_with [unit_sep] [h, an, ae, d, sj, trim_right newline b]" by simp
    moreover have "\<forall>f \<in> set [h, an, ae, d, sj, trim_right newline b]. unit_sep \<notin> set f"
      using assms(1) trim_right_subset[of newline b] by (auto simp: commit_fields_def fs)
    ultimately show ?thesis using split_on_join by (metis list.distinct(1))
  qed
  show ?thesis
    unfolding parse_commit_def t Let_def s
    by (simp add: h commit_of_def fs trim_right_idem)
qed

lemma set_join_with: "set (join_with sep xs) \<subseteq> set sep \<union> \<Union> (set ` set xs)"
  by (induction sep xs rule: join_with.induct) auto

lemma split_records:
  assumes "\<forall>fs \<in> set fss. commit_fields fs" "set nl \<subseteq> {newline}"
  shows "List.map_filter parse_commit (split_on record_sep (nl @ concat (map print_commit fss)))
     = map commit_of fss"
  using assms
proof (induction fss arbitrary: nl)
  case Nil
  have "record_sep \<notin> set nl" using Nil.prems(2) separators(3) by blast
  moreover have "trim_char newline nl = []"
    using Nil.prems(2) by (auto simp: trim_char_def dest: set_dropWhileD)
  ultimately show ?case
    by (simp add: split_on_no_sep List.map_filter_def parse_commit_def)
next
  case (Cons fs fss)
  have "record_sep \<notin> set (join_with [unit_sep] fs)"
    using set_join_with[of "[unit_sep]" fs] Cons.prems(1) separators(6) by (auto simp: commit_fields_def)
  moreover have "record_sep \<notin> set nl" using Cons.prems(2) separators(3) by blast
  ultimately have n: "record_sep \<notin> set (nl @ join_with [unit_sep] fs)" by simp
  have "split_on record_sep (nl @ concat (map print_commit (fs # fss))) =
      (nl @ join_with [unit_sep] fs) # split_on record_sep ([newline] @ concat (map print_commit fss))"
    using split_on_append[OF n, of "[newline] @ concat (map print_commit fss)"]
    by (simp add: print_commit_def)
  with Cons.IH[of "[newline]"] Cons.prems parse_commit_printed[of fs nl] show ?case
    by (simp add: List.map_filter_def)
qed

lemma parseCommits_printed:
  "\<forall>fs \<in> set fss. commit_fields fs \<Longrightarrow> parseCommits (concat (map print_commit fss)) = map commit_of fss"
  using split_records[of fss "[]"] by (simp add: parseCommits_def)

text \<open>
  \<open>Log\<close> returns the history that git has, cut at the limit, and reports more exactly
  when there is more: for any messages and authors, line ends included.
\<close>

theorem log_exact:
  assumes "safeRev sha" "safePath p" "\<forall>fs \<in> set history. commit_fields fs"
    "git dir ([''log'', formatArg, ''-n'', format_nat (limit + 1), ''--end-of-options'', sha] @
       (if p \<noteq> [] then [''--'', p] else []))
     = Exited 0 (concat (map print_commit (take (limit + 1) history))) ''''"
  shows "Log git dir sha p limit = Inr (map commit_of (take limit history), limit < length history)"
proof -
  define cs where "cs = map commit_of (take (limit + 1) history)"
  define out where "out = concat (map print_commit (take (limit + 1) history))"
  have p: "parseCommits out = cs"
    unfolding out_def cs_def using assms(3) by (intro parseCommits_printed) (auto dest: in_set_takeD)
  note git = assms(4)[folded out_def]
  have l: "Log git dir sha p limit = (if limit < length cs then Inr (take limit cs, True) else Inr (cs, False))"
    using assms(1,2) by (simp add: Log_def checked_def on_output_def runGitOut_def Let_def git[simplified] p)
  show ?thesis by (simp add: l cs_def take_map)
qed

lemma log_exact_witness:
  "Log (\<lambda>d args. Exited 0 (concat (map print_commit (take 2
        [[''c3'', ''Ada'', ''ada@x'', ''2024-02-29T12:30:00Z'', ''third'', [newline]],
         [''b2'', ''Ada'', ''ada@x'', ''2024-02-28T12:30:00Z'', ''second'', ''why'' @ [newline]]]))) '''')
     ''/r'' ''main'' '''' 1
   = Inr ([\<lparr>commit_sha = ''c3'', author = ''Ada'', email = ''ada@x'', authored = 1709209800,
            subject = ''third'', message_body = ''''\<rparr>], True)"
proof -
  let ?h = "[[''c3'', ''Ada'', ''ada@x'', ''2024-02-29T12:30:00Z'', ''third'', [newline]],
         [''b2'', ''Ada'', ''ada@x'', ''2024-02-28T12:30:00Z'', ''second'', ''why'' @ [newline]]]"
  have f: "\<forall>fs \<in> set ?h. commit_fields fs"
    by (simp add: commit_fields_def unit_sep_def record_sep_def newline_def)
  have r: "safeRev ''main''" "safePath ''''" by code_simp+
  have t: "parse_rfc3339 ''2024-02-29T12:30:00Z'' = Some 1709209800" by code_simp
  from log_exact[OF r f, where limit = 1 and dir = "''/r''" and
      git = "\<lambda>d args. Exited 0 (concat (map print_commit (take 2 ?h))) ''''"]
  show ?thesis by (simp add: commit_of_def t trim_right_def numeral_eq_Suc)
qed

lemma fields_acc_spaces: "fields_acc [] (replicate n (CHR '' '') @ s) = fields_acc [] s"
  by (induction n) auto

lemma fields_acc_one: "word w \<Longrightarrow> fields_acc [] (w @ CHR '' '' # s) = w # fields_acc [] s"
  using fields_acc_word[of w "[]" "CHR '' '' # s"] by (simp add: word_def)

lemma fields_acc_end: "word w \<Longrightarrow> fields_acc [] w = [w]"
  using fields_acc_word[of w "[]" "[]"] by (simp add: word_def)

lemma word_no: "word w \<Longrightarrow> is_space c \<Longrightarrow> c \<notin> set w"
  by (auto simp: word_def)

lemma parse_line_printed:
  assumes "entry_fields e"
  shows "parse_line (print_entry e) = Some (entry_of e)" "newline \<notin> set (print_entry e)"
proof -
  obtain md ty sha sz name where e: "e = (md, ty, sha, sz, name)" by (cases e) auto
  from assms have w: "word md" "word ty" "word sha" "word sz" and nl: "newline \<notin> set name"
    by (simp_all add: entry_fields_def e)
  let ?m = "join_with '' '' [md, ty, sha, replicate (7 - length sz) (CHR '' '') @ sz]"
  have no: "c \<notin> set ?m" if "is_space c" "c \<noteq> CHR '' ''" for c
    using set_join_with[of "'' ''" "[md, ty, sha, replicate (7 - length sz) (CHR '' '') @ sz]"]
      word_no[OF w(1) that(1)] word_no[OF w(2) that(1)] word_no[OF w(3) that(1)] word_no[OF w(4) that(1)] that
    by auto
  have p: "print_entry e = ?m @ tab # name" by (simp add: print_entry_def e)
  have c: "cut [tab] (?m @ tab # name) = Some (?m, name)"
    by (rule cut_char) (rule no, simp_all add: tab_def is_space_def)
  have f: "str_fields ?m = [md, ty, sha, sz]"
    by (simp add: str_fields_def fields_acc_one[OF w(1)] fields_acc_one[OF w(2)] fields_acc_one[OF w(3)]
        fields_acc_spaces fields_acc_end[OF w(4)])
  show "parse_line (print_entry e) = Some (entry_of e)"
    unfolding parse_line_def p c option.case prod.case f list.case
    by (simp add: entry_of_def e)
  show "newline \<notin> set (print_entry e)"
    using no[of newline] nl by (simp add: p) (simp add: newline_def)
qed

lemma parseTree_printed:
  "\<forall>e \<in> set es. entry_fields e \<Longrightarrow>
   parseTree (concat (map (\<lambda>e. print_entry e @ [newline]) es)) = map entry_of es"
proof (induction es)
  case Nil
  show ?case by (simp add: parseTree_def List.map_filter_def parse_line_def)
next
  case (Cons e es)
  then have "split_on newline (concat (map (\<lambda>e. print_entry e @ [newline]) (e # es))) =
      print_entry e # split_on newline (concat (map (\<lambda>e. print_entry e @ [newline]) es))"
    using parse_line_printed(2)[of e] by (simp add: split_on_append)
  with Cons parse_line_printed(1)[of e] show ?case
    by (simp add: parseTree_def List.map_filter_def)
qed

text \<open>
  A directory listing has exactly the entries of the tree, in git's order, with their
  mode, type, object, size (0 where git prints a dash) and path, whatever the names are as
  long as git prints them in one line. The name is taken as git prints it: a name that git
  quotes stays quoted.
\<close>

theorem tree_exact:
  assumes "safeRev sha" "safePath p" "\<forall>e \<in> set es. entry_fields e"
    "git dir ([''ls-tree'', ''--long'', ''--end-of-options'', sha] @
       (if p \<noteq> [] then [''--'', trim_suffix ''/'' p @ ''/''] else []))
     = Exited 0 (concat (map (\<lambda>e. print_entry e @ [newline]) es)) ''''"
  shows "Tree git dir sha p = Inr (map entry_of es)"
  using assms parseTree_printed[OF assms(3)]
  by (simp add: Tree_def checked_def on_output_def runGitOut_def)

lemma tree_exact_witness:
  "Tree (\<lambda>d args. Exited 0 (concat (map (\<lambda>e. print_entry e @ [newline])
       [(''100644'', ''blob'', ''a1'', ''12'', ''src/a b''), (''040000'', ''tree'', ''b2'', ''-'', ''src/lib'')])) '''')
     ''/r'' ''main'' ''src''
   = Inr [\<lparr>entry_mode = ''100644'', entry_type = ''blob'', entry_sha = ''a1'', entry_size = 12,
           entry_path = ''src/a b'', entry_name = ''a b''\<rparr>,
          \<lparr>entry_mode = ''040000'', entry_type = ''tree'', entry_sha = ''b2'', entry_size = 0,
           entry_path = ''src/lib'', entry_name = ''lib''\<rparr>]"
proof -
  let ?es = "[(''100644'', ''blob'', ''a1'', ''12'', ''src/a b''), (''040000'', ''tree'', ''b2'', ''-'', ''src/lib'')]"
  have f: "\<forall>e \<in> set ?es. entry_fields e"
    by (simp add: entry_fields_def word_def is_space_def newline_def)
  have r: "safeRev ''main''" "safePath ''src''" by code_simp+
  have m: "map entry_of ?es =
      [\<lparr>entry_mode = ''100644'', entry_type = ''blob'', entry_sha = ''a1'', entry_size = 12,
        entry_path = ''src/a b'', entry_name = ''a b''\<rparr>,
       \<lparr>entry_mode = ''040000'', entry_type = ''tree'', entry_sha = ''b2'', entry_size = 0,
        entry_path = ''src/lib'', entry_name = ''lib''\<rparr>]" by code_simp
  have "Tree (\<lambda>d args. Exited 0 (concat (map (\<lambda>e. print_entry e @ [newline]) ?es)) '''') ''/r'' ''main'' ''src''
      = Inr (map entry_of ?es)"
    by (rule tree_exact[OF r f]) simp
  then show ?thesis unfolding m .
qed

end
