(* ===== verification/Triggers.thy ===== *)
theory Triggers
  imports Prelude
begin

text \<open>
  \<open>internal/ci/triggers.go\<close>: which pushes start a workflow. The YAML library is a
  parameter; the nodes it returns are the datatype below. The glob is matched by Go's
  \<open>regexp\<close> on the expression that \<open>globMatch\<close> writes: \<open>*\<close> becomes \<open>[^/]*\<close>,
  \<open>**\<close> becomes \<open>.*\<close>, in which the dot is any character but a line end, and any other
  character stands for itself. A pattern comes from YAML, which is UTF-8, so the expression
  always compiles.
\<close>

datatype ykind = NoNode | ScalarNode | SequenceNode | MappingNode | AliasNode

datatype ynode = YNode (node_kind: ykind) (node_value: string) (node_content: "ynode list")

record pushTrigger =
  reacts :: bool
  branches :: "string list"
  branchesIgnore :: "string list"

definition no_trigger :: pushTrigger where
  "no_trigger = \<lparr>reacts = False, branches = [], branchesIgnore = []\<rparr>"

section \<open>Globs\<close>

text \<open>\<open>AnyBut c\<close> is a run of characters other than \<open>c\<close>: a slash for \<open>*\<close>, a line end for \<open>**\<close>.\<close>

datatype glob = Lit char | AnyBut char

abbreviation Star :: glob where "Star \<equiv> AnyBut (CHR ''/'')"
abbreviation StarStar :: glob where "StarStar \<equiv> AnyBut newline"

fun glob_tokens :: "string \<Rightarrow> glob list" where
  "glob_tokens [] = []"
| "glob_tokens [c] = (if c = CHR ''*'' then [Star] else [Lit c])"
| "glob_tokens (c # d # cs) =
     (if c = CHR ''*'' then (if d = CHR ''*'' then StarStar # glob_tokens cs else Star # glob_tokens (d # cs))
      else Lit c # glob_tokens (d # cs))"

fun glob_run :: "glob list \<Rightarrow> string \<Rightarrow> bool" where
  "glob_run [] s = (s = [])"
| "glob_run (Lit c # ts) [] = False"
| "glob_run (Lit c # ts) (x # xs) = (x = c \<and> glob_run ts xs)"
| "glob_run (AnyBut c # ts) [] = glob_run ts []"
| "glob_run (AnyBut c # ts) (x # xs) =
     (glob_run ts (x # xs) \<or> (x \<noteq> c \<and> glob_run (AnyBut c # ts) xs))"

definition globMatch :: "string \<Rightarrow> string \<Rightarrow> bool" where
  "globMatch pattern name = glob_run (glob_tokens pattern) name"

fun anyGlob :: "string list \<Rightarrow> string \<Rightarrow> bool" where
  "anyGlob [] name = False"
| "anyGlob (p # ps) name = (if globMatch p name then True else anyGlob ps name)"

section \<open>The trigger of a workflow\<close>

fun pair_value :: "string \<Rightarrow> ynode list \<Rightarrow> ynode option" where
  "pair_value key (k # v # rest) = (if node_value k = key then Some v else pair_value key rest)"
| "pair_value key rest = None"

definition mapValue :: "ynode \<Rightarrow> string \<Rightarrow> ynode option" where
  "mapValue m key = pair_value key (node_content m)"

definition seqStrings :: "ynode option \<Rightarrow> string list" where
  "seqStrings n = (case n of None \<Rightarrow> []
     | Some n \<Rightarrow> (case node_kind n of
         ScalarNode \<Rightarrow> [node_value n]
       | SequenceNode \<Rightarrow> map node_value (filter (\<lambda>e. node_kind e = ScalarNode) (node_content n))
       | _ \<Rightarrow> []))"

definition interpretOn :: "ynode \<Rightarrow> pushTrigger" where
  "interpretOn on = (case node_kind on of
      ScalarNode \<Rightarrow> no_trigger\<lparr>reacts := node_value on = ''push''\<rparr>
    | SequenceNode \<Rightarrow>
        no_trigger\<lparr>reacts := list_ex (\<lambda>n. node_kind n = ScalarNode \<and> node_value n = ''push'') (node_content on)\<rparr>
    | MappingNode \<Rightarrow>
        (case pair_value ''push'' (node_content on) of
           None \<Rightarrow> no_trigger
         | Some v \<Rightarrow>
             if node_kind v = MappingNode
             then \<lparr>reacts = True, branches = seqStrings (mapValue v ''branches''),
                   branchesIgnore = seqStrings (mapValue v ''branches-ignore'')\<rparr>
             else no_trigger\<lparr>reacts := True\<rparr>)
    | _ \<Rightarrow> no_trigger)"

text \<open>
  \<open>yaml_on\<close> is \<open>yaml.Unmarshal\<close> into the struct with the key \<open>on\<close>: nothing when
  the file does not parse, and a node of no kind when it has no such key.
\<close>

definition parsePushTrigger :: "(bytes \<Rightarrow> ynode option) \<Rightarrow> bytes \<Rightarrow> pushTrigger option" where
  "parsePushTrigger yaml_on content = map_option interpretOn (yaml_on content)"

definition matches :: "pushTrigger \<Rightarrow> string \<Rightarrow> bool" where
  "matches t branch =
     (if \<not> reacts t then False
      else if branches t \<noteq> [] \<and> \<not> anyGlob (branches t) branch then False
      else if branchesIgnore t \<noteq> [] \<and> anyGlob (branchesIgnore t) branch then False
      else True)"

section \<open>What a glob means\<close>

text \<open>A name fits a pattern when it can be cut into one part for every token.\<close>

fun fits :: "glob \<Rightarrow> string \<Rightarrow> bool" where
  "fits (Lit c) part = (part = [c])"
| "fits (AnyBut c) part = (c \<notin> set part)"

lemma wild_step:
  "(\<exists>part rest. x # xs = part @ rest \<and> fits (AnyBut c) part \<and> R rest) \<longleftrightarrow>
    R (x # xs) \<or> (x \<noteq> c \<and> (\<exists>part rest. xs = part @ rest \<and> fits (AnyBut c) part \<and> R rest))" (is "?l \<longleftrightarrow> ?r")
proof
  assume ?l
  then obtain part rest where p: "x # xs = part @ rest" "fits (AnyBut c) part" "R rest" by blast
  show ?r
  proof (cases part)
    case (Cons y ps)
    with p have "x \<noteq> c" "xs = ps @ rest" "fits (AnyBut c) ps" by auto
    with p(3) show ?thesis by blast
  qed (use p in auto)
next
  assume ?r
  then show ?l
  proof
    assume "R (x # xs)"
    then show ?l by (intro exI[of _ "[]"] exI[of _ "x # xs"]) auto
  next
    assume "x \<noteq> c \<and> (\<exists>part rest. xs = part @ rest \<and> fits (AnyBut c) part \<and> R rest)"
    then obtain part rest where "x \<noteq> c" "xs = part @ rest" "fits (AnyBut c) part" "R rest" by blast
    then show ?l by (intro exI[of _ "x # part"] exI[of _ rest]) auto
  qed
qed

lemma list_all2_Cons_concat:
  "(\<exists>parts. list_all2 fits (t # ts) parts \<and> s = concat parts) \<longleftrightarrow>
   (\<exists>part rest. s = part @ rest \<and> fits t part \<and> (\<exists>parts. list_all2 fits ts parts \<and> rest = concat parts))"
  (is "?l \<longleftrightarrow> ?r")
proof
  assume ?l
  then obtain p ps where "fits t p" "list_all2 fits ts ps" "s = concat (p # ps)"
    by (auto simp: list_all2_Cons1)
  then show ?r by (intro exI[of _ p] exI[of _ "concat ps"]) auto
next
  assume ?r
  then obtain p rest ps where "s = p @ rest" "fits t p" "list_all2 fits ts ps" "rest = concat ps" by blast
  then show ?l by (intro exI[of _ "p # ps"]) simp
qed

lemma glob_run_fits:
  "glob_run ts s \<longleftrightarrow> (\<exists>parts. list_all2 fits ts parts \<and> s = concat parts)"
proof (induction ts s rule: glob_run.induct)
  case (3 c ts x xs)
  then show ?case unfolding list_all2_Cons_concat by auto
next
  case (2 c ts)
  then show ?case unfolding list_all2_Cons_concat by auto
next
  case (4 c ts)
  then show ?case unfolding list_all2_Cons_concat by auto
next
  case (5 c ts x xs)
  then show ?case unfolding list_all2_Cons_concat glob_run.simps by (subst wild_step) auto
qed simp

lemma anyGlob_iff: "anyGlob ps name \<longleftrightarrow> (\<exists>p \<in> set ps. globMatch p name)"
  by (induction ps) auto


lemma glob_examples:
  "globMatch ''feature/*'' ''feature/login''" "\<not> globMatch ''feature/*'' ''feature/login/deep''"
  "globMatch ''release/**'' ''release/1.2/rc''" "globMatch ''v*.*'' ''v1.2''" "\<not> globMatch ''main'' ''master''"
  by code_simp+

section \<open>What a filter means\<close>

definition scalar :: "string \<Rightarrow> ynode" where
  "scalar v = YNode ScalarNode v []"

definition sequence :: "string list \<Rightarrow> ynode" where
  "sequence vs = YNode SequenceNode [] (map scalar vs)"

definition mapping :: "(string \<times> ynode) list \<Rightarrow> ynode" where
  "mapping kvs = YNode MappingNode [] (concat (map (\<lambda>(k, v). [scalar k, v]) kvs))"

lemma pair_value_mapping:
  "pair_value key (node_content (mapping kvs)) = map_of kvs key"
  by (induction kvs) (auto simp: mapping_def scalar_def)

lemma mapping_kind [simp]: "node_kind (mapping kvs) = MappingNode"
  by (simp add: mapping_def)

lemma seqStrings_forms [simp]:
  "seqStrings (Some (sequence vs)) = vs" "seqStrings (Some (scalar v)) = [v]" "seqStrings None = []"
  by (induction vs) (simp_all add: seqStrings_def sequence_def scalar_def)

text \<open>
  A workflow whose \<open>on\<close> is a mapping with a push filter runs for a branch exactly when
  the branch is in the allow list, or that list is absent or empty, and is not in the ignore
  list; with no \<open>push\<close> key it never runs. A filter is a scalar or a sequence; other keys
  of the two mappings, and their order, do not matter.
\<close>

theorem push_filter_correct:
  assumes "map_of f ''branches'' = map_option sequence bs" "map_of f ''branches-ignore'' = map_option sequence is"
    "map_of events ''push'' = Some (mapping f)"
  shows "matches (interpretOn (mapping events)) branch \<longleftrightarrow>
     (case bs of None \<Rightarrow> True | Some ps \<Rightarrow> ps = [] \<or> (\<exists>p \<in> set ps. globMatch p branch)) \<and>
     (case is of None \<Rightarrow> True | Some ps \<Rightarrow> \<not> (\<exists>p \<in> set ps. globMatch p branch))"
proof -
  have "interpretOn (mapping events) = \<lparr>reacts = True,
      branches = (case bs of None \<Rightarrow> [] | Some ps \<Rightarrow> ps),
      branchesIgnore = (case is of None \<Rightarrow> [] | Some ps \<Rightarrow> ps)\<rparr>"
    using assms by (simp add: interpretOn_def mapValue_def pair_value_mapping split: option.split)
  then show ?thesis
    by (auto simp: matches_def anyGlob_iff split: option.splits)
qed

lemma push_filter_correct_witness:
  "matches (interpretOn (mapping [(''workflow_dispatch'', scalar ''''),
      (''push'', mapping [(''branches-ignore'', sequence [''release/old'']), (''branches'', sequence [''main'', ''release/*''])])]))
     ''release/1'' \<and>
   \<not> matches (interpretOn (mapping [(''workflow_dispatch'', scalar ''''),
      (''push'', mapping [(''branches-ignore'', sequence [''release/old'']), (''branches'', sequence [''main'', ''release/*''])])]))
     ''release/old''"
proof -
  let ?f = "[(''branches-ignore'', sequence [''release/old'']), (''branches'', sequence [''main'', ''release/*''])]"
  let ?e = "[(''workflow_dispatch'', scalar ''''), (''push'', mapping ?f)]"
  have g: "globMatch ''release/*'' ''release/1''" "\<not> globMatch ''release/old'' ''release/1''"
    "globMatch ''release/old'' ''release/old''" by code_simp+
  have "matches (interpretOn (mapping ?e)) b \<longleftrightarrow>
      (\<exists>p \<in> set [''main'', ''release/*'']. globMatch p b) \<and> \<not> (\<exists>p \<in> set [''release/old'']. globMatch p b)" for b
    using push_filter_correct[of ?f "Some [''main'', ''release/*'']" "Some [''release/old'']" ?e b] by simp
  with g show ?thesis by simp
qed

text \<open>
  Two shapes leave a branch filter without effect: an alias instead of the list, and an empty
  list. Both run the workflow on every branch.
\<close>

lemma alias_filter_ignored:
  "matches (interpretOn (mapping [(''push'', mapping [(''branches'', YNode AliasNode ''deployable'' [])])])) branch"
  "matches (interpretOn (mapping [(''push'', mapping [(''branches'', sequence [])])])) branch"
  by (simp_all add: interpretOn_def mapping_def mapValue_def seqStrings_def matches_def scalar_def sequence_def)

end
