(* ===== verification/Keyring.thy ===== *)
theory Keyring
  imports MetaSecrets GoEncoding "HOL-Library.AList"
begin

text \<open>
  \<open>internal/secrets\<close>: the master keys of the server, the envelopes of CI secrets and the
  service that seals and opens them over the metadata. AES-GCM and HKDF are a parameter, the
  record \<open>crypto\<close>; what the lemmas rely on is \<open>opens_exactly\<close>: opening gives back
  what was sealed, and opens nothing else. A fresh nonce is an argument: the bytes that
  \<open>rand.Read\<close> gave, or its failure.
\<close>

record crypto =
  seal :: "bytes \<Rightarrow> bytes \<Rightarrow> bytes \<Rightarrow> bytes \<Rightarrow> bytes"
  unseal :: "bytes \<Rightarrow> bytes \<Rightarrow> bytes \<Rightarrow> bytes \<Rightarrow> bytes option"
  hkdf :: "bytes \<Rightarrow> string \<Rightarrow> bytes"

record Envelope =
  env_version :: int
  env_iv :: bytes
  env_ct :: bytes

record Keyring =
  master_keys :: "(int \<times> bytes) list"
  current :: int

datatype secret_error = NonNumericVersion string | BadBase64 string | BadKeyLength string nat
  | NoMasterKey | UnknownVersion int | BadIV nat | OpenFailed int string | NoRandom
  | MalformedName string | ReservedName string | SecretMeta meta_error

section \<open>The keyring\<close>

definition keyEnvPrefix :: string where
  "keyEnvPrefix = ''GITMOTE_CI_SECRET_KEY_V''"

definition masterKeyLen :: nat where "masterKeyLen = 32"

definition ivLen :: nat where "ivLen = 12"

definition env_pair :: "string \<Rightarrow> string \<times> string" where
  "env_pair kv = (case cut ''='' kv of Some p \<Rightarrow> p | None \<Rightarrow> (kv, []))"

definition addKey :: "string \<Rightarrow> Keyring \<Rightarrow> secret_error + Keyring" where
  "addKey kv kr =
     (let (name, val) = env_pair kv in
      if \<not> has_prefix keyEnvPrefix name then Inr kr
      else if trim_space val = [] then Inr kr
      else case parse_int64 (trim_prefix keyEnvPrefix name) of
        None \<Rightarrow> Inl (NonNumericVersion name)
      | Some v \<Rightarrow>
          if v < 1 then Inl (NonNumericVersion name)
          else (case b64_decode (trim_space val) of
             None \<Rightarrow> Inl (BadBase64 name)
           | Some raw \<Rightarrow>
               if length raw \<noteq> masterKeyLen then Inl (BadKeyLength name (length raw))
               else Inr (kr\<lparr>master_keys := AList.update v raw (master_keys kr),
                           current := (if v > current kr then v else current kr)\<rparr>)))"

fun addKeys :: "string list \<Rightarrow> Keyring \<Rightarrow> secret_error + Keyring" where
  "addKeys [] kr = Inr kr"
| "addKeys (kv # kvs) kr = (case addKey kv kr of Inl e \<Rightarrow> Inl e | Inr kr \<Rightarrow> addKeys kvs kr)"

definition NewKeyringFromEnv :: "string list \<Rightarrow> secret_error + Keyring" where
  "NewKeyringFromEnv environ = addKeys environ \<lparr>master_keys = [], current = 0\<rparr>"

definition Enabled :: "Keyring \<Rightarrow> bool" where
  "Enabled kr \<longleftrightarrow> length (master_keys kr) > 0"

definition nul :: string where "nul = [CHR 0x00]"

definition aad :: "int \<Rightarrow> string \<Rightarrow> int \<Rightarrow> bytes" where
  "aad repo name v = format_int repo @ nul @ name @ nul @ format_int v"

definition gcm :: "crypto \<Rightarrow> Keyring \<Rightarrow> int \<Rightarrow> int \<Rightarrow> secret_error + bytes" where
  "gcm C kr v repo = (case map_of (master_keys kr) v of
      None \<Rightarrow> Inl (UnknownVersion v)
    | Some master \<Rightarrow> Inr (hkdf C master (''ci-secret:'' @ format_int repo)))"

definition Encrypt :: "crypto \<Rightarrow> Keyring \<Rightarrow> bytes option \<Rightarrow> int \<Rightarrow> string \<Rightarrow> string \<Rightarrow> secret_error + Envelope" where
  "Encrypt C kr rand repo name plaintext =
     (if \<not> Enabled kr then Inl NoMasterKey
      else case gcm C kr (current kr) repo of
        Inl e \<Rightarrow> Inl e
      | Inr sub \<Rightarrow> (case rand of
          None \<Rightarrow> Inl NoRandom
        | Some iv \<Rightarrow> Inr \<lparr>env_version = current kr, env_iv = iv,
            env_ct = seal C sub iv (aad repo name (current kr)) plaintext\<rparr>))"

definition Decrypt :: "crypto \<Rightarrow> Keyring \<Rightarrow> int \<Rightarrow> string \<Rightarrow> Envelope \<Rightarrow> secret_error + string" where
  "Decrypt C kr repo name e =
     (if length (env_iv e) \<noteq> ivLen then Inl (BadIV (length (env_iv e)))
      else case gcm C kr (env_version e) repo of
        Inl er \<Rightarrow> Inl er
      | Inr sub \<Rightarrow>
          (case unseal C sub (env_iv e) (aad repo name (env_version e)) (env_ct e) of
             None \<Rightarrow> Inl (OpenFailed repo name)
           | Some pt \<Rightarrow> Inr pt))"

section \<open>The service\<close>

definition letter :: "char \<Rightarrow> bool" where
  "letter c \<longleftrightarrow> c = CHR ''_'' \<or> (65 \<le> (of_char c :: nat) \<and> (of_char c :: nat) \<le> 90) \<or>
     (97 \<le> (of_char c :: nat) \<and> (of_char c :: nat) \<le> 122)"

definition shell_name :: "string \<Rightarrow> bool" where
  "shell_name s \<longleftrightarrow> s \<noteq> [] \<and> letter (hd s) \<and> (\<forall>c \<in> set s. letter c \<or> digit_val c \<noteq> None)"

definition validName :: "string \<Rightarrow> secret_error + unit" where
  "validName name =
     (if \<not> shell_name name then Inl (MalformedName name)
      else if has_prefix ''GITMOTE_'' name \<or> name = ''WORKER_SECRET'' then Inl (ReservedName name)
      else Inr ())"

definition liftS :: "'a dbop \<Rightarrow> db \<Rightarrow> (secret_error + 'a) \<times> db" where
  "liftS m s = (case m s of (r, t) \<Rightarrow> (map_sum SecretMeta id r, t))"

definition Service_SetSecret :: "crypto \<Rightarrow> Keyring \<Rightarrow> bytes option \<Rightarrow> time \<Rightarrow> int \<Rightarrow> string \<Rightarrow> string
    \<Rightarrow> db \<Rightarrow> (secret_error + unit) \<times> db" where
  "Service_SetSecret C kr rand now repo name val s =
     (case validName name of Inl e \<Rightarrow> (Inl e, s) | Inr _ \<Rightarrow>
       (case Encrypt C kr rand repo name val of Inl e \<Rightarrow> (Inl e, s)
        | Inr env \<Rightarrow> liftS (SetSecret repo name (env_version env) (env_iv env) (env_ct env) now) s))"

definition Service_ListSecretNames :: "int \<Rightarrow> db \<Rightarrow> (secret_error + string list) \<times> db" where
  "Service_ListSecretNames repo = liftS (ListSecretNames repo)"

definition Service_DeleteSecret :: "int \<Rightarrow> string \<Rightarrow> db \<Rightarrow> (secret_error + unit) \<times> db" where
  "Service_DeleteSecret repo name = liftS (DeleteSecret repo name)"

fun open_all :: "crypto \<Rightarrow> Keyring \<Rightarrow> int \<Rightarrow> ci_secret list \<Rightarrow> (string \<rightharpoonup> string)
    \<Rightarrow> secret_error + (string \<rightharpoonup> string)" where
  "open_all C kr repo [] out = Inr out"
| "open_all C kr repo (e # es) out =
     (case Decrypt C kr repo (cs_name e)
         \<lparr>env_version = cs_version e, env_iv = cs_iv e, env_ct = cs_ct e\<rparr> of
        Inl er \<Rightarrow> Inl er
      | Inr v \<Rightarrow> open_all C kr repo es (out(cs_name e \<mapsto> v)))"

definition Secrets :: "crypto \<Rightarrow> Keyring \<Rightarrow> int \<Rightarrow> db \<Rightarrow> (secret_error + (string \<rightharpoonup> string)) \<times> db" where
  "Secrets C kr repo s = (case liftS (GetSecrets repo) s of
      (Inl e, t) \<Rightarrow> (Inl e, t)
    | (Inr stored, t) \<Rightarrow> (open_all C kr repo stored Map.empty, t))"

section \<open>Authenticated encryption\<close>

text \<open>
  GCM is deterministic given the nonce: a ciphertext opens exactly if it is the sealing of the
  plaintext under the same key, nonce and associated data. \<open>no_forgery\<close> is the ideal of
  authenticity, that two sealings of different associated data are never the same bytes.
\<close>

definition opens_exactly :: "crypto \<Rightarrow> bool" where
  "opens_exactly C \<longleftrightarrow> (\<forall>k iv ad ct pt. unseal C k iv ad ct = Some pt \<longleftrightarrow> ct = seal C k iv ad pt)"

definition no_forgery :: "crypto \<Rightarrow> bool" where
  "no_forgery C \<longleftrightarrow> (\<forall>k iv ad pt k' ad' pt'. seal C k iv ad pt = seal C k' iv ad' pt' \<longrightarrow> ad = ad')"

lemma unseal_seal: "opens_exactly C \<Longrightarrow> unseal C k iv ad (seal C k iv ad pt) = Some pt"
  by (simp add: opens_exactly_def)

lemma unseal_Some: "opens_exactly C \<Longrightarrow> unseal C k iv ad ct = Some pt \<Longrightarrow> ct = seal C k iv ad pt"
  by (simp add: opens_exactly_def)

text \<open>
  A concrete instance, for the witnesses: the associated data in hexadecimal in front of the
  plaintext.
\<close>

definition sample_crypto :: crypto where
  "sample_crypto = \<lparr>seal = (\<lambda>k iv ad pt. hex_encode ad @ ''.'' @ pt),
     unseal = (\<lambda>k iv ad ct. cut_prefix (hex_encode ad @ ''.'') ct), hkdf = (\<lambda>k info. k @ info)\<rparr>"

lemma sample_crypto_ok [simp]: "opens_exactly sample_crypto" "no_forgery sample_crypto"
  by (auto simp: opens_exactly_def no_forgery_def sample_crypto_def cut_prefix_Some append_sep_inj
      dest: hex_encode_inj)

section \<open>Envelopes\<close>

definition keyring_ok :: "Keyring \<Rightarrow> bool" where
  "keyring_ok kr \<longleftrightarrow> (\<forall>p \<in> set (master_keys kr). 1 \<le> fst p \<and> fst p \<le> current kr \<and> length (snd p) = masterKeyLen) \<and>
     (Enabled kr \<longrightarrow> map_of (master_keys kr) (current kr) \<noteq> None) \<and> (\<not> Enabled kr \<longrightarrow> current kr = 0)"

lemma addKey_ok: "addKey kv kr = Inr kr' \<Longrightarrow> keyring_ok kr \<Longrightarrow> keyring_ok kr'"
proof -
  assume a: "addKey kv kr = Inr kr'" and ok: "keyring_ok kr"
  obtain name val where p: "env_pair kv = (name, val)" by (cases "env_pair kv") auto
  show ?thesis
  proof (cases "kr' = kr")
    case False
    with a p obtain v raw where v: "\<not> v < 1" "length raw = masterKeyLen"
      and kr': "kr' = kr\<lparr>master_keys := AList.update v raw (master_keys kr),
                     current := (if v > current kr then v else current kr)\<rparr>"
      by (auto simp: addKey_def split: if_splits option.splits)
    have "set (AList.update v raw xs) \<subseteq> insert (v, raw) (set xs)" for xs :: "(int \<times> bytes) list"
      by (induction xs) auto
    moreover have "AList.update v raw xs \<noteq> []" for xs :: "(int \<times> bytes) list"
      by (induction xs) auto
    moreover have "0 \<le> current kr \<and> (current kr \<noteq> v \<longrightarrow> v < current kr \<longrightarrow> Enabled kr)"
      using ok v(1) unfolding keyring_ok_def Enabled_def
      by (cases "master_keys kr") auto
    ultimately show ?thesis
      using ok v unfolding keyring_ok_def kr' Enabled_def
      by (fastforce simp: update_conv')
  qed (use ok in simp)
qed

lemma addKeys_ok: "addKeys kvs kr = Inr kr' \<Longrightarrow> keyring_ok kr \<Longrightarrow> keyring_ok kr'"
  by (induction kvs arbitrary: kr) (auto split: sum.splits dest: addKey_ok)

lemma NewKeyringFromEnv_ok: "NewKeyringFromEnv environ = Inr kr \<Longrightarrow> keyring_ok kr"
  unfolding NewKeyringFromEnv_def by (erule addKeys_ok) (simp add: keyring_ok_def Enabled_def)

lemma aad_inj:
  assumes "CHR 0x00 \<notin> set name" "CHR 0x00 \<notin> set name'" "aad r name v = aad r' name' v'"
  shows "r = r' \<and> name = name' \<and> v = v'"
proof -
  have f: "CHR 0x00 \<notin> set (format_int i)" for i
    using format_int_chars[of i] by (auto simp: decimal_digits_def)
  from assms(3) have "format_int r = format_int r' \<and> name = name' \<and> format_int v = format_int v'"
    using assms(1,2) f by (simp add: aad_def nul_def append_sep_inj)
  then show ?thesis by (simp add: format_int_inj)
qed

lemma valid_no_nul: "validName name = Inr u \<Longrightarrow> CHR 0x00 \<notin> set name"
proof -
  have n: "\<not> letter (CHR 0x00)" "digit_val (CHR 0x00) = None"
    by (simp_all add: letter_def digit_val_def)
  assume "validName name = Inr u"
  then have "\<forall>c \<in> set name. letter c \<or> digit_val c \<noteq> None"
    unfolding validName_def shell_name_def by (meson Inl_Inr_False)
  with n show ?thesis by blast
qed

lemma decrypt_encrypt:
  assumes "opens_exactly C" "Encrypt C kr (Some iv) repo name val = Inr e" "length iv = ivLen"
    "\<forall>v. map_of (master_keys kr) v \<noteq> None \<longrightarrow> map_of (master_keys kr') v = map_of (master_keys kr) v"
  shows "Decrypt C kr' repo name e = Inr val"
  using assms by (auto simp: Encrypt_def Decrypt_def gcm_def unseal_seal split: if_splits option.splits)

text \<open>
  C21. An envelope opens only as the secret it was sealed as: for whatever repository, name
  and version it is presented, if it opens then these are the ones of its sealing and the
  text is the sealed one. The names must be free of NUL, which
  every valid name is.
\<close>

theorem envelope_bound:
  assumes "opens_exactly C" "no_forgery C"
    "Encrypt C kr rand repo name val = Inr e" "validName name = Inr ()" "validName name' = Inr ()"
    "Decrypt C kr repo' name' (e\<lparr>env_version := v'\<rparr>) = Inr val'"
  shows "repo' = repo \<and> name' = name \<and> v' = env_version e \<and> val' = val"
proof -
  from assms(3) obtain sub iv where e: "gcm C kr (current kr) repo = Inr sub"
    "e = \<lparr>env_version = current kr, env_iv = iv, env_ct = seal C sub iv (aad repo name (current kr)) val\<rparr>"
    by (auto simp: Encrypt_def split: if_splits sum.splits option.splits)
  from assms(6) obtain sub' where d: "gcm C kr v' repo' = Inr sub'"
    "unseal C sub' iv (aad repo' name' v') (env_ct e) = Some val'"
    by (auto simp: Decrypt_def e(2) split: if_splits sum.splits option.splits)
  from unseal_Some[OF assms(1) d(2)] have s: "seal C sub iv (aad repo name (current kr)) val = seal C sub' iv (aad repo' name' v') val'"
    by (simp add: e(2))
  with assms(2) have "aad repo name (current kr) = aad repo' name' v'" unfolding no_forgery_def by blast
  with aad_inj assms(4,5)[THEN valid_no_nul] have same: "repo = repo' \<and> name = name' \<and> current kr = v'" by blast
  with e(1) d(1) have "sub' = sub" by simp
  with d(2) same e(2) unseal_seal[OF assms(1)] have "val' = val" by simp
  with same e(2) show ?thesis by simp
qed

lemma envelope_bound_witness:
  "validName ''TOKEN'' = Inr () \<and>
   Decrypt sample_crypto \<lparr>master_keys = [(1, replicate 32 CHR ''k'')], current = 1\<rparr> 7 ''TOKEN''
     ((\<lparr>env_version = 1, env_iv = ''abcdefghijkl'',
        env_ct = hex_encode (aad 7 ''TOKEN'' 1) @ ''.s3cr3t''\<rparr> :: Envelope)\<lparr>env_version := 1\<rparr>) = Inr ''s3cr3t''"
proof -
  let ?kr = "\<lparr>master_keys = [(1, replicate 32 CHR ''k'')], current = 1\<rparr>"
  let ?e = "\<lparr>env_version = 1, env_iv = ''abcdefghijkl'', env_ct = hex_encode (aad 7 ''TOKEN'' 1) @ ''.s3cr3t''\<rparr>"
  have v: "validName ''TOKEN'' = Inr ()" by code_simp
  have enc: "Encrypt sample_crypto ?kr (Some ''abcdefghijkl'') 7 ''TOKEN'' ''s3cr3t'' = Inr ?e"
    by (simp add: Encrypt_def Enabled_def gcm_def sample_crypto_def)
  have dec: "Decrypt sample_crypto ?kr 7 ''TOKEN'' (?e\<lparr>env_version := 1\<rparr>) = Inr ''s3cr3t''"
    using cut_prefix_append[of "hex_encode (aad 7 ''TOKEN'' 1) @ ''.''" "''s3cr3t''"]
    by (simp add: Decrypt_def gcm_def sample_crypto_def ivLen_def)
  from envelope_bound[OF sample_crypto_ok enc v v dec] v dec show ?thesis by simp
qed

section \<open>Reading the secrets of a repository\<close>

definition envelope :: "int \<times> bytes \<times> bytes \<Rightarrow> Envelope" where
  "envelope = (\<lambda>(v, iv, ct). \<lparr>env_version = v, env_iv = iv, env_ct = ct\<rparr>)"

lemma envelope_eta: "envelope (env_version e, env_iv e, env_ct e) = e"
  by (simp add: envelope_def)

definition opened :: "crypto \<Rightarrow> Keyring \<Rightarrow> db \<Rightarrow> int \<Rightarrow> string \<Rightarrow> string option" where
  "opened C kr s repo n = (case secret_lookup s repo n of None \<Rightarrow> None
     | Some e \<Rightarrow> (case Decrypt C kr repo n (envelope e) of Inl _ \<Rightarrow> None | Inr v \<Rightarrow> Some v))"

definition all_open :: "crypto \<Rightarrow> Keyring \<Rightarrow> db \<Rightarrow> int \<Rightarrow> bool" where
  "all_open C kr s repo \<longleftrightarrow>
     (\<forall>r \<in> set (ci_secrets s). secret_repo r = repo \<longrightarrow> opened C kr s repo (secret_name r) \<noteq> None)"

definition open_one :: "crypto \<Rightarrow> Keyring \<Rightarrow> int \<Rightarrow> ci_secret \<Rightarrow> secret_error + string" where
  "open_one C kr repo e = Decrypt C kr repo (cs_name e)
     \<lparr>env_version = cs_version e, env_iv = cs_iv e, env_ct = cs_ct e\<rparr>"

lemma open_all_Inr:
  assumes "distinct (map cs_name es)"
  shows "open_all C kr repo es out = Inr m \<longleftrightarrow>
    (\<forall>e \<in> set es. \<exists>v. open_one C kr repo e = Inr v \<and> m (cs_name e) = Some v) \<and>
    (\<forall>n. n \<notin> cs_name ` set es \<longrightarrow> m n = out n)"
  using assms
proof (induction es arbitrary: out)
  case (Cons e es)
  show ?case
  proof (cases "open_one C kr repo e")
    case (Inr v)
    then have step: "open_all C kr repo (e # es) out = open_all C kr repo es (out(cs_name e \<mapsto> v))"
      by (simp add: open_one_def)
    show ?thesis
      unfolding step
      by (subst Cons.IH) (use Cons.prems Inr in \<open>auto split: if_splits\<close>)
  qed (simp add: open_one_def)
qed auto

lemma repo_names_distinct:
  assumes "db_ok s"
  shows "distinct (map cs_name (map ci_secret_of
    (sort_key secret_name (filter (\<lambda>r. secret_repo r = repo) (ci_secrets s)))))"
proof -
  have d: "distinct (map (\<lambda>r. (secret_repo r, secret_name r)) (ci_secrets s))"
    using assms by (simp add: db_ok_def secrets_ok_def)
  then have "distinct (ci_secrets s)" "inj_on (\<lambda>r. (secret_repo r, secret_name r)) (set (ci_secrets s))"
    by (simp_all add: distinct_map)
  then have "inj_on secret_name {r \<in> set (ci_secrets s). secret_repo r = repo}" by (auto simp: inj_on_def)
  moreover have "cs_name \<circ> ci_secret_of = secret_name" by (auto simp: ci_secret_of_def)
  ultimately show ?thesis using \<open>distinct (ci_secrets s)\<close> by (simp add: distinct_map)
qed

lemma secret_lookup_row:
  assumes "db_ok s" "r \<in> set (ci_secrets s)"
  shows "secret_lookup s (secret_repo r) (secret_name r) = Some (secret_v r, secret_iv r, secret_ct r)"
proof -
  have "distinct (map (\<lambda>r. (secret_repo r, secret_name r)) (ci_secrets s))"
    using assms(1) by (simp add: db_ok_def secrets_ok_def)
  from first_where_unique[OF this assms(2), where P =
      "\<lambda>x. secret_repo x = secret_repo r \<and> secret_name x = secret_name r"]
  show ?thesis by (simp add: secret_lookup_def)
qed

lemma secret_lookup_None:
  "secret_lookup s repo n = None \<longleftrightarrow> n \<notin> secret_name ` {r \<in> set (ci_secrets s). secret_repo r = repo}"
  by (auto simp: secret_lookup_def first_where_None)

lemma open_one_row:
  assumes "db_ok s" "r \<in> set (ci_secrets s)" "secret_repo r = repo"
  shows "open_one C kr repo (ci_secret_of r) = Inr v \<longleftrightarrow> opened C kr s repo (secret_name r) = Some v"
  using secret_lookup_row[OF assms(1,2)] assms(3)
  by (auto simp: open_one_def ci_secret_of_def opened_def envelope_def split: sum.splits)

lemma Secrets_Inr:
  assumes "db_ok s" "faults s = []"
  shows "fst (Secrets C kr repo s) = Inr m \<longleftrightarrow> all_open C kr s repo \<and> m = opened C kr s repo"
proof -
  let ?es = "map ci_secret_of (sort_key secret_name (filter (\<lambda>r. secret_repo r = repo) (ci_secrets s)))"
  have g: "fst (Secrets C kr repo s) = open_all C kr repo ?es Map.empty"
    using assms(2) by (simp add: Secrets_def liftS_def GetSecrets_def query_def sql_def)
  have names: "cs_name ` set ?es = secret_name ` {r \<in> set (ci_secrets s). secret_repo r = repo}"
    by (auto simp: ci_secret_of_def image_iff)
  have rows: "(\<forall>e \<in> set ?es. \<exists>v. open_one C kr repo e = Inr v \<and> m (cs_name e) = Some v) \<longleftrightarrow>
      (\<forall>r \<in> set (ci_secrets s). secret_repo r = repo \<longrightarrow>
         (\<exists>v. opened C kr s repo (secret_name r) = Some v \<and> m (secret_name r) = Some v))"
    using open_one_row[OF assms(1)] by (auto simp: ci_secret_of_def)
  have none: "opened C kr s repo n = None" if "n \<notin> secret_name ` {r \<in> set (ci_secrets s). secret_repo r = repo}" for n
    using that secret_lookup_None[of s repo n] by (simp add: opened_def)
  show ?thesis
    unfolding g open_all_Inr[OF repo_names_distinct[OF assms(1)]] rows names all_open_def
  proof (intro iffI conjI; (elim conjE)?)
    assume a: "\<forall>r\<in>set (ci_secrets s). secret_repo r = repo \<longrightarrow>
        (\<exists>v. opened C kr s repo (secret_name r) = Some v \<and> m (secret_name r) = Some v)"
      "\<forall>n. n \<notin> secret_name ` {r \<in> set (ci_secrets s). secret_repo r = repo} \<longrightarrow> m n = None"
    then show "\<forall>r\<in>set (ci_secrets s). secret_repo r = repo \<longrightarrow> opened C kr s repo (secret_name r) \<noteq> None"
      by auto
    show "m = opened C kr s repo"
    proof
      fix n
      show "m n = opened C kr s repo n"
        using a none[of n] by (cases "n \<in> secret_name ` {r \<in> set (ci_secrets s). secret_repo r = repo}") auto
    qed
  qed (use none in auto)
qed

lemma SetSecret_state:
  assumes "SetSecret repo name v iv ct ts s = (Inr (), s')" "faults s = []"
  shows "ci_secrets s' =
      (if \<exists>r \<in> set (ci_secrets s). secret_repo r = repo \<and> secret_name r = name
       then update_where (\<lambda>r. secret_repo r = repo \<and> secret_name r = name)
         (\<lambda>r. r\<lparr>secret_v := v, secret_iv := iv, secret_ct := ct, secret_created := ts\<rparr>) (ci_secrets s)
       else ci_secrets s @ [\<lparr>secret_repo = repo, secret_name = name, secret_v = v, secret_iv = iv,
         secret_ct = ct, secret_created = ts\<rparr>]) \<and> faults s' = []"
  using assms by (auto simp: SetSecret_def sql_def split: if_splits)

lemma SetSecret_lookup:
  assumes "SetSecret repo name v iv ct ts s = (Inr (), s')" "faults s = []"
  shows "secret_lookup s' repo' n =
    (if repo' = repo \<and> n = name then Some (v, iv, ct) else secret_lookup s repo' n)"
proof (cases "\<exists>r \<in> set (ci_secrets s). secret_repo r = repo \<and> secret_name r = name")
  case True
  let ?P = "\<lambda>r. secret_repo r = repo' \<and> secret_name r = n"
  let ?Q = "\<lambda>r. secret_repo r = repo \<and> secret_name r = name"
  let ?f = "\<lambda>r. r\<lparr>secret_v := v, secret_iv := iv, secret_ct := ct, secret_created := ts\<rparr>"
  have u: "first_where ?P (ci_secrets s') = map_option (\<lambda>r. if ?Q r then ?f r else r) (first_where ?P (ci_secrets s))"
    unfolding SetSecret_state[OF assms, THEN conjunct1] if_P[OF True] by (rule first_where_update_where) simp
  show ?thesis
  proof (cases "first_where ?P (ci_secrets s)")
    case None
    with True have "\<not> (repo' = repo \<and> n = name)" by (auto simp: first_where_None)
    with None show ?thesis unfolding secret_lookup_def u by simp
  next
    case (Some r)
    then have "secret_repo r = repo'" "secret_name r = n" using first_where_Some by fast+
    with Some show ?thesis unfolding secret_lookup_def u by simp
  qed
next
  case False
  then have "first_where (\<lambda>r. secret_repo r = repo \<and> secret_name r = name) (ci_secrets s) = None"
    by (auto simp: first_where_None)
  then show ?thesis
    using SetSecret_state[OF assms] False
    by (auto simp: secret_lookup_def first_where_append split: option.split)
qed

lemma SetSecret_rows:
  assumes "SetSecret repo name v iv ct ts s = (Inr (), s')" "faults s = []" "r \<in> set (ci_secrets s')"
  shows "(secret_repo r = repo \<and> secret_name r = name) \<or> r \<in> set (ci_secrets s)"
proof (cases "\<exists>r \<in> set (ci_secrets s). secret_repo r = repo \<and> secret_name r = name")
  case True
  from assms(3)[unfolded SetSecret_state[OF assms(1,2), THEN conjunct1] if_P[OF True]]
  show ?thesis by (rule in_update_where) (auto split: if_splits)
next
  case False
  from assms(3)[unfolded SetSecret_state[OF assms(1,2), THEN conjunct1] if_not_P[OF False]]
  show ?thesis by auto
qed

text \<open>
  C22. A secret that was set is read back: when the secrets of a repository could be read
  before, then after \<open>SetSecret\<close> they can be read, the name has the new value and every
  other name the value it had.
\<close>

theorem secret_set_then_read:
  assumes "opens_exactly C" "db_ok s" "faults s = []" "length iv = ivLen"
    "fst (Secrets C kr repo s) = Inr m"
    "Service_SetSecret C kr (Some iv) now repo name val s = (Inr (), s')"
  shows "fst (Secrets C kr repo s') = Inr (m(name \<mapsto> val))"
proof -
  from assms(6) obtain e where e: "Encrypt C kr (Some iv) repo name val = Inr e"
    "SetSecret repo name (env_version e) (env_iv e) (env_ct e) now s = (Inr (), s')"
    by (auto simp: Service_SetSecret_def liftS_def split: sum.splits prod.splits)
      (auto simp: map_sum_def split: sum.splits)
  have ok: "db_ok s'" by (rule keeps_result[OF keeps_SetSecret e(2) assms(2)])
  have dec: "Decrypt C kr repo name e = Inr val"
    by (rule decrypt_encrypt[OF assms(1) e(1) assms(4)]) simp
  have opened: "opened C kr s' repo n = (if n = name then Some val else opened C kr s repo n)" for n
    using dec by (simp add: opened_def SetSecret_lookup[OF e(2) assms(3)] envelope_eta)
  from assms(5) have m: "all_open C kr s repo" "m = opened C kr s repo"
    by (simp_all add: Secrets_Inr[OF assms(2,3)])
  have "all_open C kr s' repo"
    using m(1) SetSecret_rows[OF e(2) assms(3)] by (fastforce simp: all_open_def opened)
  moreover have "m(name \<mapsto> val) = opened C kr s' repo" by (rule ext) (simp add: m(2) opened)
  ultimately show ?thesis
    by (simp add: Secrets_Inr[OF ok SetSecret_state[OF e(2) assms(3), THEN conjunct2]])
qed

definition sample_keyring :: Keyring where
  "sample_keyring = \<lparr>master_keys = [(1, replicate 32 CHR ''k'')], current = 1\<rparr>"

lemma secret_set_then_read_witness:
  "fst (Secrets sample_crypto sample_keyring 2
      (snd (Service_SetSecret sample_crypto sample_keyring (Some ''abcdefghijkl'') 5 2 ''TOKEN'' ''s3cr3t'' sample_db)))
    = Inr [''TOKEN'' \<mapsto> ''s3cr3t'']"
proof -
  have f: "faults sample_db = []" by code_simp
  have r: "fst (Secrets sample_crypto sample_keyring 2 sample_db) = Inr Map.empty"
    by (simp add: Secrets_def liftS_def GetSecrets_def query_def sql_def sample_db_def)
  let ?w = "Service_SetSecret sample_crypto sample_keyring (Some ''abcdefghijkl'') 5 2 ''TOKEN'' ''s3cr3t'' sample_db"
  have "fst ?w = Inr ()"
    by (simp add: Service_SetSecret_def validName_def shell_name_def letter_def digit_val_def has_prefix_def
        Encrypt_def Enabled_def gcm_def sample_keyring_def sample_crypto_def liftS_def SetSecret_def sql_def
        sample_db_def has_repo_def)
  then have w: "?w = (Inr (), snd ?w)" by (metis prod.collapse)
  have l: "length ''abcdefghijkl'' = ivLen" by (simp add: ivLen_def)
  show ?thesis by (rule secret_set_then_read[OF sample_crypto_ok(1) sample_db_ok f l r w])
qed

text \<open>
  Keys are rotated by adding a version: a keyring that has all keys of an older one, and
  more, reads the secrets of every repository exactly as the older one did.
\<close>

theorem rotation_keeps_secrets:
  assumes "map_of (master_keys kr) \<subseteq>\<^sub>m map_of (master_keys kr')"
    "Secrets C kr repo s = (Inr m, t)"
  shows "Secrets C kr' repo s = (Inr m, t)"
proof -
  have dec: "Decrypt C kr repo n e = Inr v \<Longrightarrow> Decrypt C kr' repo n e = Inr v" for n e v
    using assms(1) by (auto simp: Decrypt_def gcm_def map_le_def dom_def split: option.splits if_splits)
  have "open_all C kr repo es out = Inr m \<Longrightarrow> open_all C kr' repo es out = Inr m" for es out
    by (induction es arbitrary: out) (auto split: sum.splits dest: dec)
  with assms(2) show ?thesis by (auto simp: Secrets_def split: sum.splits prod.splits)
qed

lemma rotation_keeps_secrets_witness:
  "Secrets sample_crypto \<lparr>master_keys = [(1, replicate 32 CHR ''k''), (2, replicate 32 CHR ''n'')], current = 2\<rparr> 2 sample_db
   = (Inr Map.empty, sample_db)"
proof -
  have r: "Secrets sample_crypto sample_keyring 2 sample_db = (Inr Map.empty, sample_db)"
    by (simp add: Secrets_def liftS_def GetSecrets_def query_def sql_def sample_db_def)
  have m: "map_of (master_keys sample_keyring) \<subseteq>\<^sub>m
      map_of (master_keys \<lparr>master_keys = [(1, replicate 32 CHR ''k''), (2, replicate 32 CHR ''n'')], current = 2\<rparr>)"
    by (auto simp: map_le_def sample_keyring_def)
  show ?thesis by (rule rotation_keeps_secrets[OF m r])
qed

end
