(* ===== verification/EnvSecrets.thy ===== *)
theory EnvSecrets
  imports Prelude "HOL-Library.AList"
begin

text \<open>
  \<open>internal/ci/envsecrets.go\<close>: CI secrets that the operator puts into the environment. The two
  nested maps are association lists with distinct keys; the order of a Go map is not used.
\<close>

type_synonym secret_map = "(string \<times> string) list"
type_synonym EnvSecrets = "(string \<times> secret_map) list"

definition envSecretPrefix :: string where
  "envSecretPrefix = ''GITMOTE_REPO_SECRET_''"

definition repoKey :: "string \<Rightarrow> string" where
  "repoKey name = map (\<lambda>c. to_upper (if c = CHR ''-'' then CHR ''_'' else c)) name"

text \<open>One entry of the environment: the key of the repository, the name and the value.\<close>

definition env_secret :: "string \<Rightarrow> (string \<times> string \<times> string) option" where
  "env_secret kv =
     (let (key, val) = (case cut ''='' kv of Some p \<Rightarrow> p | None \<Rightarrow> (kv, [])) in
      case cut_prefix envSecretPrefix key of None \<Rightarrow> None
      | Some rest \<Rightarrow> (case cut ''__'' rest of None \<Rightarrow> None
         | Some (repo, name) \<Rightarrow> if repo = [] \<or> name = [] then None else Some (repoKey repo, name, val)))"

definition add_secret :: "string \<Rightarrow> EnvSecrets \<Rightarrow> EnvSecrets" where
  "add_secret kv out = (case env_secret kv of None \<Rightarrow> out
     | Some (rk, name, val) \<Rightarrow>
         (let m = (case map_of out rk of None \<Rightarrow> [] | Some m \<Rightarrow> m)
          in AList.update rk (AList.update name val m) out))"

definition LoadEnvSecrets :: "string list \<Rightarrow> EnvSecrets" where
  "LoadEnvSecrets environ = fold add_secret environ []"

definition For :: "EnvSecrets \<Rightarrow> string \<Rightarrow> secret_map" where
  "For e repo = (case map_of e (repoKey repo) of None \<Rightarrow> [] | Some m \<Rightarrow> m)"

definition Redacted :: "EnvSecrets \<Rightarrow> (string \<times> string list) list option" where
  "Redacted e = (if length e = 0 then None else Some (map (\<lambda>(repo, m). (repo, sort (map fst m))) e))"

section \<open>What is looked up\<close>

definition secret_of :: "EnvSecrets \<Rightarrow> string \<Rightarrow> string \<Rightarrow> string option" where
  "secret_of e rk name = (case map_of e rk of None \<Rightarrow> None | Some m \<Rightarrow> map_of m name)"

lemma add_secret_of:
  "secret_of (add_secret kv e) rk name =
     (case env_secret kv of Some (r, n, v) \<Rightarrow> if r = rk \<and> n = name then Some v else secret_of e rk name
      | None \<Rightarrow> secret_of e rk name)"
  by (auto simp: add_secret_def secret_of_def Let_def update_conv' split: option.split prod.split)

lemma secret_of_For: "map_of (For e repo) name = secret_of e (repoKey repo) name"
  by (simp add: For_def secret_of_def split: option.split)

lemma fold_secret_other:
  assumes "\<forall>kv \<in> set kvs. \<forall>v. env_secret kv \<noteq> Some (rk, name, v)"
  shows "secret_of (fold add_secret kvs e) rk name = secret_of e rk name"
  using assms
proof (induction kvs arbitrary: e)
  case (Cons kv kvs)
  then have "secret_of (add_secret kv e) rk name = secret_of e rk name"
    by (auto simp: add_secret_of split: option.split prod.split)
  with Cons show ?case by simp
qed simp

text \<open>\<open>addressable\<close>: no two underscores in a row and none at the end.\<close>

fun addressable :: "string \<Rightarrow> bool" where
  "addressable [] = True"
| "addressable [c] = (c \<noteq> CHR ''_'')"
| "addressable (c # d # s) = (\<not> (c = CHR ''_'' \<and> d = CHR ''_'') \<and> addressable (d # s))"

lemma cut_addressable: "addressable r \<Longrightarrow> cut ''__'' (r @ ''__'' @ n) = Some (r, n)"
proof (induction r rule: addressable.induct)
  case 1
  show ?case by (cases n) (simp_all add: has_prefix_def)
next
  case (2 c)
  then show ?case by (cases n) (simp_all add: has_prefix_def)
next
  case (3 c d s)
  then show ?case by (auto simp: has_prefix_def)
qed

lemma to_upper_code:
  "(of_char (to_upper c) :: nat) =
     (if 97 \<le> (of_char c :: nat) \<and> (of_char c :: nat) \<le> 122 then of_char c - 32 else of_char c)"
proof (cases "97 \<le> (of_char c :: nat) \<and> (of_char c :: nat) \<le> 122")
  case True
  then have "((of_char c :: nat) - 32) mod 256 = of_char c - 32" by (intro mod_less) linarith
  with True show ?thesis by (simp add: to_upper_def)
qed (simp only: to_upper_def if_False)

lemma to_upper_other:
  assumes "to_upper c = d" "\<not> (65 \<le> (of_char d :: nat) \<and> (of_char d :: nat) \<le> 90)"
  shows "c = d"
proof (cases "97 \<le> (of_char c :: nat) \<and> (of_char c :: nat) \<le> 122")
  case True
  with to_upper_code[of c] assms(1) have "(of_char d :: nat) = of_char c - 32" by simp
  with True assms(2) show ?thesis by linarith
next
  case False
  with assms(1) show ?thesis by (simp only: to_upper_def if_False)
qed

lemma to_upper_idem: "to_upper (to_upper c) = to_upper c"
proof -
  have "\<not> (97 \<le> (of_char (to_upper c) :: nat) \<and> (of_char (to_upper c) :: nat) \<le> 122)"
    using to_upper_code[of c] by (auto split: if_splits)
  then show ?thesis by (simp only: to_upper_def[of "to_upper c"] if_False)
qed

lemma repoKey_char:
  assumes "c \<in> set (repoKey name)" "\<not> (65 \<le> (of_char c :: nat) \<and> (of_char c :: nat) \<le> 90)"
  shows "(c = CHR ''_'' \<or> c \<in> set name) \<and> c \<noteq> CHR ''-''"
proof -
  obtain d where d: "d \<in> set name" "to_upper (if d = CHR ''-'' then CHR ''_'' else d) = c"
    using assms(1) by (auto simp: repoKey_def)
  from to_upper_other[OF d(2) assms(2)] d(1) show ?thesis by (auto split: if_splits)
qed

lemma repoKey_idem: "repoKey (repoKey name) = repoKey name"
proof -
  have "CHR ''-'' \<notin> set (repoKey name)" using repoKey_char[of "CHR ''-''" name] by auto
  then have "map (\<lambda>c. to_upper (if c = CHR ''-'' then CHR ''_'' else c)) (repoKey name) = map to_upper (repoKey name)"
    by (auto intro!: map_cong)
  also have "\<dots> = repoKey name" by (simp add: repoKey_def to_upper_idem)
  finally show ?thesis by (simp only: repoKey_def[of "repoKey name"])
qed

text \<open>
  A secret set for a repository in the environment is the one that its jobs get: the
  entry for the normalized name of the repository is found under every spelling of the name
  that normalizes alike, and the last entry wins, when the normalized name has no double
  underscore and does not end with one.
\<close>

theorem env_secret_found:
  assumes "addressable (repoKey repo)" "repo \<noteq> []" "name \<noteq> []" "CHR ''='' \<notin> set (repo @ name)"
    "\<forall>kv \<in> set later. \<forall>v. env_secret kv \<noteq> Some (repoKey repo, name, v)"
  shows "map_of (For (LoadEnvSecrets (earlier @ [envSecretPrefix @ repoKey repo @ ''__'' @ name @ ''='' @ val] @ later)) repo) name
    = Some val"
proof -
  let ?key = "envSecretPrefix @ repoKey repo @ ''__'' @ name"
  have "CHR ''='' \<notin> set (repoKey repo)" using repoKey_char[of "CHR ''=''" repo] assms(4) by auto
  then have "CHR ''='' \<notin> set ?key" using assms(4) by (auto simp: envSecretPrefix_def)
  from cut_char[OF this, of val] have c: "cut ''='' (?key @ ''='' @ val) = Some (?key, val)" by simp
  have p: "cut_prefix envSecretPrefix ?key = Some (repoKey repo @ ''__'' @ name)" by simp
  have "repoKey repo \<noteq> []" using assms(2) by (simp add: repoKey_def)
  then have e: "env_secret (envSecretPrefix @ repoKey repo @ ''__'' @ name @ ''='' @ val) = Some (repoKey repo, name, val)"
    using c p cut_addressable[OF assms(1), of name] assms(3) by (simp add: env_secret_def Let_def repoKey_idem)
  have "secret_of (add_secret (envSecretPrefix @ repoKey repo @ ''__'' @ name @ ''='' @ val) E) (repoKey repo) name = Some val" for E
    by (simp only: add_secret_of e option.case prod.case if_True simp_thms)
  then show ?thesis
    unfolding secret_of_For LoadEnvSecrets_def
    by (simp only: fold_append fold_simps o_def append_Cons append_Nil fold_secret_other[OF assms(5)])
qed

lemma env_secret_found_witness:
  "map_of (For (LoadEnvSecrets ([''PATH=/bin''] @
      [envSecretPrefix @ repoKey ''my-repo'' @ ''__'' @ ''DEPLOY_KEY'' @ ''='' @ ''a=b''] @ [''HOME=/''])) ''my-repo'') ''DEPLOY_KEY''
   = Some ''a=b''"
proof -
  have e: "env_secret ''HOME=/'' = None" by code_simp
  have a: "addressable (repoKey ''my-repo'')" by code_simp
  show ?thesis by (rule env_secret_found[OF a]) (simp_all add: e)
qed

text \<open>
  Two repositories whose names differ in case, or in dashes and underscores, share their
  secrets, and one whose name ends with either has none that the environment can reach.
\<close>

lemma env_secret_shared:
  "map_of (For (LoadEnvSecrets [''GITMOTE_REPO_SECRET_MY_REPO__K=v'']) ''my_repo'') ''K'' = Some ''v''"
  "map_of (For (LoadEnvSecrets [''GITMOTE_REPO_SECRET_MY_REPO__K=v'']) ''My-Repo'') ''K'' = Some ''v''"
  "map_of (For (LoadEnvSecrets [''GITMOTE_REPO_SECRET_APP___K=v'']) ''app-'') ''K'' = None"
  by code_simp+

end
