(* ===== verification/Dispatcher.thy ===== *)
theory Dispatcher
  imports Auth Materialize Browse Triggers Keyring EnvSecrets
begin

text \<open>
  \<open>internal/ci/dispatcher.go\<close>: what a push starts. The state is the one that the
  materializer works on, which has the database, and the calls of the trigger with their
  outcomes; how the trigger will answer is the list \<open>trigger_faults\<close>. The git program and
  the two YAML decoders are parameters. Log messages are left out.
\<close>

type_synonym env = "string \<rightharpoonup> string"

record 's dispatch =
  d_mz :: "'s mz"
  triggered :: "(env \<times> bool) list"
  trigger_faults :: "bool list"

record 's dispatcher =
  dp_store :: "'s store_ops"
  dp_root :: string
  dp_git :: git_program
  dp_yaml_on :: "bytes \<Rightarrow> ynode option"
  dp_yaml_map :: "bytes \<Rightarrow> bool"
  dp_minter :: "(bytes \<Rightarrow> bytes) option"
  dp_secrets :: "(crypto \<times> Keyring) option"
  dp_env :: EnvSecrets
  base_url :: string
  worker_secret :: string

record event =
  ev_repo :: int
  ev_name :: string
  ev_ref :: string
  ev_old :: string
  ev_new :: string
  ev_pusher :: int

definition branchPrefix :: string where "branchPrefix = ''refs/heads/''"
definition workflow_dir :: string where "workflow_dir = ''.gitmote/workflows''"
definition cloneTokenTTL :: time where "cloneTokenTTL = 3600"
definition secretEnvPrefix :: string where "secretEnvPrefix = ''GITMOTE_CI_SECRET_''"

definition isAbsent :: "string \<Rightarrow> bool" where
  "isAbsent sha \<longleftrightarrow> sha = [] \<or> sha = ZeroSHA"

definition isYAML :: "string \<Rightarrow> bool" where
  "isYAML name \<longleftrightarrow> has_suffix ''.yml'' name \<or> has_suffix ''.yaml'' name"

definition on_dmz :: "('s mz \<Rightarrow> 'r \<times> 's mz) \<Rightarrow> 's dispatch \<Rightarrow> 'r \<times> 's dispatch" where
  "on_dmz m s = (case m (d_mz s) of (r, z) \<Rightarrow> (r, s\<lparr>d_mz := z\<rparr>))"

definition on_ddb :: "(db \<Rightarrow> 'r \<times> db) \<Rightarrow> 's dispatch \<Rightarrow> 'r \<times> 's dispatch" where
  "on_ddb m = on_dmz (\<lambda>z. case m (m_db z) of (r, d) \<Rightarrow> (r, z\<lparr>m_db := d\<rparr>))"

definition Trigger :: "env \<Rightarrow> 's dispatch \<Rightarrow> bool \<times> 's dispatch" where
  "Trigger e s = (let ok = \<not> (trigger_faults s \<noteq> [] \<and> hd (trigger_faults s)) in
     (ok, s\<lparr>triggered := triggered s @ [(e, ok)], trigger_faults := tl (trigger_faults s)\<rparr>))"

section \<open>The environment of a job\<close>

definition coordinates :: "'s dispatcher \<Rightarrow> event \<Rightarrow> int \<Rightarrow> int \<Rightarrow> string \<Rightarrow> (string \<times> string) list" where
  "coordinates c ev run job tok =
     [(''GITMOTE_CI_RUN_ID'', format_int run), (''GITMOTE_CI_JOB_ID'', format_int job),
      (''GITMOTE_URL'', base_url c), (''WORKER_SECRET'', worker_secret c), (''GITMOTE_REPO'', ev_name ev),
      (''GITMOTE_SHA'', ev_new ev), (''GITMOTE_REF'', ev_ref ev), (''GITMOTE_CI_CLONE_TOKEN'', tok)]"

text \<open>The secrets go in first, under their prefix, and the coordinates over them.\<close>

definition jobEnv :: "'s dispatcher \<Rightarrow> event \<Rightarrow> int \<Rightarrow> int \<Rightarrow> string \<Rightarrow> env \<Rightarrow> env" where
  "jobEnv c ev run job tok secrets =
     fold (\<lambda>(k, v) e. e(k \<mapsto> v)) (coordinates c ev run job tok)
       (\<lambda>k. case cut_prefix secretEnvPrefix k of None \<Rightarrow> None | Some n \<Rightarrow> secrets n)"

definition repoSecrets :: "'s dispatcher \<Rightarrow> event \<Rightarrow> 's dispatch \<Rightarrow> env \<times> 's dispatch" where
  "repoSecrets c ev =
     handleE (case dp_secrets c of None \<Rightarrow> (\<lambda>s. (Map.empty, s))
              | Some (C, kr) \<Rightarrow> handleE (on_ddb (Secrets C kr (ev_repo ev)))
                  (\<lambda>r s. (case r of Inl e \<Rightarrow> Map.empty | Inr m \<Rightarrow> m, s)))
       (\<lambda>m s. (m ++ map_of (For (dp_env c) (ev_name ev)), s))"

definition mintCloneToken :: "'s dispatcher \<Rightarrow> event \<Rightarrow> int \<Rightarrow> bytes option \<times> bytes option \<Rightarrow> time
    \<Rightarrow> 's dispatch \<Rightarrow> string \<times> 's dispatch" where
  "mintCloneToken c ev run rnd now = (case dp_minter c of None \<Rightarrow> (\<lambda>s. ([], s))
     | Some H \<Rightarrow> handleE (on_ddb (MintScoped H (fst rnd) (snd rnd) (ev_pusher ev) (''ci-clone run '' @ format_int run)
           (Some (ev_repo ev)) True (Some (now + cloneTokenTTL)) now))
         (\<lambda>r s. (case r of Inl e \<Rightarrow> [] | Inr tok \<Rightarrow> tok, s)))"

section \<open>Which workflows run\<close>

definition triggeredBy :: "'s dispatcher \<Rightarrow> string \<Rightarrow> string \<Rightarrow> string \<Rightarrow> string \<Rightarrow> bool" where
  "triggeredBy c dir sha p branch = (case Blob (dp_git c) dir sha p of Inl e \<Rightarrow> True
     | Inr (content, n, bin) \<Rightarrow> (case parsePushTrigger (dp_yaml_on c) content of None \<Rightarrow> True
         | Some t \<Rightarrow> matches t branch))"

definition valid_workflow :: "'s dispatcher \<Rightarrow> string \<Rightarrow> string \<Rightarrow> string \<Rightarrow> bool" where
  "valid_workflow c dir sha p = (case Blob (dp_git c) dir sha p of Inl e \<Rightarrow> False
     | Inr (content, n, bin) \<Rightarrow> dp_yaml_map c content)"

definition selected :: "'s dispatcher \<Rightarrow> event \<Rightarrow> string \<Rightarrow> TreeEntry list \<Rightarrow> TreeEntry list" where
  "selected c ev dir entries = filter (\<lambda>e. entry_type e = ''blob'' \<and> isYAML (entry_name e) \<and>
     triggeredBy c dir (ev_new ev) (entry_path e) (trim_prefix branchPrefix (ev_ref ev))) entries"

section \<open>Recording a run\<close>

definition setRunStatus :: "int \<Rightarrow> run_status \<Rightarrow> time \<Rightarrow> 's dispatch \<Rightarrow> unit \<times> 's dispatch" where
  "setRunStatus run st now = handleE (on_ddb (SetRunStatus run st now)) (\<lambda>_ s. ((), s))"

definition recordErrorRun :: "event \<Rightarrow> time \<Rightarrow> 's dispatch \<Rightarrow> unit \<times> 's dispatch" where
  "recordErrorRun ev now = handleE (on_ddb (CreateRun (ev_repo ev) (ev_ref ev) (ev_new ev) now)) (\<lambda>r. case r of
      Inl e \<Rightarrow> (\<lambda>s. ((), s))
    | Inr rn \<Rightarrow> handleE (on_ddb (SetRunStatus (run_id rn) RunError now)) (\<lambda>_ s. ((), s)))"

text \<open>The loop carries whether a file was malformed, the jobs made and the triggers that failed.\<close>

fun job_loop :: "'s dispatcher \<Rightarrow> event \<Rightarrow> int \<Rightarrow> string \<Rightarrow> string \<Rightarrow> env \<Rightarrow> time \<Rightarrow> TreeEntry list
    \<Rightarrow> bool \<times> nat \<times> nat \<Rightarrow> 's dispatch \<Rightarrow> (bool \<times> nat \<times> nat) \<times> 's dispatch" where
  "job_loop c ev run dir tok sec now [] acc s = (acc, s)"
| "job_loop c ev run dir tok sec now (f # fs) (bad, n, failed) s =
     (if \<not> valid_workflow c dir (ev_new ev) (entry_path f)
      then job_loop c ev run dir tok sec now fs (True, n, failed) s
      else handleE (on_ddb (CreateJob run (entry_name f) now)) (\<lambda>r. case r of
           Inl e \<Rightarrow> job_loop c ev run dir tok sec now fs (bad, n, failed)
         | Inr j \<Rightarrow> handleE (Trigger (jobEnv c ev run (job_id j) tok sec)) (\<lambda>ok.
             if ok then job_loop c ev run dir tok sec now fs (bad, n + 1, failed)
             else handleE (on_ddb (SetJobStatus (job_id j) RunError now)) (\<lambda>_.
               job_loop c ev run dir tok sec now fs (bad, n + 1, failed + 1)))) s)"

definition recordRun :: "'s dispatcher \<Rightarrow> event \<Rightarrow> string \<Rightarrow> bytes option \<times> bytes option \<Rightarrow> time \<Rightarrow> TreeEntry list
    \<Rightarrow> 's dispatch \<Rightarrow> unit \<times> 's dispatch" where
  "recordRun c ev dir rnd now files =
     handleE (on_ddb (CreateRun (ev_repo ev) (ev_ref ev) (ev_new ev) now)) (\<lambda>r. case r of
       Inl e \<Rightarrow> (\<lambda>s. ((), s))
     | Inr rn \<Rightarrow> handleE (mintCloneToken c ev (run_id rn) rnd now) (\<lambda>tok.
         handleE (repoSecrets c ev) (\<lambda>sec.
           handleE (job_loop c ev (run_id rn) dir tok sec now files (False, 0, 0)) (\<lambda>(bad, n, failed).
             if bad then setRunStatus (run_id rn) RunFailed now
             else if n > 0 \<and> failed = n then setRunStatus (run_id rn) RunError now
             else (\<lambda>s. ((), s))))))"

definition Dispatch :: "'s dispatcher \<Rightarrow> bytes option \<times> bytes option \<Rightarrow> time \<Rightarrow> event \<Rightarrow> 's dispatch \<Rightarrow> unit \<times> 's dispatch" where
  "Dispatch c rnd now ev =
     (if \<not> has_prefix branchPrefix (ev_ref ev) then (\<lambda>s. ((), s))
      else if isAbsent (ev_new ev) then (\<lambda>s. ((), s))
      else handleE (on_dmz (Materialize (dp_store c) (dp_root c) (ev_name ev))) (\<lambda>r. case r of
        Inl e \<Rightarrow> recordErrorRun ev now
      | Inr dir \<Rightarrow> (case Tree (dp_git c) dir (ev_new ev) workflow_dir of
          Inl BrowseNotFound \<Rightarrow> (\<lambda>s. ((), s))
        | Inl e \<Rightarrow> recordErrorRun ev now
        | Inr entries \<Rightarrow>
            (let files = selected c ev dir entries in
             if files = [] then (\<lambda>s. ((), s)) else recordRun c ev dir rnd now files))))"

section \<open>What a job is given\<close>

lemma fold_map_update: "fold (\<lambda>(k, v) e. e(k \<mapsto> v)) kvs e = e ++ map_of (rev kvs)"
  by (induction kvs arbitrary: e) (auto simp: map_add_def fun_eq_iff split: option.split)

lemma jobEnv_lookup:
  "jobEnv c ev run job tok secrets k =
     (case cut_prefix secretEnvPrefix k of Some n \<Rightarrow> secrets n
      | None \<Rightarrow> map_of (coordinates c ev run job tok) k)"
proof -
  have "\<forall>k' \<in> fst ` set (coordinates c ev run job tok). cut_prefix secretEnvPrefix k' = None"
    by (simp add: coordinates_def cut_prefix_def has_prefix_def secretEnvPrefix_def)
  then have none: "map_of (coordinates c ev run job tok) k = None" if "cut_prefix secretEnvPrefix k \<noteq> None"
    using that by (auto simp: map_of_eq_None_iff)
  have "map_of (rev (coordinates c ev run job tok)) = map_of (coordinates c ev run job tok)"
    by (auto simp: coordinates_def fun_upd_twist)
  then show ?thesis
    using none by (auto simp: jobEnv_def fold_map_update map_add_def split: option.split)
qed

text \<open>
  The environment of a runner is exactly the coordinates of its job and the secrets of its
  repository under the prefix: no secret, whatever its name, replaces a coordinate, and none
  is seen outside the prefix.
\<close>

theorem job_env_exact:
  "jobEnv c ev run job tok secrets k =
     (case cut_prefix secretEnvPrefix k of Some n \<Rightarrow> secrets n
      | None \<Rightarrow> map_of (coordinates c ev run job tok) k)"
  by (rule jobEnv_lookup)

section \<open>What a push can start\<close>

lemma keeps_on_ddb: "keeps P m \<Longrightarrow> keeps (\<lambda>s. P (m_db (d_mz s))) (on_ddb m)"
  by (auto simp: keeps_def on_ddb_def on_dmz_def split: prod.splits)

lemma keeps_on_dmz: "keeps (\<lambda>z. P (m_db z)) m \<Longrightarrow> keeps (\<lambda>s. P (m_db (d_mz s))) (on_dmz m)"
  by (auto simp: keeps_def on_dmz_def split: prod.splits)

lemma keeps_Trigger: "keeps (\<lambda>s. P (d_mz s)) (Trigger e)"
  by (simp add: keeps_def Trigger_def Let_def)

lemma keeps_mz_meta: "keeps P m \<Longrightarrow> keeps (\<lambda>z. P (m_db z)) (mz_meta m)"
  by (auto simp: keeps_def mz_meta_def split: prod.splits sum.splits)

lemma keeps_mz_other:
  "keeps (\<lambda>z. P (m_db z)) (mz_store m)" "keeps (\<lambda>z. P (m_db z)) (disk f dir)"
  by (auto simp: keeps_def mz_store_def disk_def Let_def split: prod.splits sum.splits)

lemma keeps_look: "keeps (\<lambda>z. P (m_db z)) (look dir)"
  unfolding look_def by (intro keeps_bindE keeps_mz_other keeps_ret)

lemma keeps_copyMissing: "keeps (\<lambda>z. P (m_db z)) (copyMissing S name dir keys)"
  by (induction keys)
    (auto simp: Let_def copyObject_def intro!: keeps_retE keeps_bindE keeps_look keeps_mz_other)

lemma keeps_removeEach: "keeps (\<lambda>z. P (m_db z)) (removeEach dir ns)"
  by (induction ns) (auto intro!: keeps_retE keeps_bindE keeps_mz_other)

lemma keeps_Materialize: "fault_free P \<Longrightarrow> keeps (\<lambda>z. P (m_db z)) (Materialize S root name)"
  unfolding Materialize_def ensureRepo_def hydrateObjects_def writeRefs_def mirrorRefs_def writePackedRefs_def
    removeLooseRefs_def setHEAD_def GetRepo_def ListRefs_def
  by (intro keeps_bindE keeps_retE keeps_errE keeps_if keeps_option keeps_mz_meta keeps_mz_other keeps_look
      keeps_copyMissing keeps_removeEach keeps_query keeps_query_row)

text \<open>
  An invariant of the database that each statement of a dispatch keeps is kept by the whole
  dispatch; the names of the jobs may be taken from the selected files of the pushed commit.
\<close>

lemma keeps_job_loop:
  assumes "\<And>f. f \<in> set files \<Longrightarrow> keeps P (CreateJob run (entry_name f) now)"
    "\<And>j. keeps P (SetJobStatus j RunError now)"
  shows "keeps (\<lambda>s. P (m_db (d_mz s))) (job_loop c ev run dir tok sec now files acc)"
  using assms(1)
proof (induction files arbitrary: acc)
  case (Cons f fs)
  obtain bad n failed where acc: "acc = (bad, n, failed)" by (cases acc) auto
  let ?P = "\<lambda>s. P (m_db (d_mz s))"
  have IH: "keeps ?P (job_loop c ev run dir tok sec now fs a)" for a
    by (rule Cons.IH) (use Cons.prems in simp)
  have step: "keeps ?P (handleE (on_ddb (CreateJob run (entry_name f) now)) (\<lambda>r. case r of
           Inl e \<Rightarrow> job_loop c ev run dir tok sec now fs (bad, n, failed)
         | Inr j \<Rightarrow> handleE (Trigger (jobEnv c ev run (job_id j) tok sec)) (\<lambda>ok.
             if ok then job_loop c ev run dir tok sec now fs (bad, n + 1, failed)
             else handleE (on_ddb (SetJobStatus (job_id j) RunError now)) (\<lambda>_.
               job_loop c ev run dir tok sec now fs (bad, n + 1, failed + 1)))))"
    by (intro keeps_handleE keeps_sum keeps_if IH keeps_on_ddb assms(2) Cons.prems)
      (simp_all add: keeps_def Trigger_def Let_def)
  show ?case
    using step IH[of "(True, n, failed)"] unfolding keeps_def acc job_loop.simps by simp
qed (simp add: keeps_def)

lemma keeps_Dispatch:
  assumes ff: "fault_free P"
    and run: "keeps P (CreateRun (ev_repo ev) (ev_ref ev) (ev_new ev) now)" "\<And>i st. keeps P (SetRunStatus i st now)"
    and job: "\<And>run dir entries f. Tree (dp_git c) dir (ev_new ev) workflow_dir = Inr entries \<Longrightarrow>
        f \<in> set (selected c ev dir entries) \<Longrightarrow> keeps P (CreateJob run (entry_name f) now)"
      "\<And>i. keeps P (SetJobStatus i RunError now)"
    and tok: "\<And>sel ver label. keeps P (CreateScopedToken (ev_pusher ev) sel ver label (Some (ev_repo ev)) True
        (Some (now + cloneTokenTTL)) now)"
  shows "keeps (\<lambda>s. P (m_db (d_mz s))) (Dispatch c rnd now ev)"
proof -
  have secrets: "keeps P (Secrets C kr repo)" for C kr repo
    using keeps_result[OF keeps_query[OF ff]]
    by (auto simp: keeps_def Secrets_def liftS_def GetSecrets_def split: prod.splits sum.splits)
  have mint: "keeps P (MintScoped H b1 b2 (ev_pusher ev) label (Some (ev_repo ev)) True (Some (now + cloneTokenTTL)) now)"
    for H b1 b2 label
    unfolding MintScoped_def by (auto intro!: keeps_errE keeps_bindE keeps_retE keeps_liftA tok split: option.split)
  have err: "keeps (\<lambda>s. P (m_db (d_mz s))) (recordErrorRun ev now)"
    unfolding recordErrorRun_def
    by (intro keeps_handleE keeps_sum keeps_ret keeps_on_ddb run)
  have mct: "keeps (\<lambda>s. P (m_db (d_mz s))) (mintCloneToken c ev i rnd now)" for i
    unfolding mintCloneToken_def
    by (intro keeps_option keeps_ret keeps_handleE keeps_on_ddb mint)
  have sec: "keeps (\<lambda>s. P (m_db (d_mz s))) (repoSecrets c ev)"
    unfolding repoSecrets_def
    by (intro keeps_handleE keeps_ret) (auto split: option.split prod.split intro!: keeps_ret keeps_handleE keeps_on_ddb secrets)
  have st: "keeps (\<lambda>s. P (m_db (d_mz s))) (setRunStatus i st now)" for i st
    unfolding setRunStatus_def by (intro keeps_handleE keeps_ret keeps_on_ddb run)
  have rec: "keeps (\<lambda>s. P (m_db (d_mz s))) (recordRun c ev dir rnd now (selected c ev dir entries))"
    if t: "Tree (dp_git c) dir (ev_new ev) workflow_dir = Inr entries" for dir entries
  proof -
    have "keeps (\<lambda>s. P (m_db (d_mz s))) (case x of (bad, n, failed) \<Rightarrow>
             if bad then setRunStatus i RunFailed now
             else if n > 0 \<and> failed = n then setRunStatus i RunError now else (\<lambda>s. ((), s)))" for x i
      by (cases x) (auto intro!: st keeps_ret)
    then show ?thesis
      unfolding recordRun_def
      by (intro keeps_handleE keeps_sum keeps_ret keeps_on_ddb run keeps_job_loop job(1)[OF t] job(2) mct sec)
  qed
  show ?thesis
    unfolding Dispatch_def
    by (intro keeps_if keeps_ret keeps_handleE keeps_on_dmz keeps_Materialize ff)
      (auto intro!: err keeps_ret rec simp: Let_def split: sum.split browse_error.split)
qed

lemma keeps_sql_same: "fault_free P \<Longrightarrow> (\<And>s. P s \<Longrightarrow> P (snd (f s))) \<Longrightarrow> keeps P (sql f)"
  by (intro keeps_sql keepsI)

abbreviation db_after :: "'s dispatcher \<Rightarrow> bytes option \<times> bytes option \<Rightarrow> time \<Rightarrow> event \<Rightarrow> 's dispatch \<Rightarrow> db" where
  "db_after c rnd now ev s \<equiv> m_db (d_mz (snd (Dispatch c rnd now ev s)))"

text \<open>
  The clone token is worth no more than it needs: every token that a dispatch adds is of
  the pusher, read-only, scoped to the pushed repository, and expires within the hour.
\<close>

theorem dispatch_tokens_limited:
  "\<forall>t \<in> set (tokens (db_after c rnd now ev s)). t \<in> set (tokens (m_db (d_mz s))) \<or>
     token_user t = ev_pusher ev \<and> read_only t \<and> repo_scope t = Some (ev_repo ev) \<and>
     expires_at t = Some (now + cloneTokenTTL)"
proof -
  define P where "P = (\<lambda>d :: db. \<forall>t \<in> set (tokens d). t \<in> set (tokens (m_db (d_mz s))) \<or>
     token_user t = ev_pusher ev \<and> read_only t \<and> repo_scope t = Some (ev_repo ev) \<and>
     expires_at t = Some (now + cloneTokenTTL))"
  have ff: "fault_free P" by (simp add: fault_free_def P_def)
  have other: "keeps P (sql f)" if "\<And>d. tokens (snd (f d)) = tokens d" for f :: "db \<Rightarrow> (meta_error + 'x) \<times> db"
    by (rule keeps_sql_same[OF ff]) (simp add: P_def that)
  have "keeps (\<lambda>s. P (m_db (d_mz s))) (Dispatch c rnd now ev)"
  proof (rule keeps_Dispatch[OF ff])
    show "keeps P (CreateScopedToken (ev_pusher ev) sel ver label (Some (ev_repo ev)) True (Some (now + cloneTokenTTL)) now)"
      for sel ver label
      unfolding CreateScopedToken_def by (rule keeps_sql_same[OF ff]) (auto simp: P_def Let_def)
  qed (unfold CreateRun_def SetRunStatus_def update_runs_def CreateJob_def SetJobStatus_def update_jobs_def,
       (rule other, simp add: Let_def)+)
  from keepsD[OF this, of s] show ?thesis by (simp add: P_def)
qed

text \<open>
  A dispatch records only what was pushed: a tag or a deletion does nothing at all;
  every new run is of the pushed repository, ref and commit; every new job is a workflow file
  of that commit that the branch selects; and refs, repositories, users, grants and secrets
  are not touched.
\<close>

theorem dispatch_scope:
  "(has_prefix branchPrefix (ev_ref ev) \<and> \<not> isAbsent (ev_new ev) \<or> snd (Dispatch c rnd now ev s) = s) \<and>
   (\<forall>r \<in> set (runs (db_after c rnd now ev s)). run_id r \<in> run_id ` set (runs (m_db (d_mz s))) \<or>
      run_repo r = ev_repo ev \<and> run_ref r = ev_ref ev \<and> run_sha r = ev_new ev) \<and>
   (\<forall>j \<in> set (jobs (db_after c rnd now ev s)). job_id j \<in> job_id ` set (jobs (m_db (d_mz s))) \<or>
      (\<exists>dir entries f. Tree (dp_git c) dir (ev_new ev) workflow_dir = Inr entries \<and>
         f \<in> set (selected c ev dir entries) \<and> job_name j = entry_name f)) \<and>
   refs (db_after c rnd now ev s) = refs (m_db (d_mz s)) \<and> repos (db_after c rnd now ev s) = repos (m_db (d_mz s)) \<and>
   users (db_after c rnd now ev s) = users (m_db (d_mz s)) \<and> acls (db_after c rnd now ev s) = acls (m_db (d_mz s)) \<and>
   ci_secrets (db_after c rnd now ev s) = ci_secrets (m_db (d_mz s))"
proof -
  define wf where "wf = (\<lambda>name. \<exists>dir entries f. Tree (dp_git c) dir (ev_new ev) workflow_dir = Inr entries \<and>
         f \<in> set (selected c ev dir entries) \<and> name = entry_name f)"
  define R where "R = (\<lambda>d :: db. \<forall>r \<in> set (runs d). run_id r \<in> run_id ` set (runs (m_db (d_mz s))) \<or>
      run_repo r = ev_repo ev \<and> run_ref r = ev_ref ev \<and> run_sha r = ev_new ev)"
  define J where "J = (\<lambda>d :: db. \<forall>j \<in> set (jobs d). job_id j \<in> job_id ` set (jobs (m_db (d_mz s))) \<or> wf (job_name j))"
  define T where "T = (\<lambda>d :: db. (refs d, repos d, users d, acls d, ci_secrets d))"
  define P where "P = (\<lambda>d :: db. R d \<and> J d \<and> T d = T (m_db (d_mz s)))"
  have ff: "fault_free P" by (simp add: fault_free_def P_def R_def J_def T_def)
  have jobs_upd: "keeps P (SetJobStatus i st ts)" for i st ts
    unfolding SetJobStatus_def update_jobs_def
  proof (rule keeps_sql_same[OF ff])
    fix d assume p: "P d"
    have "J (d\<lparr>jobs := update_where (\<lambda>j. job_id j = i) (\<lambda>j. j\<lparr>job_stat := st, job_updated := ts\<rparr>) (jobs d)\<rparr>)"
      using p ball_update_where[of "jobs d" "\<lambda>j. job_id j \<in> job_id ` set (jobs (m_db (d_mz s))) \<or> wf (job_name j)"
          "\<lambda>j. j\<lparr>job_stat := st, job_updated := ts\<rparr>" "\<lambda>j. job_id j = i"]
      by (simp add: P_def J_def)
    with p show "P (snd (if \<exists>j\<in>set (jobs d). job_id j = i
        then (Inr (), d\<lparr>jobs := update_where (\<lambda>j. job_id j = i) (\<lambda>j. j\<lparr>job_stat := st, job_updated := ts\<rparr>) (jobs d)\<rparr>)
        else (Inl NotFound, d)))"
      by (simp add: P_def R_def T_def)
  qed
  have runs_upd: "keeps P (SetRunStatus i st ts)" for i st ts
    unfolding SetRunStatus_def update_runs_def
  proof (rule keeps_sql_same[OF ff])
    fix d assume p: "P d"
    have "R (d\<lparr>runs := update_where (\<lambda>r. run_id r = i) (\<lambda>r. r\<lparr>run_stat := st, run_updated := ts\<rparr>) (runs d)\<rparr>)"
      using p ball_update_where[of "runs d" "\<lambda>r. run_id r \<in> run_id ` set (runs (m_db (d_mz s))) \<or>
          run_repo r = ev_repo ev \<and> run_ref r = ev_ref ev \<and> run_sha r = ev_new ev"
          "\<lambda>r. r\<lparr>run_stat := st, run_updated := ts\<rparr>" "\<lambda>r. run_id r = i"]
      by (simp add: P_def R_def)
    with p show "P (snd (if \<exists>r\<in>set (runs d). run_id r = i
        then (Inr (), d\<lparr>runs := update_where (\<lambda>r. run_id r = i) (\<lambda>r. r\<lparr>run_stat := st, run_updated := ts\<rparr>) (runs d)\<rparr>)
        else (Inl NotFound, d)))"
      by (simp add: P_def J_def T_def)
  qed
  have "keeps (\<lambda>s. P (m_db (d_mz s))) (Dispatch c rnd now ev)"
  proof (rule keeps_Dispatch[OF ff _ runs_upd _ jobs_upd])
    show "keeps P (CreateRun (ev_repo ev) (ev_ref ev) (ev_new ev) now)"
      unfolding CreateRun_def by (rule keeps_sql_same[OF ff]) (auto simp: P_def R_def J_def T_def Let_def)
    show "keeps P (CreateJob run (entry_name f) now)"
      if "Tree (dp_git c) dir (ev_new ev) workflow_dir = Inr entries" "f \<in> set (selected c ev dir entries)" for run dir entries f
    proof -
      have "wf (entry_name f)" using that by (auto simp: wf_def)
      then show ?thesis
        unfolding CreateJob_def by (intro keeps_sql_same[OF ff]) (auto simp: P_def R_def J_def T_def Let_def)
    qed
    show "keeps P (CreateScopedToken (ev_pusher ev) sel ver label (Some (ev_repo ev)) True (Some (now + cloneTokenTTL)) now)"
      for sel ver label
      unfolding CreateScopedToken_def by (rule keeps_sql_same[OF ff]) (auto simp: P_def R_def J_def T_def Let_def)
  qed
  from keepsD[OF this, of s] have "P (db_after c rnd now ev s)" by (simp add: P_def R_def J_def T_def)
  moreover have "\<not> (has_prefix branchPrefix (ev_ref ev) \<and> \<not> isAbsent (ev_new ev)) \<Longrightarrow> snd (Dispatch c rnd now ev s) = s"
    by (auto simp: Dispatch_def)
  ultimately show ?thesis by (auto simp: P_def R_def J_def T_def wf_def)
qed

section \<open>Every selected workflow is started\<close>

definition quiet :: "job list \<Rightarrow> int \<Rightarrow> nat \<Rightarrow> 's dispatch \<Rightarrow> bool" where
  "quiet J run n s \<longleftrightarrow> no_faults (m_db (d_mz s)) \<and> jobs (m_db (d_mz s)) = J \<and> has_run (m_db (d_mz s)) run \<and>
     length (triggered s) = n"

lemma keeps_quiet_on_ddb:
  assumes "\<And>d. no_faults d \<Longrightarrow> no_faults (snd (m d)) \<and> jobs (snd (m d)) = jobs d \<and>
    (has_run d run \<longrightarrow> has_run (snd (m d)) run)"
  shows "keeps (quiet J run n) (on_ddb m)"
proof
  fix s assume "quiet J run n s"
  with assms[of "m_db (d_mz s)"] show "quiet J run n (snd (on_ddb m s))"
    by (auto simp: quiet_def on_ddb_def on_dmz_def split: prod.split)
qed

lemma MintScoped_quiet:
  "no_faults d \<Longrightarrow> no_faults (snd (MintScoped H b1 b2 uid label sc ro ex ts d)) \<and>
   jobs (snd (MintScoped H b1 b2 uid label sc ro ex ts d)) = jobs d \<and>
   (has_run d run \<longrightarrow> has_run (snd (MintScoped H b1 b2 uid label sc ro ex ts d)) run)"
  by (auto simp: MintScoped_def errE_def retE_def bindE_def liftA_def CreateScopedToken_def Let_def no_faults_def
      sql_def has_run_def split: option.split prod.splits sum.splits)

lemma Secrets_quiet:
  "no_faults d \<Longrightarrow> no_faults (snd (Secrets C kr repo d)) \<and> jobs (snd (Secrets C kr repo d)) = jobs d \<and>
   (has_run d run \<longrightarrow> has_run (snd (Secrets C kr repo d)) run)"
  by (simp add: Secrets_def liftS_def GetSecrets_def)

lemma SetRunStatus_quiet:
  "no_faults d \<Longrightarrow> no_faults (snd (SetRunStatus i st ts d)) \<and> jobs (snd (SetRunStatus i st ts d)) = jobs d \<and>
   (has_run d run \<longrightarrow> has_run (snd (SetRunStatus i st ts d)) run)"
  by (auto simp: SetRunStatus_def update_runs_def no_faults_def sql_def has_run_image keys_update_where)

lemma keeps_quiet:
  "keeps (quiet J run n) (mintCloneToken c ev i rnd now)" "keeps (quiet J run n) (repoSecrets c ev)"
  "keeps (quiet J run n) (setRunStatus i st now)"
  unfolding mintCloneToken_def repoSecrets_def setRunStatus_def
  by (auto split: option.split prod.split
      intro!: keeps_handleE keeps_ret keeps_quiet_on_ddb MintScoped_quiet Secrets_quiet SetRunStatus_quiet)

lemma job_loop_starts:
  assumes "no_faults (m_db (d_mz s))" "has_run (m_db (d_mz s)) run"
    "job_loop c ev run dir tok sec now files acc s = (r, t)"
  shows "map job_name (jobs (m_db (d_mz t))) = map job_name (jobs (m_db (d_mz s))) @
      map entry_name (filter (\<lambda>f. valid_workflow c dir (ev_new ev) (entry_path f)) files) \<and>
    length (triggered t) = length (triggered s) +
      length (filter (\<lambda>f. valid_workflow c dir (ev_new ev) (entry_path f)) files) \<and>
    no_faults (m_db (d_mz t))"
  using assms
proof (induction files arbitrary: acc s)
  case (Cons f fs)
  obtain bad n failed where acc: "acc = (bad, n, failed)" by (cases acc) auto
  show ?case
  proof (cases "valid_workflow c dir (ev_new ev) (entry_path f)")
    case False
    with Cons.prems have "job_loop c ev run dir tok sec now fs (True, n, failed) s = (r, t)" by (simp add: acc)
    from Cons.IH[OF Cons.prems(1,2) this] False show ?thesis by simp
  next
    case True
    let ?d = "m_db (d_mz s)"
    let ?j = "\<lparr>job_id = next_id job_id (jobs ?d), job_run = run, job_name = entry_name f, job_stat = RunQueued,
        log_key = [], job_created = now, job_updated = now\<rparr>"
    let ?s1 = "s\<lparr>d_mz := (d_mz s)\<lparr>m_db := ?d\<lparr>jobs := jobs ?d @ [?j]\<rparr>\<rparr>\<rparr>"
    obtain ok s2 where tr: "Trigger (jobEnv c ev run (job_id ?j) tok sec) ?s1 = (ok, s2)" by fastforce
    have c: "on_ddb (CreateJob run (entry_name f) now) s = (Inr ?j, ?s1)"
      using Cons.prems(1,2) by (simp add: on_ddb_def on_dmz_def CreateJob_def Let_def)
    have s2: "d_mz s2 = d_mz ?s1" "length (triggered s2) = Suc (length (triggered s))"
      using tr by (auto simp: Trigger_def Let_def)
    have db2: "no_faults (m_db (d_mz s2))" "has_run (m_db (d_mz s2)) run"
      "map job_name (jobs (m_db (d_mz s2))) = map job_name (jobs ?d) @ [entry_name f]"
      using s2(1) Cons.prems(1,2) by (simp_all add: no_faults_def has_run_def)
    obtain acc' s3 where s3: "job_loop c ev run dir tok sec now fs acc' s3 = (r, t)"
      "no_faults (m_db (d_mz s3))" "has_run (m_db (d_mz s3)) run"
      "map job_name (jobs (m_db (d_mz s3))) = map job_name (jobs ?d) @ [entry_name f]"
      "length (triggered s3) = Suc (length (triggered s))"
    proof (cases ok)
      case True
      with Cons.prems(3) \<open>valid_workflow _ _ _ _\<close> c tr
      have "job_loop c ev run dir tok sec now fs (bad, n + 1, failed) s2 = (r, t)" by (simp add: acc handleE_def)
      with that db2 s2(2) show thesis by blast
    next
      case False
      let ?i = "job_id ?j"
      obtain q s3 where q: "on_ddb (SetJobStatus ?i RunError now) s2 = (q, s3)" by fastforce
      then have "no_faults (m_db (d_mz s3)) \<and> has_run (m_db (d_mz s3)) run \<and>
          map job_name (jobs (m_db (d_mz s3))) = map job_name (jobs (m_db (d_mz s2))) \<and>
          length (triggered s3) = length (triggered s2)"
        using db2(1,2)
        by (auto simp: on_ddb_def on_dmz_def SetJobStatus_def update_jobs_def no_faults_def has_run_def
            update_where_def split: prod.splits if_splits)
      moreover from Cons.prems(3) \<open>valid_workflow _ _ _ _\<close> c tr q False
      have "job_loop c ev run dir tok sec now fs (bad, n + 1, failed + 1) s3 = (r, t)" by (simp add: acc handleE_def)
      ultimately show thesis using that db2 s2(2) by metis
    qed
    from Cons.IH[OF s3(2,3,1)] s3(4,5) True show ?thesis by simp
  qed
qed simp


definition sample_dispatcher :: "mem dispatcher" where
  "sample_dispatcher = \<lparr>dp_store = Mem, dp_root = ''/c'',
     dp_git = (\<lambda>dir args. if hd args = ''ls-tree''
       then Exited 0 (print_entry (''100644'', ''blob'', ''a1'', ''9'', ''.gitmote/workflows/build.yml'') @ [newline]) ''''
       else Exited 0 ''on: push'' ''''),
     dp_yaml_on = (\<lambda>_. Some (scalar ''push'')), dp_yaml_map = (\<lambda>_. True), dp_minter = Some (\<lambda>x. x),
     dp_secrets = None, dp_env = [], base_url = ''http://h'', worker_secret = ''w''\<rparr>"

definition sample_event :: event where
  "sample_event = \<lparr>ev_repo = 2, ev_name = ''app'', ev_ref = ''refs/heads/main'', ev_old = sha1_a,
     ev_new = sha1_b, ev_pusher = 2\<rparr>"

definition sample_dispatch :: "mem dispatch" where
  "sample_dispatch = \<lparr>d_mz = sample_mz, triggered = [], trigger_faults = [True]\<rparr>"

lemma sample_app: "first_where (\<lambda>r. repo_name r = ''app'') (repos sample_db) \<noteq> None \<and> has_repo sample_db 2"
  by code_simp


lemma dispatch_tokens_limited_witness:
  "list_all (\<lambda>t. t \<in> set (tokens sample_db) \<or> token_user t = 2 \<and> read_only t \<and> repo_scope t = Some 2 \<and> expires_at t = Some 3609)
     (tokens (db_after sample_dispatcher (Some ''01'', Some ''xyz'') 9 sample_event sample_dispatch))"
  using dispatch_tokens_limited[of sample_dispatcher "(Some ''01'', Some ''xyz'')" 9 sample_event sample_dispatch]
  by (auto simp: list_all_iff sample_dispatch_def sample_mz_def sample_event_def cloneTokenTTL_def)

lemma dispatch_scope_witness:
  "list_all (\<lambda>r. run_id r \<in> run_id ` set (runs sample_db) \<or> run_ref r = ''refs/heads/main'')
     (runs (db_after sample_dispatcher (Some ''01'', Some ''xyz'') 9 sample_event sample_dispatch)) \<and>
   refs (db_after sample_dispatcher (Some ''01'', Some ''xyz'') 9 sample_event sample_dispatch) = refs sample_db"
  using dispatch_scope[of sample_event sample_dispatcher "(Some ''01'', Some ''xyz'')" 9 sample_dispatch]
  by (auto simp: list_all_iff sample_dispatch_def sample_mz_def sample_event_def)

end
