(* ===== verification/Session.thy ===== *)
theory Session
  imports Prelude
begin

text \<open>
  \<open>internal/webui/session.go\<close>: the signed session cookie. HMAC-SHA256 is a parameter
  \<open>mac\<close> of the key and the message. A request is what \<open>r.Cookie(cookieName)\<close> gives of it:
  the value of the cookie, or \<open>None\<close>. Times are seconds since 1970, which is what the cookie
  holds. The bytes of a cookie value (digits, dots, a minus sign and hexadecimal digits) are
  ones that net/http passes on unchanged.
\<close>

definition cookieName :: string where "cookieName = ''gm_session''"

definition sessionTTL :: time where "sessionTTL = 12 * 3600"

record sessions =
  mac :: "bytes \<Rightarrow> bytes \<Rightarrow> bytes"
  session_key :: bytes

text \<open>The attributes of the cookie that the handlers set.\<close>

record cookie =
  ck_name :: string
  ck_value :: string
  ck_path :: string
  ck_expires :: "time option"
  ck_max_age :: int
  ck_http_only :: bool
  ck_secure :: bool
  ck_same_site :: string

definition sign :: "sessions \<Rightarrow> string \<Rightarrow> string" where
  "sign S payload = hex_encode (mac S (session_key S) payload)"

definition cookie_payload :: "int \<Rightarrow> time \<Rightarrow> string" where
  "cookie_payload uid now = format_int uid @ ''.'' @ format_int (now + sessionTTL)"

definition issue :: "sessions \<Rightarrow> bool \<Rightarrow> int \<Rightarrow> time \<Rightarrow> cookie" where
  "issue S tls uid now =
     (let payload = cookie_payload uid now in
      \<lparr>ck_name = cookieName, ck_value = payload @ ''.'' @ sign S payload, ck_path = ''/'',
       ck_expires = Some (now + sessionTTL), ck_max_age = 0, ck_http_only = True, ck_secure = tls,
       ck_same_site = ''Lax''\<rparr>)"

definition splitCookie :: "string \<Rightarrow> (string \<times> string \<times> string) option" where
  "splitCookie v = (case split_on (CHR ''.'') v of [uid, ex, m] \<Rightarrow> Some (uid, ex, m) | _ \<Rightarrow> None)"

definition verify_session :: "sessions \<Rightarrow> string option \<Rightarrow> time \<Rightarrow> int option" where
  "verify_session S c now = (case c of None \<Rightarrow> None
     | Some v \<Rightarrow> (case splitCookie v of None \<Rightarrow> None
       | Some (uid, ex, m) \<Rightarrow>
           if m \<noteq> sign S (uid @ ''.'' @ ex) then None
           else (case parse_int64 ex of None \<Rightarrow> None
             | Some e \<Rightarrow> if e \<le> now then None else parse_int64 uid)))"

definition clear :: "sessions \<Rightarrow> cookie" where
  "clear S = \<lparr>ck_name = cookieName, ck_value = [], ck_path = ''/'', ck_expires = None,
     ck_max_age = - 1, ck_http_only = True, ck_secure = False, ck_same_site = ''Lax''\<rparr>"

section \<open>A session is the one that was issued\<close>

lemma splitCookie_Some:
  assumes "splitCookie v = Some (uid, ex, m)"
  shows "v = uid @ ''.'' @ ex @ ''.'' @ m" "CHR ''.'' \<notin> set uid" "CHR ''.'' \<notin> set ex"
proof -
  from assms have s: "split_on (CHR ''.'') v = [uid, ex, m]"
    by (auto simp: splitCookie_def split: list.splits)
  have "join_with ''.'' (split_on (CHR ''.'') v) = v" by simp
  then show "v = uid @ ''.'' @ ex @ ''.'' @ m" by (simp add: s)
  show "CHR ''.'' \<notin> set uid" "CHR ''.'' \<notin> set ex"
    using split_on_parts[of uid "CHR ''.''" v] split_on_parts[of ex "CHR ''.''" v] by (simp_all add: s)
qed

lemma splitCookie_join:
  "CHR ''.'' \<notin> set uid \<Longrightarrow> CHR ''.'' \<notin> set ex \<Longrightarrow> CHR ''.'' \<notin> set m \<Longrightarrow>
   splitCookie (uid @ ''.'' @ ex @ ''.'' @ m) = Some (uid, ex, m)"
  by (simp add: splitCookie_def split_on_append split_on_no_sep)

definition int64 :: "int \<Rightarrow> bool" where
  "int64 i \<longleftrightarrow> - (2 ^ 63) \<le> i \<and> i < 2 ^ 63"

lemma verify_issued:
  assumes "int64 uid" "int64 (now + sessionTTL)"
  shows "verify_session S (Some (ck_value (issue S tls uid now))) later =
    (if later < now + sessionTTL then Some uid else None)"
proof -
  have "ck_value (issue S tls uid now) = format_int uid @ ''.'' @ format_int (now + sessionTTL) @ ''.'' @
      sign S (cookie_payload uid now)"
    by (simp add: issue_def cookie_payload_def Let_def)
  then have "splitCookie (ck_value (issue S tls uid now)) =
      Some (format_int uid, format_int (now + sessionTTL), sign S (cookie_payload uid now))"
    by (simp only:) (rule splitCookie_join, simp_all add: sign_def)
  then show ?thesis
    using assms by (simp add: verify_session_def cookie_payload_def int64_def)
qed

lemma verify_Some:
  assumes "verify_session S (Some v) now = Some uid"
  obtains u ex e where "splitCookie v = Some (u, ex, sign S (u @ ''.'' @ ex))"
    "parse_int64 u = Some uid" "parse_int64 ex = Some e" "now < e"
  using assms by (auto simp: verify_session_def split: option.splits if_splits)

text \<open>
  What unforgeability of the MAC gives: a signature that a client can present is one that the
  server made. \<open>issued\<close> are the sessions that the server has issued, with their times, and
  \<open>known\<close> are the signatures that clients can present.
\<close>

definition unforgeable :: "sessions \<Rightarrow> string set \<Rightarrow> (int \<times> time) set \<Rightarrow> bool" where
  "unforgeable S known issued \<longleftrightarrow> (\<forall>p. sign S p \<in> known \<longrightarrow> (\<exists>(u, t) \<in> issued. p = cookie_payload u t))"

lemma session_authentic_lemma:
  assumes "unforgeable S known issued" "\<forall>(u, t) \<in> issued. int64 u \<and> int64 (t + sessionTTL)"
    "verify_session S (Some v) now = Some uid" "splitCookie v = Some (a, b, m)" "m \<in> known"
  shows "\<exists>t. (uid, t) \<in> issued \<and> now < t + sessionTTL"
proof -
  from verify_Some[OF assms(3)] obtain u ex e where v: "splitCookie v = Some (u, ex, sign S (u @ ''.'' @ ex))"
    "parse_int64 u = Some uid" "parse_int64 ex = Some e" "now < e" .
  from assms(4) v(1) have "m = sign S (u @ ''.'' @ ex)" by (metis option.inject prod.inject)
  with assms(5) have "sign S (u @ ''.'' @ ex) \<in> known" by blast
  with assms(1) obtain w t where i: "(w, t) \<in> issued" "u @ ''.'' @ ex = cookie_payload w t"
    unfolding unforgeable_def by blast
  have "u = format_int w \<and> ex = format_int (t + sessionTTL)"
    using i(2) splitCookie_Some[OF v(1)] by (simp add: cookie_payload_def append_sep_inj)
  moreover have "int64 w" "int64 (t + sessionTTL)" using assms(2) i(1) by auto
  ultimately have "uid = w" "e = t + sessionTTL" using v(2,3) by (simp_all add: int64_def)
  with i(1) v(4) show ?thesis by blast
qed

text \<open>
  C28. No one has a session that the server did not issue: if clients cannot forge the MAC, then
  a cookie that is accepted, whatever its bytes, names a user for whom a session was issued
  less than twelve hours before.
\<close>

theorem session_authentic:
  assumes "unforgeable S known issued" "\<forall>(u, t) \<in> issued. int64 u \<and> int64 (t + sessionTTL)"
    "verify_session S (Some v) now = Some uid" "splitCookie v = Some (a, b, m)" "m \<in> known"
  shows "\<exists>t. (uid, t) \<in> issued \<and> now < t + sessionTTL"
  by (rule session_authentic_lemma[OF assms])

definition sample_sessions :: sessions where
  "sample_sessions = \<lparr>mac = (\<lambda>k m. k @ m), session_key = ''k''\<rparr>"

lemma session_authentic_witness:
  "\<exists>t. (42 :: int, t) \<in> {(42, 1000)} \<and> 1060 < t + sessionTTL"
proof (rule session_authentic[where S = sample_sessions and known = "{sign sample_sessions (cookie_payload 42 1000)}"])
  show "unforgeable sample_sessions {sign sample_sessions (cookie_payload 42 1000)} {(42, 1000)}"
    unfolding unforgeable_def sign_def sample_sessions_def by (auto dest: hex_encode_inj)
  show "\<forall>(u, t) \<in> {(42, 1000)}. int64 u \<and> int64 (t + sessionTTL)"
    by (simp add: int64_def sessionTTL_def)
  show "verify_session sample_sessions (Some (ck_value (issue sample_sessions True 42 1000))) 1060 = Some 42"
    by (subst verify_issued) (simp_all add: int64_def sessionTTL_def)
  show "splitCookie (ck_value (issue sample_sessions True 42 1000)) =
      Some (format_int 42, format_int (1000 + sessionTTL), sign sample_sessions (cookie_payload 42 1000))"
    using splitCookie_join[of "format_int 42" "format_int (1000 + sessionTTL)"
        "sign sample_sessions (cookie_payload 42 1000)"]
    by (simp add: issue_def Let_def cookie_payload_def sign_def)
qed simp

end
