(* ===== verification/WebUI.thy ===== *)
theory WebUI
  imports Auth Keyring Session
begin

text \<open>
  \<open>internal/webui/webui.go\<close>: the pages of the forge and its management. A handler reads the
  request, runs statements of \<open>internal/meta\<close> and writes one response, so it is a function
  from the database to the response and the database. A page is the template's name with the
  data it is executed on; the templates themselves and the log are left out. The context of a
  request carries the administrator that \<open>requireAdmin\<close> found: \<open>cu\<close>. \<open>nw\<close> is the clock, which
  does not advance while a request is served, and \<open>b1\<close>, \<open>b2\<close> and \<open>iv\<close> are the random bytes
  that the request draws, \<open>None\<close> when the read fails.
\<close>

section \<open>Requests and responses\<close>

record request =
  is_get :: bool
  tls :: bool
  session_cookie :: "string option"
  FormValue :: "string \<Rightarrow> string"
  path_repo :: string

datatype 'p reply =
    Html int 'p
  | RedirectTo int string
  | HttpError int string
  | WithCookie cookie "'p reply"
  | Aborted

type_synonym 'p web = "db \<Rightarrow> 'p reply \<times> db"

datatype failure = MetaFailure meta_error | SecretFailure secret_error

text \<open>The message of a page: its text, or a text followed by that of an error.\<close>

datatype message = Text string | Failed string failure

record base =
  me :: string
  base_admin :: bool
  flash :: string
  err :: message

datatype page =
    LoginPage string
  | DashboardPage base "repo list"
  | SettingsPage base repo
  | UsersPage base "user list"
  | TokensPage base "user list" string "token_info list" string
  | AccessPage base string "acl_info list"
  | SecretsPage base string "string list" bool

record ui =
  ui_sess :: sessions
  ui_hash :: "bytes \<Rightarrow> bytes"
  ui_secrets :: "(crypto \<times> Keyring) option"
  ui_stamp :: "time \<Rightarrow> string"

definition New :: "sessions \<Rightarrow> (bytes \<Rightarrow> bytes) \<Rightarrow> (crypto \<times> Keyring) option \<Rightarrow> (time \<Rightarrow> string) \<Rightarrow> ui option" where
  "New S h sec stamp = (if session_key S = [] then None
     else Some \<lparr>ui_sess = S, ui_hash = h, ui_secrets = sec, ui_stamp = stamp\<rparr>)"

definition parentPath :: "string \<Rightarrow> string" where
  "parentPath p0 = (let p = trim_char (CHR ''/'') p0; parts = split_on (CHR ''/'') p in
     if CHR ''/'' \<in> set p then join_with ''/'' (butlast parts) else [])"

definition short :: "string \<Rightarrow> string" where
  "short s = (if length s > 8 then take 8 s else s)"

fun statusColor :: "run_status \<Rightarrow> string" where
  "statusColor RunPassed = ''#27ae60''"
| "statusColor RunFailed = ''#c0392b''"
| "statusColor RunError = ''#c0392b''"
| "statusColor RunRunning = ''#b7950b''"
| "statusColor RunQueued = ''#7f8c8d''"
| "statusColor RunSuperseded = ''#7f8c8d''"

definition alnum :: "char \<Rightarrow> bool" where
  "alnum c \<longleftrightarrow> digit_val c \<noteq> None \<or> (letter c \<and> c \<noteq> CHR ''_'')"

definition nameSegment :: "string \<Rightarrow> bool" where
  "nameSegment s \<longleftrightarrow> s \<noteq> [] \<and> alnum (hd s) \<and> (\<forall>c \<in> set s. alnum c \<or> c \<in> set ''._-'')"

text \<open>Writing the response; the handlers of the later theories have a larger state.\<close>

definition respond :: "'p reply \<Rightarrow> 's \<Rightarrow> 'p reply \<times> 's" where
  "respond x s = (x, s)"

definition serverError :: "'s \<Rightarrow> 'p reply \<times> 's" where
  "serverError = respond (HttpError 500 ''internal server error'')"

definition http_not_found :: "'s \<Rightarrow> 'p reply \<times> 's" where
  "http_not_found = respond (HttpError 404 ''404 page not found'')"

definition render :: "'p \<Rightarrow> 's \<Rightarrow> 'p reply \<times> 's" where
  "render pg = respond (Html 200 pg)"

text \<open>\<open>x, err := m; if err != nil { h.serverError(...); return }; k x\<close>\<close>

definition must :: "('s \<Rightarrow> ('e + 'a) \<times> 's) \<Rightarrow> ('a \<Rightarrow> 's \<Rightarrow> 'p reply \<times> 's) \<Rightarrow> 's \<Rightarrow> 'p reply \<times> 's" where
  "must m k = handleE m (\<lambda>r. case r of Inl _ \<Rightarrow> serverError | Inr x \<Rightarrow> k x)"

definition field :: "request \<Rightarrow> string \<Rightarrow> string" where
  "field r n = trim_space (FormValue r n)"

section \<open>The session of a request\<close>

definition denyUnauth :: "request \<Rightarrow> 's \<Rightarrow> 'p reply \<times> 's" where
  "denyUnauth r = (if is_get r then respond (RedirectTo 303 ''/login'')
     else respond (HttpError 401 ''unauthorized''))"

definition requireAdmin :: "ui \<Rightarrow> time \<Rightarrow> (user \<Rightarrow> request \<Rightarrow> 'p web) \<Rightarrow> request \<Rightarrow> 'p web" where
  "requireAdmin h nw next r = (case verify_session (ui_sess h) (session_cookie r) nw of
      None \<Rightarrow> denyUnauth r
    | Some uid \<Rightarrow> lookupE (GetUserByID uid) (denyUnauth r) (\<lambda>_. serverError) (\<lambda>user.
        if \<not> is_admin user then respond (HttpError 403 ''forbidden: admin only'')
        else next user r))"

definition viewer :: "ui \<Rightarrow> time \<Rightarrow> user option \<Rightarrow> request \<Rightarrow> db \<Rightarrow> user option \<times> db" where
  "viewer h nw cu r = (case cu of
      Some u \<Rightarrow> Pair (Some u)
    | None \<Rightarrow> (case verify_session (ui_sess h) (session_cookie r) nw of
        None \<Rightarrow> Pair None
      | Some i \<Rightarrow> handleE (GetUserByID i) (\<lambda>res. case res of Inr u \<Rightarrow> Pair (Some u) | Inl _ \<Rightarrow> Pair None)))"

definition userID :: "user option \<Rightarrow> int" where
  "userID u = (case u of Some x \<Rightarrow> user_id x | None \<Rightarrow> 0)"

definition baseFor :: "user option \<Rightarrow> string \<Rightarrow> message \<Rightarrow> base" where
  "baseFor u fl e = (case u of
      None \<Rightarrow> \<lparr>me = [], base_admin = False, flash = fl, err = e\<rparr>
    | Some x \<Rightarrow> \<lparr>me = handle x, base_admin = is_admin x, flash = fl, err = e\<rparr>)"

definition base_of :: "ui \<Rightarrow> time \<Rightarrow> user option \<Rightarrow> request \<Rightarrow> string \<Rightarrow> message \<Rightarrow> db \<Rightarrow> base \<times> db" where
  "base_of h nw cu r fl e = handleE (viewer h nw cu r) (\<lambda>u. Pair (baseFor u fl e))"

definition no_msg :: message where "no_msg = Text []"

section \<open>Login and logout\<close>

definition getLogin :: "page web" where
  "getLogin = render (LoginPage [])"

definition postLogin :: "ui \<Rightarrow> time \<Rightarrow> request \<Rightarrow> page web" where
  "postLogin h nw r = handleE (VerifyToken (ui_hash h) nw (field r ''token'')) (\<lambda>res. case res of
      Inl _ \<Rightarrow> respond (Html 401 (LoginPage ''invalid token''))
    | Inr user \<Rightarrow> respond (WithCookie (issue (ui_sess h) (tls r) (user_id user) nw) (RedirectTo 303 ''/'')))"

definition postLogout :: "ui \<Rightarrow> page web" where
  "postLogout h = respond (WithCookie (clear (ui_sess h)) (RedirectTo 303 ''/login''))"

section \<open>The dashboard and repositories\<close>

definition renderDashboard :: "ui \<Rightarrow> time \<Rightarrow> user option \<Rightarrow> request \<Rightarrow> string \<Rightarrow> message \<Rightarrow> page web" where
  "renderDashboard h nw cu r fl e = handleE (viewer h nw cu r) (\<lambda>u.
     must (if u \<noteq> None \<and> is_admin (the u) then ListRepos else ListReposForViewer (userID u)) (\<lambda>rs.
       render (DashboardPage (baseFor u fl e) rs)))"

definition getDashboard :: "ui \<Rightarrow> time \<Rightarrow> request \<Rightarrow> page web" where
  "getDashboard h nw r = renderDashboard h nw None r [] no_msg"

definition postRepo :: "ui \<Rightarrow> time \<Rightarrow> user \<Rightarrow> request \<Rightarrow> page web" where
  "postRepo h nw u r =
     (let name = field r ''name''; branch = field r ''default_branch'' in
      if \<not> nameSegment name
      then renderDashboard h nw (Some u) r [] (Text ''name must be alphanumeric (._- allowed, not leading)'')
      else handleE (CreateRepo name branch nw) (\<lambda>res. case res of
          Inl e \<Rightarrow> renderDashboard h nw (Some u) r [] (Failed ''create repo: '' (MetaFailure e))
        | Inr repo \<Rightarrow> must (SetACL (repo_id repo) (user_id u) PermAdmin) (\<lambda>_.
            renderDashboard h nw (Some u) r (''created '' @ name) no_msg)))"

section \<open>The settings of a repository\<close>

definition renderSettings :: "ui \<Rightarrow> time \<Rightarrow> user \<Rightarrow> request \<Rightarrow> string \<Rightarrow> string \<Rightarrow> message \<Rightarrow> page web" where
  "renderSettings h nw u r name fl e =
     lookupE (GetRepo name) http_not_found (\<lambda>_. serverError) (\<lambda>rp.
       handleE (base_of h nw (Some u) r fl e) (\<lambda>b. render (SettingsPage b rp)))"

definition getSettings :: "ui \<Rightarrow> time \<Rightarrow> user \<Rightarrow> request \<Rightarrow> page web" where
  "getSettings h nw u r = renderSettings h nw u r (path_repo r) [] no_msg"

definition postSettings :: "ui \<Rightarrow> time \<Rightarrow> user \<Rightarrow> request \<Rightarrow> page web" where
  "postSettings h nw u r =
     (let name = path_repo r; v = field r ''visibility''; branch = field r ''default_branch'' in
      lookupE (GetRepo name) http_not_found (\<lambda>_. serverError) (\<lambda>rp.
        if v \<noteq> [] then
          (if v \<noteq> VisibilityPrivate \<and> v \<noteq> VisibilityPublic
           then renderSettings h nw u r name [] (Text ''visibility must be private or public'')
           else must (SetVisibility (repo_id rp) v) (\<lambda>_.
             renderSettings h nw u r name (''visibility set to '' @ v) no_msg))
        else if branch = [] then renderSettings h nw u r name [] (Text ''default branch cannot be empty'')
        else must (SetDefaultBranch (repo_id rp) branch) (\<lambda>_.
          renderSettings h nw u r name (''default branch set to '' @ branch) no_msg)))"

section \<open>Users\<close>

definition renderUsers :: "ui \<Rightarrow> time \<Rightarrow> user \<Rightarrow> request \<Rightarrow> string \<Rightarrow> message \<Rightarrow> page web" where
  "renderUsers h nw u r fl e = must ListUsers (\<lambda>us.
     handleE (base_of h nw (Some u) r fl e) (\<lambda>b. render (UsersPage b us)))"

definition getUsers :: "ui \<Rightarrow> time \<Rightarrow> user \<Rightarrow> request \<Rightarrow> page web" where
  "getUsers h nw u r = renderUsers h nw u r [] no_msg"

definition postUser :: "ui \<Rightarrow> time \<Rightarrow> user \<Rightarrow> request \<Rightarrow> page web" where
  "postUser h nw u r =
     (let hnd = field r ''handle'' in
      if \<not> nameSegment hnd
      then renderUsers h nw u r [] (Text ''handle must be alphanumeric (._- allowed, not leading)'')
      else handleE (if FormValue r ''is_admin'' \<noteq> [] then CreateAdmin hnd nw else CreateUser hnd nw) (\<lambda>res.
        case res of
          Inl e \<Rightarrow> renderUsers h nw u r [] (Failed ''create user: '' (MetaFailure e))
        | Inr _ \<Rightarrow> renderUsers h nw u r (''created user '' @ hnd) no_msg))"

section \<open>Tokens\<close>

definition renderTokens :: "ui \<Rightarrow> time \<Rightarrow> user \<Rightarrow> request \<Rightarrow> string \<Rightarrow> string \<Rightarrow> message \<Rightarrow> page web" where
  "renderTokens h nw u r selected0 newRaw e =
     (let selected = (if selected0 = [] then field r ''user'' else selected0) in
      must ListUsers (\<lambda>us. handleE (base_of h nw (Some u) r [] e) (\<lambda>b.
        if selected = [] then render (TokensPage b us selected [] newRaw)
        else lookupE (GetUser selected)
          (render (TokensPage (b\<lparr>err := Text (''no such user: '' @ selected)\<rparr>) us selected [] newRaw))
          (\<lambda>_. serverError)
          (\<lambda>x. must (ListTokens (ui_stamp h) (user_id x)) (\<lambda>ts.
            render (TokensPage b us selected ts newRaw))))))"

definition getTokens :: "ui \<Rightarrow> time \<Rightarrow> user \<Rightarrow> request \<Rightarrow> page web" where
  "getTokens h nw u r = renderTokens h nw u r [] [] no_msg"

definition postToken :: "ui \<Rightarrow> time \<Rightarrow> bytes option \<Rightarrow> bytes option \<Rightarrow> user \<Rightarrow> request \<Rightarrow> page web" where
  "postToken h nw b1 b2 u r =
     (let hnd = field r ''user''; label = field r ''label'' in
      lookupE (GetUser hnd)
        (renderTokens h nw u r hnd [] (Text (''no such user: '' @ hnd))) (\<lambda>_. serverError)
        (\<lambda>x. case Mint (ui_hash h) b1 b2 of
            None \<Rightarrow> serverError
          | Some (raw, sel, ver) \<Rightarrow> must (CreateToken (user_id x) sel ver label nw) (\<lambda>_.
              renderTokens h nw u r hnd raw no_msg)))"

definition postRevokeToken :: "ui \<Rightarrow> time \<Rightarrow> user \<Rightarrow> request \<Rightarrow> page web" where
  "postRevokeToken h nw u r =
     (let hnd = field r ''user'' in
      case parse_int64 (FormValue r ''id'') of
        None \<Rightarrow> renderTokens h nw u r hnd [] (Text ''bad token id'')
      | Some i \<Rightarrow> must (DeleteToken i) (\<lambda>_. renderTokens h nw u r hnd [] no_msg))"

section \<open>The access rules of a repository\<close>

definition perm_of :: "string \<Rightarrow> perm" where
  "perm_of p = (if p = ''read'' then PermRead else if p = ''write'' then PermWrite
     else if p = ''admin'' then PermAdmin else PermOther p)"

definition renderAccess :: "ui \<Rightarrow> time \<Rightarrow> user \<Rightarrow> request \<Rightarrow> string \<Rightarrow> string \<Rightarrow> message \<Rightarrow> page web" where
  "renderAccess h nw u r name fl e =
     lookupE (GetRepo name) http_not_found (\<lambda>_. serverError) (\<lambda>rp.
       must (ListACLs (repo_id rp)) (\<lambda>as. handleE (base_of h nw (Some u) r fl e) (\<lambda>b.
         render (AccessPage b (repo_name rp) as))))"

definition getAccess :: "ui \<Rightarrow> time \<Rightarrow> user \<Rightarrow> request \<Rightarrow> page web" where
  "getAccess h nw u r = renderAccess h nw u r (path_repo r) [] no_msg"

definition postAccess :: "ui \<Rightarrow> time \<Rightarrow> user \<Rightarrow> request \<Rightarrow> page web" where
  "postAccess h nw u r =
     (let name = path_repo r; hnd = field r ''handle''; p = perm_of (field r ''perm'') in
      if p \<noteq> PermRead \<and> p \<noteq> PermWrite \<and> p \<noteq> PermAdmin
      then renderAccess h nw u r name [] (Text ''permission must be read, write, or admin'')
      else lookupE (GetRepo name) http_not_found (\<lambda>_. serverError) (\<lambda>rp.
        lookupE (GetUser hnd)
          (renderAccess h nw u r name [] (Text (''no such user: '' @ hnd))) (\<lambda>_. serverError)
          (\<lambda>x. must (SetACL (repo_id rp) (user_id x) p) (\<lambda>_.
            renderAccess h nw u r name (''granted '' @ field r ''perm'' @ '' to '' @ hnd) no_msg))))"

definition postRevokeAccess :: "ui \<Rightarrow> time \<Rightarrow> user \<Rightarrow> request \<Rightarrow> page web" where
  "postRevokeAccess h nw u r =
     (let name = path_repo r in
      case parse_int64 (FormValue r ''user_id'') of
        None \<Rightarrow> renderAccess h nw u r name [] (Text ''bad user id'')
      | Some uid \<Rightarrow> lookupE (GetRepo name) http_not_found (\<lambda>_. serverError) (\<lambda>rp.
          must (DeleteACL (repo_id rp) uid) (\<lambda>_. renderAccess h nw u r name ''revoked'' no_msg)))"

section \<open>The secrets of a repository\<close>

definition secrets_on :: "ui \<Rightarrow> bool" where
  "secrets_on h = (case ui_secrets h of None \<Rightarrow> False | Some (C, kr) \<Rightarrow> Enabled kr)"

definition renderSecrets :: "ui \<Rightarrow> time \<Rightarrow> user \<Rightarrow> request \<Rightarrow> string \<Rightarrow> string \<Rightarrow> message \<Rightarrow> page web" where
  "renderSecrets h nw u r name fl e =
     lookupE (GetRepo name) http_not_found (\<lambda>_. serverError) (\<lambda>rp.
       handleE (base_of h nw (Some u) r fl e) (\<lambda>b.
         if secrets_on h
         then must (Service_ListSecretNames (repo_id rp)) (\<lambda>ns. render (SecretsPage b (repo_name rp) ns True))
         else render (SecretsPage b (repo_name rp) [] False)))"

definition getSecrets :: "ui \<Rightarrow> time \<Rightarrow> user \<Rightarrow> request \<Rightarrow> page web" where
  "getSecrets h nw u r = renderSecrets h nw u r (path_repo r) [] no_msg"

definition postSecret :: "ui \<Rightarrow> time \<Rightarrow> bytes option \<Rightarrow> user \<Rightarrow> request \<Rightarrow> page web" where
  "postSecret h nw iv u r =
     (let name = path_repo r; secretName = field r ''name''; val = FormValue r ''value'' in
      case ui_secrets h of
        None \<Rightarrow> renderSecrets h nw u r name [] (Text ''secrets are disabled: set GITMOTE_CI_SECRET_KEY_V1'')
      | Some (C, kr) \<Rightarrow>
        (if \<not> Enabled kr
         then renderSecrets h nw u r name [] (Text ''secrets are disabled: set GITMOTE_CI_SECRET_KEY_V1'')
         else if val = [] then renderSecrets h nw u r name [] (Text ''value cannot be empty'')
         else lookupE (GetRepo name) http_not_found (\<lambda>_. serverError) (\<lambda>rp.
           handleE (Service_SetSecret C kr iv nw (repo_id rp) secretName val) (\<lambda>res. case res of
               Inl e \<Rightarrow> renderSecrets h nw u r name [] (Failed ''set secret: '' (SecretFailure e))
             | Inr _ \<Rightarrow> renderSecrets h nw u r name (''saved secret '' @ secretName) no_msg))))"

text \<open>
  \<open>postDeleteSecret\<close> uses \<open>h.secrets\<close> without looking at it: with the interface nil (\<open>None\<close>)
  the call panics, which net/http turns into an aborted response; the server always passes a
  service, possibly one without keys.
\<close>

definition postDeleteSecret :: "ui \<Rightarrow> time \<Rightarrow> user \<Rightarrow> request \<Rightarrow> page web" where
  "postDeleteSecret h nw u r =
     (let name = path_repo r; secretName = field r ''name'' in
      lookupE (GetRepo name) http_not_found (\<lambda>_. serverError) (\<lambda>rp.
        (case ui_secrets h of
           None \<Rightarrow> respond Aborted
         | Some _ \<Rightarrow> must (Service_DeleteSecret (repo_id rp) secretName) (\<lambda>_.
             renderSecrets h nw u r name (''deleted secret '' @ secretName) no_msg))))"

section \<open>The routes of the management\<close>

datatype admin_action =
    PostRepo | GetUsers | PostUser | GetTokens | PostToken | PostRevokeToken
  | GetSettings | PostSettings | GetAccess | PostAccess | PostRevokeAccess
  | GetSecretNames | PostSecret | PostDeleteSecret

datatype action = GetLogin | PostLogin | PostLogout | GetDashboard | Manage admin_action

record draws =
  draw_selector :: "bytes option"
  draw_secret :: "bytes option"
  draw_iv :: "bytes option"

fun admin_handler :: "ui \<Rightarrow> time \<Rightarrow> draws \<Rightarrow> admin_action \<Rightarrow> user \<Rightarrow> request \<Rightarrow> page web" where
  "admin_handler h nw d PostRepo = postRepo h nw"
| "admin_handler h nw d GetUsers = getUsers h nw"
| "admin_handler h nw d PostUser = postUser h nw"
| "admin_handler h nw d GetTokens = getTokens h nw"
| "admin_handler h nw d PostToken = postToken h nw (draw_selector d) (draw_secret d)"
| "admin_handler h nw d PostRevokeToken = postRevokeToken h nw"
| "admin_handler h nw d GetSettings = getSettings h nw"
| "admin_handler h nw d PostSettings = postSettings h nw"
| "admin_handler h nw d GetAccess = getAccess h nw"
| "admin_handler h nw d PostAccess = postAccess h nw"
| "admin_handler h nw d PostRevokeAccess = postRevokeAccess h nw"
| "admin_handler h nw d GetSecretNames = getSecrets h nw"
| "admin_handler h nw d PostSecret = postSecret h nw (draw_iv d)"
| "admin_handler h nw d PostDeleteSecret = postDeleteSecret h nw"

fun serve_ui :: "ui \<Rightarrow> time \<Rightarrow> draws \<Rightarrow> action \<Rightarrow> request \<Rightarrow> page web" where
  "serve_ui h nw d GetLogin r = getLogin"
| "serve_ui h nw d PostLogin r = postLogin h nw r"
| "serve_ui h nw d PostLogout r = postLogout h"
| "serve_ui h nw d GetDashboard r = getDashboard h nw r"
| "serve_ui h nw d (Manage a) r = requireAdmin h nw (admin_handler h nw d a) r"

section \<open>What each handler keeps\<close>

text \<open>
  A page only reads: it keeps every property of the tables. So what a handler keeps is what
  its one writing statement keeps.
\<close>

lemma keeps_reply [keeps_intro]: "keeps P (respond x)"
  by (simp add: keeps_def respond_def)

lemma keeps_Pair [keeps_intro]: "keeps P (Pair x)"
  by (simp add: keeps_def)

lemma keeps_errors [keeps_intro]:
  "keeps P serverError" "keeps P http_not_found" "keeps P (render pg)" "keeps P (denyUnauth r)"
  by (simp_all add: serverError_def http_not_found_def render_def denyUnauth_def keeps_reply)

lemma keeps_must [keeps_intro]: "keeps P m \<Longrightarrow> (\<And>x. keeps P (k x)) \<Longrightarrow> keeps P (must m k)"
  unfolding must_def by (intro keeps_intro)

lemma keeps_liftS: "keeps P m \<Longrightarrow> keeps P (liftS m)"
  by (fastforce simp: keeps_def liftS_def split: prod.splits)

lemma keeps_meta_reads:
  assumes "fault_free P"
  shows "keeps P (GetRepo name)" "keeps P (GetUser h)" "keeps P (GetUserByID i)" "keeps P ListRepos"
    "keeps P (ListReposForViewer i)" "keeps P ListUsers" "keeps P (ListTokens stamp i)" "keeps P (ListACLs i)"
    "keeps P (Service_ListSecretNames i)" "keeps P (TokenBySelector sel)" "keeps P (ListRefs i)" "keeps P (GetACL i j)"
  using assms
  by (simp_all add: GetRepo_def GetUser_def GetUserByID_def ListRepos_def ListReposForViewer_def ListUsers_def
      ListTokens_def ListACLs_def Service_ListSecretNames_def ListSecretNames_def TokenBySelector_def
      ListRefs_def GetACL_def keeps_liftS keeps_query keeps_query_row)

lemma keeps_viewer: "fault_free P \<Longrightarrow> keeps P (viewer h nw cu r)"
  unfolding viewer_def by (intro keeps_intro keeps_meta_reads)

lemma keeps_base_of: "fault_free P \<Longrightarrow> keeps P (base_of h nw cu r fl e)"
  unfolding base_of_def by (intro keeps_intro keeps_viewer)

lemmas keeps_page = keeps_intro keeps_meta_reads keeps_viewer keeps_base_of

lemma keeps_pages:
  assumes "fault_free P"
  shows "keeps P (renderDashboard h nw cu r fl e)" "keeps P (renderSettings h nw u r name fl e)"
    "keeps P (renderUsers h nw u r fl e)" "keeps P (renderTokens h nw u r sel raw e)"
    "keeps P (renderAccess h nw u r name fl e)" "keeps P (renderSecrets h nw u r name fl e)"
  unfolding renderDashboard_def renderSettings_def renderUsers_def renderTokens_def renderAccess_def
    renderSecrets_def Let_def
  by (intro keeps_page assms)+

lemma keeps_Service [keeps_intro]:
  "keeps db_ok (Service_SetSecret C kr iv nw i n v)" "keeps db_ok (Service_DeleteSecret i n)"
proof -
  have "db_ok s \<Longrightarrow> db_ok (snd (liftS (SetSecret i n a b c nw) s))" for s a b c
    using keepsD[OF keeps_liftS[OF keeps_SetSecret]] .
  then show "keeps db_ok (Service_SetSecret C kr iv nw i n v)"
    by (auto simp: keeps_def Service_SetSecret_def split: sum.split)
  show "keeps db_ok (Service_DeleteSecret i n)"
    unfolding Service_DeleteSecret_def by (intro keeps_liftS keeps_secrets)
qed

lemma keeps_user_token [keeps_intro]:
  "keeps db_ok (CreateAdmin hnd ts)" "keeps db_ok (CreateUser hnd ts)" "keeps db_ok (CreateToken i sel ver label ts)"
  "keeps db_ok (VerifyToken H nw raw)"
  unfolding CreateAdmin_def CreateUser_def CreateToken_def VerifyToken_def by (intro keeps_intro)+

lemma keeps_option_strict:
  "keeps P m \<Longrightarrow> (\<And>x y z. keeps P (g x y z)) \<Longrightarrow> keeps P (case r of None \<Rightarrow> m | Some (x, y, z) \<Rightarrow> g x y z)"
  "keeps P m \<Longrightarrow> (\<And>x y. keeps P (k x y)) \<Longrightarrow> keeps P (case q of None \<Rightarrow> m | Some (x, y) \<Rightarrow> k x y)"
  by (simp_all split: option.split prod.split)

lemma keeps_admin_handler: "keeps db_ok (admin_handler h nw d a u r)"
proof -
  note unf = getUsers_def getTokens_def getSettings_def getAccess_def getSecrets_def postRepo_def postUser_def
    postToken_def postRevokeToken_def postSettings_def postAccess_def postRevokeAccess_def postSecret_def
    postDeleteSecret_def Let_def
  show ?thesis
    by (cases a; simp only: admin_handler.simps unf;
        intro keeps_option_strict keeps_intro keeps_meta_reads keeps_pages)
qed

lemma keeps_requireAdmin: "fault_free P \<Longrightarrow> (\<And>u r. keeps P (next u r)) \<Longrightarrow> keeps P (requireAdmin h nw next r)"
  unfolding requireAdmin_def by (intro keeps_page)


section \<open>Who may manage\<close>

text \<open>
  \<open>forge\<close> is what the database says, without the times at which tokens were last used;
  \<open>admin_session\<close> says that the request carries the session of a current administrator.
\<close>

definition forge :: "db \<Rightarrow> db" where
  "forge s = s\<lparr>faults := [], tokens := map (\<lambda>t. t\<lparr>last_used := None\<rparr>) (tokens s)\<rparr>"

definition admin_session :: "ui \<Rightarrow> time \<Rightarrow> request \<Rightarrow> db \<Rightarrow> bool" where
  "admin_session h nw r s \<longleftrightarrow>
     (\<exists>u \<in> set (users s). verify_session (ui_sess h) (session_cookie r) nw = Some (user_id u) \<and> is_admin u)"

lemma fault_free_forge: "fault_free (\<lambda>t. forge t = x)"
  by (simp add: fault_free_def forge_def)

lemma forge_faults [simp]: "forge (s\<lparr>faults := fs\<rparr>) = forge s"
  by (simp add: forge_def)

lemma keeps_forge_touch: "keeps (\<lambda>t. forge t = x) (TouchToken i nw)"
proof -
  have "map (\<lambda>t. t\<lparr>last_used := None\<rparr>) (update_where P (\<lambda>t. t\<lparr>last_used := Some nw\<rparr>) T) =
      map (\<lambda>t. t\<lparr>last_used := None\<rparr>) T" for P and T :: "token_row list"
    by (simp add: update_where_def)
  then show ?thesis
    unfolding TouchToken_def by (intro keeps_sql fault_free_forge keepsI) (simp add: forge_def)
qed

lemma keeps_forge_login: "keeps (\<lambda>t. forge t = x) (postLogin h nw r)"
  unfolding postLogin_def VerifyToken_def verify_def
  by (intro keeps_option_strict keeps_intro keeps_forge_touch keeps_meta_reads fault_free_forge)

definition refusals :: "request \<Rightarrow> 'p reply set" where
  "refusals r = {if is_get r then RedirectTo 303 ''/login'' else HttpError 401 ''unauthorized'',
     HttpError 403 ''forbidden: admin only'', HttpError 500 ''internal server error''}"

lemma GetUserByID_cases:
  assumes "GetUserByID i s = (res, t)"
  obtains fs u where "res = Inr u" "t = s\<lparr>faults := fs\<rparr>" "u \<in> set (users s)" "user_id u = i"
  | fs e where "res = Inl e" "t = s\<lparr>faults := fs\<rparr>"
proof -
  from sql_outcome[of "\<lambda>s. (case first_where (\<lambda>u. user_id u = i) (users s) of None \<Rightarrow> Inl NotFound | Some x \<Rightarrow> Inr x, s)" s]
    assms obtain fs where "(res, t) = (Inl DbError, s\<lparr>faults := fs\<rparr>) \<or>
      (res, t) = (case first_where (\<lambda>u. user_id u = i) (users s) of None \<Rightarrow> Inl NotFound | Some x \<Rightarrow> Inr x, s\<lparr>faults := fs\<rparr>)"
    by (auto simp: GetUserByID_def query_row_def)
  with first_where_Some[of "\<lambda>u. user_id u = i" "users s"] that show thesis
    by (auto split: option.splits)
qed

lemma requireAdmin_refuses:
  assumes "\<not> admin_session h nw r s" "requireAdmin h nw next r s = (resp, t)"
  shows "resp \<in> refusals r \<and> forge t = forge s"
proof (cases "verify_session (ui_sess h) (session_cookie r) nw")
  case None
  with assms(2) show ?thesis by (auto simp: requireAdmin_def denyUnauth_def respond_def refusals_def)
next
  case (Some i)
  obtain res v where g: "GetUserByID i s = (res, v)" by (cases "GetUserByID i s")
  from g show ?thesis
  proof (cases rule: GetUserByID_cases)
    case (1 fs u)
    with assms(1) Some have "\<not> is_admin u" by (auto simp: admin_session_def)
    with assms(2) Some g 1 show ?thesis
      by (auto simp: requireAdmin_def respond_def refusals_def)
  next
    case (2 fs e)
    with assms(2) Some g show ?thesis
      by (cases "e = NotFound")
         (auto simp: requireAdmin_def denyUnauth_def serverError_def respond_def refusals_def)
  qed
qed

lemma only_admins_lemma:
  assumes "\<not> admin_session h nw r s" "serve_ui h nw d a r s = (resp, t)"
  shows "forge t = forge s \<and> (\<forall>m. a = Manage m \<longrightarrow> resp \<in> refusals r)"
proof (cases a)
  case (Manage m)
  with assms(2) have "requireAdmin h nw (admin_handler h nw d m) r s = (resp, t)" by simp
  from requireAdmin_refuses[OF assms(1) this] Manage show ?thesis by simp
next
  case PostLogin
  with assms(2) keepsD[OF keeps_forge_login, of s "forge s" h nw r] show ?thesis by simp
next
  case GetDashboard
  with assms(2) keepsD[OF keeps_pages(1)[OF fault_free_forge], of s "forge s" h nw None r "[]" no_msg]
  show ?thesis by (simp add: getDashboard_def)
qed (use assms(2) in \<open>simp_all add: getLogin_def postLogout_def render_def respond_def\<close>)

text \<open>
  C30. Only an administrator manages the forge: a request without the session of a user who
  is an administrator now gets a refusal from every route of the management, and no request
  of such a client changes anything in the database but the time a token was last used.
\<close>

theorem only_admins_manage:
  assumes "\<not> admin_session h nw r s" "serve_ui h nw d a r s = (resp, t)"
  shows "forge t = forge s \<and> (\<forall>m. a = Manage m \<longrightarrow> resp \<in> refusals r)"
  by (rule only_admins_lemma[OF assms])

definition sample_ui :: ui where
  "sample_ui = \<lparr>ui_sess = sample_sessions, ui_hash = id, ui_secrets = None, ui_stamp = format_int\<rparr>"

definition sample_request :: "string option \<Rightarrow> (string \<times> string) list \<Rightarrow> request" where
  "sample_request c fs = \<lparr>is_get = False, tls = True, session_cookie = c,
     FormValue = (\<lambda>n. case map_of fs n of None \<Rightarrow> [] | Some v \<Rightarrow> v), path_repo = ''app''\<rparr>"

definition sample_draws :: draws where
  "sample_draws = \<lparr>draw_selector = Some ''s'', draw_secret = Some ''t'', draw_iv = Some ''abcdefghijkl''\<rparr>"

lemma sample_session:
  "int64 i \<Longrightarrow> int64 (nw + sessionTTL) \<Longrightarrow> later < nw + sessionTTL \<Longrightarrow>
   verify_session sample_sessions (Some (ck_value (issue sample_sessions b i nw))) later = Some i"
  by (subst verify_issued) simp_all

lemma only_admins_manage_witness:
  "let r = sample_request (Some (ck_value (issue sample_sessions True 2 0))) [(''handle'', ''eve''), (''is_admin'', ''on'')];
       (resp, t) = serve_ui sample_ui 10 sample_draws (Manage PostUser) r sample_db
   in forge t = forge sample_db \<and> resp \<in> refusals r"
proof -
  let ?r = "sample_request (Some (ck_value (issue sample_sessions True 2 0))) [(''handle'', ''eve''), (''is_admin'', ''on'')]"
  obtain resp t where s: "serve_ui sample_ui 10 sample_draws (Manage PostUser) ?r sample_db = (resp, t)"
    by (cases "serve_ui sample_ui 10 sample_draws (Manage PostUser) ?r sample_db")
  have "\<not> admin_session sample_ui 10 ?r sample_db"
    unfolding admin_session_def sample_ui_def sample_request_def
    by (simp add: sample_session int64_def sessionTTL_def sample_db_def)
  from only_admins_manage[OF this s] show ?thesis unfolding Let_def s by simp
qed

section \<open>Logging in\<close>

lemma VerifyToken_valid:
  assumes "db_ok s" "no_faults s" "token_valid H nw s raw tk u"
  shows "\<exists>t. VerifyToken H nw raw s = (Inr u, t) \<and> no_faults t \<and> users t = users s"
  using verify_complete[OF assms] by (auto simp: VerifyToken_def bindE_def retE_def)

lemma GetUserByID_found:
  assumes "db_ok s" "no_faults s" "u \<in> set (users s)"
  shows "GetUserByID (user_id u) s = (Inr u, s)"
proof -
  have "first_where (\<lambda>x. user_id x = user_id u) (users s) = Some u"
    by (rule first_where_unique[where key = user_id])
       (use assms in \<open>auto simp: db_ok_def users_ok_def key_ok_def\<close>)
  then show ?thesis using assms(2) by (simp add: GetUserByID_def)
qed

lemma login_session_lemma:
  assumes "db_ok s" "no_faults s" "token_valid (ui_hash h) nw s (field r ''token'') tk u"
    and "int64 (user_id u)" "int64 (nw + sessionTTL)" "later < nw + sessionTTL"
    and "postLogin h nw r s = (resp, t)"
  shows "\<exists>c. resp = WithCookie c (RedirectTo 303 ''/'') \<and>
    viewer h later None (q\<lparr>session_cookie := Some (ck_value c)\<rparr>) t = (Some u, t)"
proof -
  obtain t' where v: "VerifyToken (ui_hash h) nw (field r ''token'') s = (Inr u, t')" "no_faults t'" "users t' = users s"
    using VerifyToken_valid[OF assms(1-3)] by blast
  let ?c = "issue (ui_sess h) (tls r) (user_id u) nw"
  from assms(7) v(1) have resp: "resp = WithCookie ?c (RedirectTo 303 ''/'')" "t = t'"
    by (simp_all add: postLogin_def handleE_def respond_def)
  have "keeps db_ok (VerifyToken (ui_hash h) nw (field r ''token''))" by (rule keeps_user_token)
  from keepsD[OF this assms(1)] v(1) have ok: "db_ok t'" by simp
  have "u \<in> set (users t')" using assms(3) v(3) by (auto simp: token_valid_def)
  from GetUserByID_found[OF ok v(2) this]
  have "viewer h later None (q\<lparr>session_cookie := Some (ck_value ?c)\<rparr>) t' = (Some u, t')"
    using verify_issued[OF assms(4,5), of "ui_sess h" "tls r" later] assms(6)
    by (simp add: viewer_def handleE_def)
  with resp show ?thesis by simp
qed

text \<open>
  Whoever pastes a valid token is signed in as its owner: the response sets a cookie, and
  every request with that cookie in the next twelve hours is that user's.
\<close>

theorem login_opens_session:
  assumes "db_ok s" "no_faults s" "token_valid (ui_hash h) nw s (field r ''token'') tk u"
    and "int64 (user_id u)" "int64 (nw + sessionTTL)" "later < nw + sessionTTL"
    and "postLogin h nw r s = (resp, t)"
  shows "\<exists>c. resp = WithCookie c (RedirectTo 303 ''/'') \<and>
    viewer h later None (q\<lparr>session_cookie := Some (ck_value c)\<rparr>) t = (Some u, t)"
  by (rule login_session_lemma[OF assms])

lemma login_opens_session_witness:
  "\<exists>resp t c. postLogin sample_ui 10 (sample_request None [(''token'', ''gmt_ab.cd'')]) sample_db = (resp, t) \<and>
     resp = WithCookie c (RedirectTo 303 ''/'') \<and>
     viewer sample_ui 20 None ((sample_request None [])\<lparr>session_cookie := Some (ck_value c)\<rparr>) t =
       (Some (users sample_db ! 1), t)"
proof -
  let ?r = "sample_request None [(''token'', ''gmt_ab.cd'')]"
  obtain resp t where p: "postLogin sample_ui 10 ?r sample_db = (resp, t)"
    by (cases "postLogin sample_ui 10 ?r sample_db")
  have f: "field ?r ''token'' = ''gmt_ab.cd''"
    by (simp add: field_def sample_request_def) code_simp
  have "split ''gmt_ab.cd'' = Some (''ab'', ''cd'')" by code_simp
  moreover have "hashSecret id ''cd'' = ''6364''" by code_simp
  ultimately have v: "token_valid (ui_hash sample_ui) 10 sample_db (field ?r ''token'') (hd (tokens sample_db)) (users sample_db ! 1)"
    by (simp add: f token_valid_def sample_ui_def sample_db_def)
  have "int64 (user_id (users sample_db ! 1))" "int64 (10 + sessionTTL)" "20 < 10 + sessionTTL"
    by (simp_all add: int64_def sessionTTL_def sample_db_def)
  from login_opens_session[OF sample_db_ok sample_no_faults v this p, of "sample_request None []"] p
  show ?thesis by blast
qed

end
