(* ===== verification/Render.thy ===== *)
theory Render
  imports GoPath
begin

text \<open>
  \<open>internal/render\<close>: what turns the content of a repository into HTML. The converters of the
  third-party packages (chroma, goldmark, bluemonday) are not modelled: a page is given the
  arguments that they are called on. \<open>url.Parse\<close> is a parameter, the record of its result.
  \<open>read_html\<close> is what a browser makes of the HTML that the package writes itself: its tags
  and the characters between them.
\<close>

section \<open>Escaping\<close>

definition esc_char :: "char \<Rightarrow> string" where
  "esc_char c = (if c = CHR 0x00 then [CHR 0xEF, CHR 0xBF, CHR 0xBD]
     else if c = CHR 0x22 then ''&#34;'' else if c = CHR 0x27 then ''&#39;''
     else if c = CHR ''&'' then ''&amp;'' else if c = CHR ''<'' then ''&lt;''
     else if c = CHR ''>'' then ''&gt;'' else [c])"

definition HTMLEscapeString :: "string \<Rightarrow> string" where
  "HTMLEscapeString s = concat (map esc_char s)"

datatype html_token = Tag string | Ch char

definition entity :: "string \<Rightarrow> string option" where
  "entity e = map_of [(''#34'', [CHR 0x22]), (''#39'', [CHR 0x27]), (''amp'', ''&''), (''lt'', ''<''),
     (''gt'', ''>''), (''#8203'', [CHR 0xE2, CHR 0x80, CHR 0x8B])] e"

fun take_until :: "char \<Rightarrow> string \<Rightarrow> (string \<times> string) option" where
  "take_until d [] = None"
| "take_until d (c # cs) = (if c = d then Some ([], cs) else map_option (\<lambda>(a, b). (c # a, b)) (take_until d cs))"

lemma take_until_length: "take_until d s = Some (a, b) \<Longrightarrow> length b < length s"
  by (induction s arbitrary: a b) (auto split: if_splits simp: less_Suc_eq)

lemma take_until_append: "d \<notin> set a \<Longrightarrow> take_until d (a @ d # b) = Some (a, b)"
  by (induction a) auto

function read_html :: "string \<Rightarrow> html_token list" where
  "read_html [] = []"
| "read_html (c # cs) =
     (if c = CHR ''<'' then
        (case take_until (CHR ''>'') cs of None \<Rightarrow> [] | Some (t, rest) \<Rightarrow> Tag t # read_html rest)
      else if c = CHR ''&'' then
        (case take_until (CHR '';'') cs of None \<Rightarrow> Ch c # read_html cs
         | Some (e, rest) \<Rightarrow> (case entity e of None \<Rightarrow> Ch c # read_html cs
             | Some x \<Rightarrow> map Ch x @ read_html rest))
      else Ch c # read_html cs)"
  by pat_completeness auto
termination
  by (relation "measure length") (auto dest: take_until_length)

definition shown :: "string \<Rightarrow> string" where
  "shown s = concat (map (\<lambda>c. if c = CHR 0x00 then [CHR 0xEF, CHR 0xBF, CHR 0xBD] else [c]) s)"

lemma read_tag: "CHR ''>'' \<notin> set t \<Longrightarrow> read_html (CHR ''<'' # t @ CHR ''>'' # rest) = Tag t # read_html rest"
  by (simp add: take_until_append)

lemma read_esc_char: "read_html (esc_char c @ rest) = map Ch (shown [c]) @ read_html rest"
  by (simp add: esc_char_def shown_def entity_def)

lemma read_escaped: "read_html (HTMLEscapeString s @ rest) = map Ch (shown s) @ read_html rest"
proof (induction s)
  case (Cons c s)
  have "HTMLEscapeString (c # s) @ rest = esc_char c @ HTMLEscapeString s @ rest"
    by (simp add: HTMLEscapeString_def)
  moreover have "shown (c # s) = shown [c] @ shown s" by (simp add: shown_def)
  ultimately show ?case by (simp only: read_esc_char Cons.IH) simp
qed (simp add: HTMLEscapeString_def shown_def)

section \<open>Logs: ansi.go\<close>

definition ansiFG :: "int \<Rightarrow> string option" where
  "ansiFG = map_of
     [(30, ''#555555''), (31, ''#c0392b''), (32, ''#27ae60''), (33, ''#b7950b''),
      (34, ''#2980b9''), (35, ''#8e44ad''), (36, ''#17a2a2''), (37, ''#aaaaaa''),
      (90, ''#7f8c8d''), (91, ''#e74c3c''), (92, ''#2ecc71''), (93, ''#f1c40f''),
      (94, ''#3498db''), (95, ''#9b59b6''), (96, ''#1abc9c''), (97, ''#ecf0f1'')]"

text \<open>The current color, empty for none, and whether the text is bold.\<close>

type_synonym sgr = "string \<times> bool"

definition sgr_code :: "string \<Rightarrow> sgr \<Rightarrow> sgr" where
  "sgr_code p st = (case parse_int64 p of None \<Rightarrow> st
     | Some code \<Rightarrow>
         if code = 0 then ([], False)
         else if code = 1 then (fst st, True)
         else if code = 22 then (fst st, False)
         else if code = 39 then ([], snd st)
         else (case ansiFG code of Some c \<Rightarrow> (c, snd st) | None \<Rightarrow> st))"

definition applySGR :: "string \<Rightarrow> sgr \<Rightarrow> sgr" where
  "applySGR params st = (if params = [] then ([], False)
     else fold sgr_code (split_on (CHR '';'') params) st)"

definition style_tag :: "sgr \<Rightarrow> string" where
  \<open>style_tag st = ''span style="'' @ (if snd st then ''font-weight:bold;'' else []) @
     (if fst st \<noteq> [] then ''color:'' @ fst st @ '';'' else []) @ ''"''\<close>

text \<open>\<open>flush\<close> is the closure of the same name: the text since the last escape.\<close>

definition flush_text :: "sgr \<Rightarrow> bytes \<Rightarrow> string" where
  "flush_text st s = (if s = [] then []
     else if st = ([], False) then HTMLEscapeString s
     else ''<'' @ style_tag st @ ''>'' @ HTMLEscapeString s @ ''</span>'')"

definition ESC :: char where "ESC = CHR 0x1B"

definition csi_final :: "char \<Rightarrow> bool" where
  "csi_final c \<longleftrightarrow> 0x40 \<le> (of_char c :: nat) \<and> (of_char c :: nat) \<le> 0x7e"

lemma dropWhile_tl_length: "length (dropWhile P (tl xs)) \<le> length xs"
  by (rule order_trans[OF length_dropWhile_le]) simp

lemma dropWhile_tl_shorter: "dropWhile P (tl xs) = y # ys \<Longrightarrow> length ys < Suc (length xs)"
  using dropWhile_tl_length[of P xs] by simp

text \<open>
  The loop of \<open>ANSI\<close>: \<open>seg\<close> is \<open>b[start:i]\<close> and the last argument is \<open>b[i:]\<close>.
\<close>

function ansi_loop :: "sgr \<Rightarrow> bytes \<Rightarrow> bytes \<Rightarrow> string" where
  "ansi_loop st seg [] = flush_text st seg"
| "ansi_loop st seg (c # cs) =
     (if c \<noteq> ESC then ansi_loop st (seg @ [c]) cs
      else flush_text st seg @
        (if cs \<noteq> [] \<and> hd cs = CHR ''['' then
           (case dropWhile (\<lambda>x. \<not> csi_final x) (tl cs) of
              [] \<Rightarrow> flush_text st []
            | f # rest \<Rightarrow>
                ansi_loop (if f = CHR ''m'' then applySGR (takeWhile (\<lambda>x. \<not> csi_final x) (tl cs)) st else st) [] rest)
         else ansi_loop st [] cs))"
  by pat_completeness auto

termination
  by (relation "measure (\<lambda>(st, seg, b). length b)") (auto dest: dropWhile_tl_shorter)

definition ANSI :: "bytes \<Rightarrow> string" where
  "ANSI b = ansi_loop ([], False) [] b"

text \<open>The text of a log: what is left when the escape sequences are taken out.\<close>

function ansi_text :: "bytes \<Rightarrow> bytes" where
  "ansi_text [] = []"
| "ansi_text (c # cs) =
     (if c \<noteq> ESC then c # ansi_text cs
      else if cs \<noteq> [] \<and> hd cs = CHR ''[''
      then ansi_text (drop 1 (dropWhile (\<lambda>x. \<not> csi_final x) (tl cs)))
      else ansi_text cs)"
  by pat_completeness auto
termination
  by (relation "measure length")
     (auto simp: less_Suc_eq_le intro: order_trans[OF diff_le_self dropWhile_tl_length])

lemma ansiFG_ok: "ansiFG i = Some c \<Longrightarrow> c \<noteq> [] \<and> CHR ''>'' \<notin> set c"
  unfolding ansiFG_def by (drule map_of_SomeD) auto

definition palette :: "string set" where
  "palette = insert [] (ran ansiFG)"

lemma applySGR_palette: "fst st \<in> palette \<Longrightarrow> fst (applySGR ps st) \<in> palette"
proof -
  have one: "fst st \<in> palette \<Longrightarrow> fst (sgr_code p st) \<in> palette" for p st
    by (auto simp: sgr_code_def palette_def ran_def split: option.split)
  have "fst st \<in> palette \<Longrightarrow> fst (fold sgr_code xs st) \<in> palette" for xs
  proof (induction xs arbitrary: st)
    case (Cons x xs)
    from Cons.IH[OF one[OF Cons.prems]] show ?case by simp
  qed simp
  then show "fst st \<in> palette \<Longrightarrow> ?thesis" by (simp add: applySGR_def palette_def)
qed

definition ansi_tags :: "string set" where
  "ansi_tags = insert ''/span'' (style_tag ` (palette \<times> UNIV))"

lemma style_tag_closed: "fst st \<in> palette \<Longrightarrow> CHR ''>'' \<notin> set (style_tag st)"
  by (auto simp: style_tag_def palette_def ran_def dest: ansiFG_ok)

definition chars_of :: "html_token list \<Rightarrow> string" where
  "chars_of ts = concat (map (\<lambda>t. case t of Ch c \<Rightarrow> [c] | Tag _ \<Rightarrow> []) ts)"

lemma chars_of_simps [simp]: "chars_of (xs @ ys) = chars_of xs @ chars_of ys" "chars_of (map Ch s) = s"
  "chars_of (Tag t # ts) = chars_of ts" "chars_of [] = []"
proof -
  show "chars_of (map Ch s) = s" by (induction s) (auto simp: chars_of_def)
qed (simp_all add: chars_of_def)

text \<open>\<open>reads\<close>: the HTML shows the text \<open>s\<close> with tags from \<open>T\<close> only, whatever comes after it.\<close>

definition reads :: "string set \<Rightarrow> string \<Rightarrow> string \<Rightarrow> bool" where
  "reads T h s \<longleftrightarrow> (\<forall>rest. \<exists>ts. read_html (h @ rest) = ts @ read_html rest \<and> chars_of ts = s \<and>
     set ts \<subseteq> range Ch \<union> Tag ` T)"

lemma reads_Nil: "reads T [] []"
  unfolding reads_def by (intro allI exI[of _ "[]"]) simp

lemma reads_append:
  assumes "reads T h s" "reads T h' s'"
  shows "reads T (h @ h') (s @ s')"
  unfolding reads_def
proof
  fix rest
  from assms(2) obtain ts' where "read_html (h' @ rest) = ts' @ read_html rest" "chars_of ts' = s'"
    "set ts' \<subseteq> range Ch \<union> Tag ` T"
    unfolding reads_def by blast
  moreover from assms(1) obtain ts where "read_html (h @ (h' @ rest)) = ts @ read_html (h' @ rest)" "chars_of ts = s"
    "set ts \<subseteq> range Ch \<union> Tag ` T"
    unfolding reads_def by blast
  ultimately show "\<exists>ts. read_html ((h @ h') @ rest) = ts @ read_html rest \<and> chars_of ts = s @ s' \<and>
      set ts \<subseteq> range Ch \<union> Tag ` T"
    by (intro exI[of _ "ts @ ts'"]) simp
qed

lemma reads_tag: "t \<in> T \<Longrightarrow> CHR ''>'' \<notin> set t \<Longrightarrow> reads T (''<'' @ t @ ''>'') []"
  unfolding reads_def by (intro allI exI[of _ "[Tag t]"]) (simp add: take_until_append)

lemma reads_escaped: "reads T (HTMLEscapeString s) (shown s)"
  unfolding reads_def by (intro allI exI[of _ "map Ch (shown s)"]) (auto simp: read_escaped)

lemma reads_concat: "\<forall>x \<in> set xs. reads T (f x) (g x) \<Longrightarrow> reads T (concat (map f xs)) (concat (map g xs))"
  by (induction xs) (auto intro: reads_append reads_Nil)

lemma reads_whole: "reads T h s \<Longrightarrow> chars_of (read_html h) = s \<and> set (read_html h) \<subseteq> range Ch \<union> Tag ` T"
  unfolding reads_def by (drule spec[of _ "[]"]) auto

lemma reads_flush:
  assumes "fst st \<in> palette"
  shows "reads ansi_tags (flush_text st s) (shown s)"
proof (cases "s = [] \<or> st = ([], False)")
  case True
  have "shown [] = []" by (simp add: shown_def)
  with True show ?thesis by (auto simp: flush_text_def reads_escaped reads_Nil)
next
  case False
  have "style_tag st \<in> ansi_tags" using assms by (cases st) (auto simp: ansi_tags_def)
  then have "reads ansi_tags ((''<'' @ style_tag st @ ''>'') @ HTMLEscapeString s @ (''<'' @ ''/span'' @ ''>''))
      ([] @ shown s @ [])"
    by (intro reads_append reads_tag reads_escaped style_tag_closed assms) (simp_all add: ansi_tags_def)
  with False show ?thesis by (simp add: flush_text_def)
qed

lemma shown_append: "shown (a @ b) = shown a @ shown b"
  by (simp add: shown_def)

lemma reads_ansi_loop:
  "fst st \<in> palette \<Longrightarrow> reads ansi_tags (ansi_loop st seg b) (shown (seg @ ansi_text b))"
proof (induction st seg b rule: ansi_loop.induct)
  case (1 st seg)
  then show ?case by (simp add: reads_flush)
next
  case (2 st seg c cs)
  show ?case
  proof (cases "c = ESC")
    case False
    with 2 show ?thesis by simp
  next
    case True
    have f: "reads ansi_tags (flush_text st seg @ h) (shown (seg @ t))" if "reads ansi_tags h (shown t)" for h t
      unfolding shown_append by (intro reads_append reads_flush "2.prems" that)
    show ?thesis
    proof (cases "cs \<noteq> [] \<and> hd cs = CHR ''[''")
      case csi: True
      show ?thesis
      proof (cases "dropWhile (\<lambda>x. \<not> csi_final x) (tl cs)")
        case Nil
        have "ansi_loop st seg (c # cs) = flush_text st seg @ flush_text st []"
          "ansi_text (c # cs) = []"
          unfolding ansi_loop.simps(2) ansi_text.simps(2) Nil using True csi by simp_all
        then show ?thesis using f[OF reads_flush[OF "2.prems"], of "[]"] by simp
      next
        case (Cons x rest)
        let ?st = "if x = CHR ''m'' then applySGR (takeWhile (\<lambda>x. \<not> csi_final x) (tl cs)) st else st"
        have "fst ?st \<in> palette" using "2.prems" applySGR_palette by simp
        from "2.IH"(2)[OF _ csi Cons this] True f have "reads ansi_tags (flush_text st seg @ ansi_loop ?st [] rest)
            (shown (seg @ ansi_text rest))" by simp
        moreover have "ansi_loop st seg (c # cs) = flush_text st seg @ ansi_loop ?st [] rest"
          "ansi_text (c # cs) = ansi_text rest"
          unfolding ansi_loop.simps(2) ansi_text.simps(2) Cons using True csi by simp_all
        ultimately show ?thesis by simp
      qed
    next
      case noncsi: False
      from "2.IH"(3)[OF _ noncsi "2.prems"] True f
      have "reads ansi_tags (flush_text st seg @ ansi_loop st [] cs) (shown (seg @ ansi_text cs))" by simp
      moreover have "ansi_loop st seg (c # cs) = flush_text st seg @ ansi_loop st [] cs"
        "ansi_text (c # cs) = ansi_text cs"
        unfolding ansi_loop.simps(2) ansi_text.simps(2) if_not_P[OF noncsi] using True by simp_all
      ultimately show ?thesis by simp
    qed
  qed
qed


section \<open>Patches\<close>

definition file_markers :: "string list" where
  "file_markers = [''+++'', ''---'', ''diff '', ''index '', ''new file'', ''deleted file'', ''old mode'',
     ''new mode'', ''rename '', ''similarity '', ''copy '', ''Binary files'']"

definition diffLineClass :: "string \<Rightarrow> string" where
  "diffLineClass line =
     (if has_prefix ''@@'' line then ''dl-hunk''
      else if list_ex (\<lambda>p. has_prefix p line) file_markers then ''dl-file''
      else if has_prefix ''+'' line then ''dl-add''
      else if has_prefix ''-'' line then ''dl-del''
      else ''dl-ctx'')"

definition div_tag :: "string \<Rightarrow> string" where
  \<open>div_tag c = ''div class="'' @ c @ ''"''\<close>

definition diff_row :: "string \<Rightarrow> string" where
  "diff_row line = ''<'' @ div_tag (''dl '' @ diffLineClass line) @ ''>'' @
     (if line = [] then ''&#8203;'' else HTMLEscapeString line) @ ''</div>''"

definition diff_lines :: "string \<Rightarrow> string list" where
  "diff_lines unified = (let ls = split_on newline unified in if last ls = [] then butlast ls else ls)"

definition Diff :: "string \<Rightarrow> string" where
  "Diff unified = (if trim_space unified = [] then []
     else ''<'' @ div_tag ''diff'' @ ''>'' @ concat (map diff_row (diff_lines unified)) @ ''</div>'')"

definition row_tokens :: "string \<Rightarrow> html_token list" where
  "row_tokens line = Tag (div_tag (''dl '' @ diffLineClass line)) #
     map Ch (if line = [] then [CHR 0xE2, CHR 0x80, CHR 0x8B] else shown line) @ [Tag ''/div'']"

lemma div_tag_closed: "CHR ''>'' \<notin> set c \<Longrightarrow> CHR ''>'' \<notin> set (div_tag c)"
  by (simp add: div_tag_def)

lemma read_diff_row: "read_html (diff_row line @ rest) = row_tokens line @ read_html rest"
proof -
  have c: "CHR ''>'' \<notin> set (div_tag (''dl '' @ diffLineClass line))"
    by (rule div_tag_closed) (simp add: diffLineClass_def)
  have e: "read_html (''</div>'' @ rest) = Tag ''/div'' # read_html rest"
    using read_tag[of "''/div''" rest] by simp
  have m: "read_html ((if line = [] then ''&#8203;'' else HTMLEscapeString line) @ (''</div>'' @ rest)) =
      map Ch (if line = [] then [CHR 0xE2, CHR 0x80, CHR 0x8B] else shown line) @ read_html (''</div>'' @ rest)"
  proof (cases "line = []")
    case True
    have "read_html (''&#8203;'' @ x) = map Ch [CHR 0xE2, CHR 0x80, CHR 0x8B] @ read_html x" for x
      by (simp add: entity_def)
    with True show ?thesis by (simp only: if_P)
  qed (simp only: read_escaped if_False)
  have "diff_row line @ rest = CHR ''<'' # div_tag (''dl '' @ diffLineClass line) @ CHR ''>'' #
      ((if line = [] then ''&#8203;'' else HTMLEscapeString line) @ (''</div>'' @ rest))"
    by (simp add: diff_row_def)
  then show ?thesis by (simp only: read_tag[OF c] m e) (simp add: row_tokens_def)
qed

text \<open>
  A patch is shown line by line: what a browser reads is one row per line of the patch,
  in order, with the class of the line and its text, and no tag that the text wrote.
\<close>

theorem diff_shows_lines:
  assumes "trim_space unified \<noteq> []"
  shows "read_html (Diff unified) = Tag (div_tag ''diff'') # concat (map row_tokens (diff_lines unified)) @ [Tag ''/div'']"
proof -
  have rows: "read_html (concat (map diff_row ls) @ rest) = concat (map row_tokens ls) @ read_html rest" for ls rest
  proof (induction ls)
    case (Cons l ls)
    have "concat (map diff_row (l # ls)) @ rest = diff_row l @ (concat (map diff_row ls) @ rest)" by simp
    then show ?case by (simp only: read_diff_row Cons.IH) simp
  qed simp
  have e: "read_html ''</div>'' = [Tag ''/div'']"
    using read_tag[of "''/div''" "[]"] by simp
  have "Diff unified = CHR ''<'' # div_tag ''diff'' @ CHR ''>'' # (concat (map diff_row (diff_lines unified)) @ ''</div>'')"
    using assms by (simp add: Diff_def)
  moreover have "CHR ''>'' \<notin> set (div_tag ''diff'')" by (simp add: div_tag_def)
  note read_tag[OF this]
  ultimately show ?thesis by (simp only: rows e)
qed

lemma diff_shows_lines_witness:
  "read_html (Diff (''+<b>'' @ [newline])) =
   [Tag (div_tag ''diff''), Tag (div_tag ''dl dl-add''), Ch CHR ''+'', Ch CHR ''<'', Ch CHR ''b'', Ch CHR ''>'',
    Tag ''/div'', Tag ''/div'']"
proof -
  have t: "trim_space (''+<b>'' @ [newline]) \<noteq> []" by code_simp
  have "concat (map row_tokens (diff_lines (''+<b>'' @ [newline]))) = [Tag (div_tag ''dl dl-add''), Ch CHR ''+'',
      Ch CHR ''<'', Ch CHR ''b'', Ch CHR ''>'', Tag ''/div'']"
    by code_simp
  with diff_shows_lines[OF t] show ?thesis by simp
qed

text \<open>
  The markers of a file header win over those of a line, anywhere in a patch: a removed line
  that begins with two dashes, as a comment of SQL or Lua does, is shown as a header.
\<close>

lemma removed_comment_is_header: "diffLineClass (CHR ''-'' # ''-- drop table t'') = ''dl-file''"
  by code_simp

section \<open>Links\<close>

text \<open>The result of \<open>url.Parse\<close>; the path and the fragment are decoded, the query is not.\<close>

record url =
  url_scheme :: string
  url_host :: string
  url_path :: string
  url_raw_query :: string
  url_fragment :: string

record LinkContext =
  lc_repo :: string
  lc_ref :: string
  lc_dir :: string
  lc_stat :: "string \<Rightarrow> string option"

definition link_verb :: "LinkContext \<Rightarrow> bool \<Rightarrow> string \<Rightarrow> string option" where
  "link_verb lc isImage target =
     (if isImage then Some ''raw''
      else map_option (\<lambda>kind. if kind = ''tree'' then ''tree'' else ''blob'') (lc_stat lc target))"

definition rewrite :: "(string \<Rightarrow> url option) \<Rightarrow> LinkContext \<Rightarrow> string \<Rightarrow> bool \<Rightarrow> string" where
  "rewrite parse lc dest isImage = (case parse dest of None \<Rightarrow> dest
     | Some u \<Rightarrow>
         if url_scheme u \<noteq> [] \<or> url_host u \<noteq> [] \<or> url_path u = [] \<or> is_abs (url_path u) then dest
         else (let target = path_join [lc_dir lc, url_path u] in
           if target = ''..'' \<or> has_prefix ''../'' target then dest
           else (case link_verb lc isImage target of None \<Rightarrow> dest
             | Some verb \<Rightarrow> ''/'' @ lc_repo lc @ ''/'' @ verb @ ''/'' @ lc_ref lc @ ''/'' @ target @
                 (if url_raw_query u \<noteq> [] then ''?'' @ url_raw_query u else []) @
                 (if url_fragment u \<noteq> [] then ''#'' @ url_fragment u else []))))"

text \<open>\<open>path.Ext\<close>: from the last dot of the last element; \<open>path.Dir\<close>: all but the last element, cleaned.\<close>

definition path_dir :: "string \<Rightarrow> string" where
  "path_dir p = (let ps = butlast (split_on (CHR ''/'') p) in
     path_clean (concat (map (\<lambda>x. x @ ''/'') ps)))"

definition path_ext :: "string \<Rightarrow> string" where
  "path_ext p = (let b = last (split_on (CHR ''/'') p); parts = split_on (CHR ''.'') b in
     if CHR ''.'' \<in> set b then ''.'' @ last parts else [])"

definition lower :: "string \<Rightarrow> string" where
  "lower s = map to_lower s"

definition HasMermaid :: "string \<Rightarrow> bool" where
  \<open>HasMermaid h \<longleftrightarrow> cut ''class="mermaid"'' h \<noteq> None\<close>

definition IsMarkdown :: "string \<Rightarrow> bool" where
  "IsMarkdown filename \<longleftrightarrow> lower (path_ext filename) \<in> {''.md'', ''.markdown''}"

definition IsReadme :: "string \<Rightarrow> bool" where
  "IsReadme name \<longleftrightarrow> lower name = ''readme.md'' \<or> lower name = ''readme.markdown''"

definition MaxSize :: nat where "MaxSize = 512 * 1024"

text \<open>
  The target of a rewritten link stays in the repository: it is a cleaned relative path with
  no step up, so that it names an entry below the root of the tree.
\<close>

definition inside :: "string \<Rightarrow> bool" where
  "inside p \<longleftrightarrow> p = ''.'' \<or> (\<forall>x \<in> set (split_on (CHR ''/'') p). segment x \<and> x \<noteq> ''..'')"

lemma path_clean_inside:
  assumes "\<not> is_abs s" "path_clean s \<noteq> ''..''" "\<not> has_prefix ''../'' (path_clean s)"
  shows "inside (path_clean s)"
proof -
  let ?c = "clean_segments False (split_on (CHR ''/'') s)"
  have parts: "\<forall>p \<in> set (split_on (CHR ''/'') s). CHR ''/'' \<notin> set p" by (auto dest: split_on_parts)
  obtain k xs where c: "?c = replicate k ''..'' @ xs" "''..'' \<notin> set xs" "\<forall>p \<in> set ?c. segment p"
    by (rule clean_segments_shape[OF parts, of False])
  show ?thesis
  proof (cases "?c = []")
    case True
    then show ?thesis using assms(1) by (simp add: path_clean_def inside_def Let_def)
  next
    case False
    have seg: "\<forall>p \<in> set ?c. CHR ''/'' \<notin> set p \<and> p \<noteq> []" using c(3) by (auto simp: segment_def)
    have body: "join_with ''/'' ?c \<noteq> []"
    proof
      assume "join_with ''/'' ?c = []"
      moreover have "split_on (CHR ''/'') (join_with ''/'' ?c) = ?c" using False seg by (intro split_on_join) auto
      ultimately have "?c = [[]]" by simp
      with seg show False by simp
    qed
    then have pc: "path_clean s = join_with ''/'' ?c" using assms(1) by (simp add: path_clean_def Let_def)
    have "k = 0"
    proof (rule ccontr)
      assume "k \<noteq> 0"
      then obtain j where "k = Suc j" by (cases k) auto
      with c(1) have "?c = ''..'' # (replicate j ''..'' @ xs)" by simp
      then have "path_clean s = ''..'' \<or> has_prefix ''../'' (path_clean s)"
        unfolding pc by (cases "replicate j ''..'' @ xs") (auto simp: has_prefix_def)
      with assms(2,3) show False by blast
    qed
    with c have "\<forall>p \<in> set ?c. segment p \<and> p \<noteq> ''..''" by auto
    moreover have "split_on (CHR ''/'') (path_clean s) = ?c"
      unfolding pc using False seg by (intro split_on_join) auto
    ultimately show ?thesis by (simp add: inside_def)
  qed
qed

lemma is_abs_join:
  "\<not> is_abs d \<Longrightarrow> p \<noteq> [] \<Longrightarrow> \<not> is_abs p \<Longrightarrow> \<not> is_abs (join_with ''/'' (filter (\<lambda>q. q \<noteq> []) [d, p]))"
  by (cases d; cases p) (auto simp: is_abs_def has_prefix_def)

lemma rewrite_inside:
  assumes "\<not> is_abs (lc_dir lc)"
  shows "rewrite parse lc dest isImage = dest \<or>
    (\<exists>verb target suffix. rewrite parse lc dest isImage =
        ''/'' @ lc_repo lc @ ''/'' @ verb @ ''/'' @ lc_ref lc @ ''/'' @ target @ suffix \<and>
      inside target \<and> link_verb lc isImage target = Some verb)"
proof (cases "parse dest")
  case (Some u)
  let ?t = "path_join [lc_dir lc, url_path u]"
  show ?thesis
  proof (cases "url_scheme u \<noteq> [] \<or> url_host u \<noteq> [] \<or> url_path u = [] \<or> is_abs (url_path u) \<or>
      ?t = ''..'' \<or> has_prefix ''../'' ?t \<or> link_verb lc isImage ?t = None")
    case True
    with Some show ?thesis by (auto simp: rewrite_def Let_def)
  next
    case False
    then obtain verb where v: "link_verb lc isImage ?t = Some verb" by auto
    have t: "?t = path_clean (join_with ''/'' (filter (\<lambda>q. q \<noteq> []) [lc_dir lc, url_path u]))"
      using False by (auto simp: path_join_def Let_def)
    have "\<not> is_abs (join_with ''/'' (filter (\<lambda>q. q \<noteq> []) [lc_dir lc, url_path u]))"
      by (rule is_abs_join) (use assms False in auto)
    from path_clean_inside[OF this] False have "inside ?t" unfolding t[symmetric] by blast
    moreover have "rewrite parse lc dest isImage = ''/'' @ lc_repo lc @ ''/'' @ verb @ ''/'' @ lc_ref lc @ ''/'' @ ?t @
        ((if url_raw_query u \<noteq> [] then ''?'' @ url_raw_query u else []) @
         (if url_fragment u \<noteq> [] then ''#'' @ url_fragment u else []))"
      using False Some v by (simp add: rewrite_def Let_def)
    ultimately show ?thesis using v by blast
  qed
qed (simp add: rewrite_def)

text \<open>
  The path and the fragment of the parsed target are decoded, and the rewritten target is put
  together from them without escaping: a link to the file \<open>a?.md\<close>, written \<open>a%3F.md\<close> as it
  must be, becomes one to the file \<open>a\<close> with a query.
\<close>

lemma escaped_link_broken:
  "rewrite (\<lambda>_. Some \<lparr>url_scheme = [], url_host = [], url_path = ''a?.md'', url_raw_query = [], url_fragment = []\<rparr>)
     \<lparr>lc_repo = ''app'', lc_ref = ''main'', lc_dir = ''.'', lc_stat = [''a?.md'' \<mapsto> ''blob'']\<rparr> ''a%3F.md'' False =
   ''/app/blob/main/a?.md''"
  by code_simp

end
