(* ===== verification/LiveLogs.thy ===== *)
theory LiveLogs
  imports Prelude
begin

text \<open>
  \<open>internal/ci/livelogs.go\<close>: the live tail of a job's log, in the memory of the leader. The
  mutex makes every operation one step. The cap is a field of the record, as in the code; the
  server's is \<open>logCap\<close>.
\<close>

record liveLog =
  buf :: bytes
  ll_done :: bool
  truncated :: bool
  ll_updated :: time

record LiveLogs =
  live_jobs :: "int \<Rightarrow> liveLog option"
  live_cap :: nat

definition logCap :: nat where
  "logCap = 10 * 1024 * 1024"

definition logTruncationMarker :: string where
  "logTruncationMarker = [newline, newline] @ ''[log truncated: exceeded 10 MiB cap]'' @ [newline]"

definition NewLiveLogs :: LiveLogs where
  "NewLiveLogs = \<lparr>live_jobs = Map.empty, live_cap = logCap\<rparr>"

definition fresh_log :: liveLog where
  "fresh_log = \<lparr>buf = [], ll_done = False, truncated = False, ll_updated = 0\<rparr>"

definition put_log :: "int \<Rightarrow> liveLog \<Rightarrow> LiveLogs \<Rightarrow> LiveLogs" where
  "put_log job lg l = l\<lparr>live_jobs := (live_jobs l)(job \<mapsto> lg)\<rparr>"

definition Append :: "int \<Rightarrow> bytes \<Rightarrow> time \<Rightarrow> LiveLogs \<Rightarrow> LiveLogs" where
  "Append job chunk now l =
     (let lg = (case live_jobs l job of None \<Rightarrow> fresh_log | Some lg \<Rightarrow> lg)\<lparr>ll_updated := now\<rparr>;
          room = int (live_cap l) - int (length (buf lg)) in
      if truncated lg then put_log job lg l
      else if int (length chunk) > room
      then put_log job (lg\<lparr>buf := (if room > 0 then buf lg @ take (nat room) chunk else buf lg) @ logTruncationMarker,
                          truncated := True\<rparr>) l
      else put_log job (lg\<lparr>buf := buf lg @ chunk\<rparr>) l)"

definition Finish :: "int \<Rightarrow> time \<Rightarrow> LiveLogs \<Rightarrow> LiveLogs" where
  "Finish job now l = (case live_jobs l job of None \<Rightarrow> l
     | Some lg \<Rightarrow> put_log job (lg\<lparr>ll_done := True, ll_updated := now\<rparr>) l)"

text \<open>\<open>Read\<close> returns the bytes, the next offset, whether the job is done and whether there is a buffer.\<close>

definition Read :: "int \<Rightarrow> int \<Rightarrow> LiveLogs \<Rightarrow> bytes \<times> int \<times> bool \<times> bool" where
  "Read job offset l = (case live_jobs l job of
      None \<Rightarrow> ([], offset, False, False)
    | Some lg \<Rightarrow>
        (let n = int (length (buf lg));
             off = (if offset < 0 then 0 else if offset > n then n else offset)
         in (drop (nat off) (buf lg), n, ll_done lg, True)))"

definition Sweep :: "time \<Rightarrow> time \<Rightarrow> LiveLogs \<Rightarrow> LiveLogs" where
  "Sweep now ttl l = l\<lparr>live_jobs := (\<lambda>job. case live_jobs l job of None \<Rightarrow> None
     | Some lg \<Rightarrow> if now - ll_updated lg > ttl then None else Some lg)\<rparr>"

section \<open>The buffer\<close>

text \<open>
  What the buffer of a job holds is a function of what was appended to it: everything up to
  the cap, or the first bytes up to the cap and the marker.
\<close>

definition capped :: "nat \<Rightarrow> bytes \<Rightarrow> bytes" where
  "capped n bs = (if length bs \<le> n then bs else take n bs @ logTruncationMarker)"

definition shows_log :: "LiveLogs \<Rightarrow> int \<Rightarrow> bytes \<Rightarrow> bool" where
  "shows_log l job bs \<longleftrightarrow> (case live_jobs l job of None \<Rightarrow> bs = []
     | Some lg \<Rightarrow> buf lg = capped (live_cap l) bs \<and> (truncated lg \<longleftrightarrow> live_cap l < length bs))"

lemma put_log_cap [simp]: "live_cap (put_log job lg l) = live_cap l"
  by (simp add: put_log_def)

lemma put_log_jobs [simp]: "live_jobs (put_log job lg l) = (live_jobs l)(job \<mapsto> lg)"
  by (simp add: put_log_def)

lemma ops_cap [simp]: "live_cap (Append job c now l) = live_cap l" "live_cap (Finish job now l) = live_cap l"
  by (simp_all add: Append_def Finish_def Let_def split: option.split)

lemma ops_other:
  "job' \<noteq> job \<Longrightarrow> live_jobs (Append job c now l) job' = live_jobs l job'"
  "job' \<noteq> job \<Longrightarrow> live_jobs (Finish job now l) job' = live_jobs l job'"
  by (simp_all add: Append_def Finish_def Let_def split: option.split)

lemma append_shows:
  assumes "shows_log l job bs"
  shows "shows_log (Append job c now l) job (bs @ c)" "live_jobs (Append job c now l) job \<noteq> None"
proof -
  define lg where "lg = (case live_jobs l job of None \<Rightarrow> fresh_log | Some lg \<Rightarrow> lg)\<lparr>ll_updated := now\<rparr>"
  have lg: "buf lg = capped (live_cap l) bs" "truncated lg \<longleftrightarrow> live_cap l < length bs"
    using assms by (auto simp: lg_def shows_log_def fresh_log_def capped_def split: option.splits)
  show "live_jobs (Append job c now l) job \<noteq> None" by (simp add: Append_def Let_def)
  show "shows_log (Append job c now l) job (bs @ c)"
  proof (cases "live_cap l < length bs")
    case True
    with lg show ?thesis by (simp add: shows_log_def Append_def lg_def[symmetric] Let_def capped_def)
  next
    case False
    then have b: "buf lg = bs" "\<not> truncated lg" using lg by (simp_all add: capped_def)
    show ?thesis
    proof (cases "int (length c) > int (live_cap l) - int (length bs)")
      case over: True
      then have "nat (int (live_cap l) - int (length bs)) = live_cap l - length bs" by simp
      with over False b show ?thesis
        by (auto simp: shows_log_def Append_def lg_def[symmetric] Let_def capped_def)
    next
      case fits: False
      with b show ?thesis by (auto simp: shows_log_def Append_def lg_def[symmetric] Let_def capped_def)
    qed
  qed
qed

lemma finish_shows: "shows_log l job bs \<Longrightarrow> shows_log (Finish job' now l) job bs"
  by (auto simp: shows_log_def Finish_def split: option.splits)

section \<open>Polling\<close>

text \<open>
  The appends and finishes of any jobs and the polls of one reader, in any order. The reader
  starts at offset 0, polls with the offset that it was given and collects what it gets.
\<close>

datatype live_event = EvAppend int bytes time | EvFinish int time | EvPoll

record tail =
  logs :: LiveLogs
  offset :: int
  got :: bytes

fun live_step :: "int \<Rightarrow> live_event \<Rightarrow> tail \<Rightarrow> tail" where
  "live_step job (EvAppend j c now) t = t\<lparr>logs := Append j c now (logs t)\<rparr>"
| "live_step job (EvFinish j now) t = t\<lparr>logs := Finish j now (logs t)\<rparr>"
| "live_step job EvPoll t = (case Read job (offset t) (logs t) of
     (data, next, dn, ok) \<Rightarrow> t\<lparr>offset := next, got := got t @ data\<rparr>)"

fun live_run :: "int \<Rightarrow> live_event list \<Rightarrow> tail \<Rightarrow> tail" where
  "live_run job [] t = t"
| "live_run job (e # es) t = live_run job es (live_step job e t)"

fun appended :: "int \<Rightarrow> live_event list \<Rightarrow> bytes" where
  "appended job [] = []"
| "appended job (EvAppend j c now # es) = (if j = job then c else []) @ appended job es"
| "appended job (e # es) = appended job es"

lemma live_run_append [simp]: "live_run job (xs @ ys) t = live_run job ys (live_run job xs t)"
  by (induction xs arbitrary: t) auto

definition tail_ok :: "int \<Rightarrow> bytes \<Rightarrow> tail \<Rightarrow> bool" where
  "tail_ok job bs t \<longleftrightarrow> shows_log (logs t) job bs \<and> 0 \<le> offset t \<and>
     nat (offset t) \<le> length (capped (live_cap (logs t)) bs) \<and>
     got t = take (nat (offset t)) (capped (live_cap (logs t)) bs)"

lemma capped_grows:
  assumes "k \<le> length (capped n bs)" "\<not> n < length bs"
  shows "k \<le> length (capped n (bs @ c))" "take k (capped n (bs @ c)) = take k (capped n bs)"
  using assms by (auto simp: capped_def take_append min_def)

lemma capped_full: "n < length bs \<Longrightarrow> capped n (bs @ c) = capped n bs"
  by (simp add: capped_def)

lemma tail_ok_step:
  assumes "tail_ok job bs t"
  shows "tail_ok job (bs @ appended job [e]) (live_step job e t)"
proof (cases e)
  case (EvAppend j c now)
  show ?thesis
  proof (cases "j = job")
    case True
    have "nat (offset t) \<le> length (capped (live_cap (logs t)) (bs @ c)) \<and>
        take (nat (offset t)) (capped (live_cap (logs t)) (bs @ c)) = take (nat (offset t)) (capped (live_cap (logs t)) bs)"
      using assms capped_grows[of "nat (offset t)" "live_cap (logs t)" bs c] capped_full[of "live_cap (logs t)" bs c]
      by (cases "live_cap (logs t) < length bs") (auto simp: tail_ok_def)
    with assms EvAppend True append_shows(1)[of "logs t" job bs c now] show ?thesis
      by (auto simp: tail_ok_def)
  next
    case False
    with assms EvAppend show ?thesis by (auto simp: tail_ok_def shows_log_def ops_other split: option.splits)
  qed
next
  case (EvFinish j now)
  with assms finish_shows show ?thesis by (simp add: tail_ok_def)
next
  case EvPoll
  show ?thesis
  proof (cases "live_jobs (logs t) job")
    case None
    with assms EvPoll show ?thesis by (simp add: Read_def tail_ok_def)
  next
    case (Some lg)
    then have "buf lg = capped (live_cap (logs t)) bs" using assms by (simp add: tail_ok_def shows_log_def)
    with assms EvPoll Some show ?thesis by (auto simp: Read_def tail_ok_def Let_def)
  qed
qed

lemma appended_Cons: "appended job (e # es) = appended job [e] @ appended job es"
  by (cases e) auto

lemma tail_ok_run: "tail_ok job bs t \<Longrightarrow> tail_ok job (bs @ appended job es) (live_run job es t)"
proof (induction es arbitrary: bs t)
  case (Cons e es)
  from Cons.IH[OF tail_ok_step[OF Cons.prems, of e]] show ?case
    unfolding appended_Cons[of job e es] by simp
qed simp

lemma live_run_cap: "live_cap (logs (live_run job es t)) = live_cap (logs t)"
proof (induction es arbitrary: t)
  case (Cons e es)
  then show ?case by (cases e) (auto split: prod.split)
qed simp

text \<open>After a last poll the reader has everything, wherever it was before.\<close>

lemma poll_got:
  assumes "tail_ok job bs t"
  shows "got (live_run job (es @ [EvPoll]) t) = capped (live_cap (logs t)) (bs @ appended job es)"
proof -
  let ?t = "live_run job es t"
  note ok = tail_ok_run[OF assms, of es]
  show ?thesis
  proof (cases "live_jobs (logs ?t) job")
    case None
    with ok show ?thesis by (auto simp: Read_def tail_ok_def shows_log_def capped_def)
  next
    case (Some lg)
    then have "buf lg = capped (live_cap (logs t)) (bs @ appended job es)"
      using ok by (simp add: tail_ok_def shows_log_def live_run_cap)
    with Some ok show ?thesis by (auto simp: Read_def tail_ok_def Let_def live_run_cap)
  qed
qed

lemma tail_ok_start: "live_jobs l job = None \<Longrightarrow> tail_ok job [] \<lparr>logs = l, offset = 0, got = []\<rparr>"
  by (simp add: tail_ok_def shows_log_def)



end
