(* ===== verification/WebCI.thy ===== *)
theory WebCI
  imports WebUI Render LiveLogs Materialize MetaCI Browse
begin

text \<open>
  \<open>internal/webui/ci.go\<close>: the pages of the CI runs. The state of a request is that of
  \<open>Materialize\<close>, the database, the object store and the cache, of which these pages use the
  first two. \<open>site\<close> is the handler with what its constructor is given: \<open>git\<close> reads the
  directories of the cache, \<open>highlight\<close>, \<open>markdown\<close> and \<open>mime_type\<close> are the converters of
  third-party packages, and \<open>live\<close> are the live buffers at the time of the request. The
  object store hands out a whole object: an error while it is read is an error of \<open>Get\<close>.
\<close>

record 's site =
  st_ui :: ui
  st_store :: "'s store_ops"
  st_root :: string
  st_live :: "LiveLogs option"
  st_git :: "(string \<Rightarrow> bare option) \<Rightarrow> string \<Rightarrow> string list \<Rightarrow> git_exit"
  st_highlight :: "bytes \<Rightarrow> string \<Rightarrow> string option"
  st_markdown :: "bytes \<Rightarrow> LinkContext \<Rightarrow> string"
  st_mime :: "string \<Rightarrow> string"

type_synonym ('s, 'p) page_op = "'s mz \<Rightarrow> 'p reply \<times> 's mz"

definition on_mz :: "(db \<Rightarrow> 'r \<times> db) \<Rightarrow> 's mz \<Rightarrow> 'r \<times> 's mz" where
  "on_mz m w = (case m (m_db w) of (r, d) \<Rightarrow> (r, w\<lparr>m_db := d\<rparr>))"

definition on_store :: "('s \<Rightarrow> 'r \<times> 's) \<Rightarrow> 's mz \<Rightarrow> 'r \<times> 's mz" where
  "on_store m w = (case m (m_store w) of (r, s) \<Rightarrow> (r, w\<lparr>m_store := s\<rparr>))"

record ci_log =
  lg_log :: string
  lg_plain :: string
  lg_note :: string
  lg_live :: bool

datatype ci_page =
    RunsPage base string "run list" bool
  | RunPage base string run "job list"
  | LogPage base string run job ci_log
  | LiveJSON bytes int bool

definition ciRunsLimit :: nat where "ciRunsLimit = 100"

definition base_mz :: "'s site \<Rightarrow> time \<Rightarrow> request \<Rightarrow> 's mz \<Rightarrow> base \<times> 's mz" where
  "base_mz h nw r = on_mz (base_of (st_ui h) nw None r [] no_msg)"

definition ciRepo :: "string \<Rightarrow> (repo \<Rightarrow> ('s, 'p) page_op) \<Rightarrow> ('s, 'p) page_op" where
  "ciRepo name k = lookupE (on_mz (GetRepo name)) http_not_found (\<lambda>_. serverError) k"

definition ciRuns :: "'s site \<Rightarrow> time \<Rightarrow> request \<Rightarrow> string \<Rightarrow> ('s, ci_page) page_op" where
  "ciRuns h nw r name = ciRepo name (\<lambda>rp.
     must (on_mz (ListRuns (repo_id rp) (int ciRunsLimit + 1))) (\<lambda>rs.
       handleE (base_mz h nw r) (\<lambda>b.
         render (RunsPage b (repo_name rp) (take ciRunsLimit rs) (length rs > ciRunsLimit)))))"

fun isTerminalStatus :: "run_status \<Rightarrow> bool" where
  "isTerminalStatus RunPassed = True"
| "isTerminalStatus RunFailed = True"
| "isTerminalStatus RunError = True"
| "isTerminalStatus RunSuperseded = True"
| "isTerminalStatus RunQueued = False"
| "isTerminalStatus RunRunning = False"

definition no_log :: ci_log where
  "no_log = \<lparr>lg_log = [], lg_plain = [], lg_note = [], lg_live = False\<rparr>"

definition no_log_note :: string where
  "no_log_note = ''No log yet '' @ [CHR 0xE2, CHR 0x80, CHR 0x94] @ '' the job hasn'' @ [CHR 0x27] @ ''t reported.''"

definition loadLog :: "'s site \<Rightarrow> string \<Rightarrow> 's mz \<Rightarrow> ci_log \<times> 's mz" where
  "loadLog h key = handleE (on_store (Get (st_store h) key)) (\<lambda>res. Pair (case res of
      Inl e \<Rightarrow> no_log\<lparr>lg_note := (if e = StoreNotFound then ''Log not found in the object store.''
                 else ''Could not read the log.'')\<rparr>
    | Inr raw \<Rightarrow>
        if length raw > MaxSize
        then no_log\<lparr>lg_note := ''Log is large; showing the first part as plain text.'',
               lg_plain := take MaxSize raw\<rparr>
        else no_log\<lparr>lg_log := ANSI raw\<rparr>))"

text \<open>\<open>in_run\<close>: a job that is missing or belongs to another run is not found.\<close>

definition in_run :: "run \<Rightarrow> int \<Rightarrow> (job \<Rightarrow> ('s, 'p) page_op) \<Rightarrow> ('s, 'p) page_op" where
  "in_run rn jobID k = lookupE (on_mz (GetJob jobID)) http_not_found (\<lambda>_. serverError)
     (\<lambda>j. if job_run j \<noteq> run_id rn then http_not_found else k j)"

definition ciJobLog :: "'s site \<Rightarrow> time \<Rightarrow> request \<Rightarrow> repo \<Rightarrow> run \<Rightarrow> int \<Rightarrow> ('s, ci_page) page_op" where
  "ciJobLog h nw r rp rn jobID = in_run rn jobID (\<lambda>j.
     handleE (base_mz h nw r) (\<lambda>b.
       handleE (if \<not> isTerminalStatus (job_stat j) then Pair (no_log\<lparr>lg_live := True\<rparr>)
                else if log_key j = [] then Pair (no_log\<lparr>lg_note := no_log_note\<rparr>)
                else loadLog h (log_key j)) (\<lambda>lg.
         render (LogPage b (repo_name rp) rn j lg))))"

definition readLive :: "'s site \<Rightarrow> int \<Rightarrow> int \<Rightarrow> bytes \<times> int \<times> bool \<times> bool" where
  "readLive h jobID off = (case st_live h of None \<Rightarrow> ([], off, False, False) | Some l \<Rightarrow> Read jobID off l)"

text \<open>
  \<open>offset, _ := strconv.Atoi(s)\<close>: the value that comes with an error is 0 for a malformed
  number and the nearest one of the type for a number out of range.
\<close>

definition atoi :: "string \<Rightarrow> int" where
  "atoi s = (case parse_int64 s of Some i \<Rightarrow> i
     | None \<Rightarrow> (case s of [] \<Rightarrow> 0
         | c # cs \<Rightarrow>
             (case parse_nat (if c \<in> {CHR ''+'', CHR ''-''} then cs else s) of None \<Rightarrow> 0
              | Some _ \<Rightarrow> if c = CHR ''-'' then - (2 ^ 63) else 2 ^ 63 - 1)))"

definition ciJobLogLive :: "'s site \<Rightarrow> request \<Rightarrow> run \<Rightarrow> int \<Rightarrow> ('s, ci_page) page_op" where
  "ciJobLogLive h r rn jobID = in_run rn jobID (\<lambda>j.
     (let off = atoi (FormValue r ''offset'') in
      case readLive h jobID off of (data, next, dn, ok) \<Rightarrow>
        render (if ok then LiveJSON data next dn else LiveJSON [] off (isTerminalStatus (job_stat j)))))"

definition ciRunDetail :: "'s site \<Rightarrow> time \<Rightarrow> request \<Rightarrow> repo \<Rightarrow> run \<Rightarrow> ('s, ci_page) page_op" where
  "ciRunDetail h nw r rp rn = must (on_mz (ListJobs (run_id rn))) (\<lambda>js.
     handleE (base_mz h nw r) (\<lambda>b. render (RunPage b (repo_name rp) rn js)))"

text \<open>\<open>job_path\<close>: the job that \<open>job/<id>/log\<close> names, and whether \<open>/live\<close> follows.\<close>

definition job_path :: "string \<Rightarrow> (int \<times> bool) option" where
  "job_path rest = (case split_on (CHR ''/'') rest of
      a # b # c # ds \<Rightarrow>
        (if a \<noteq> ''job'' \<or> c \<noteq> ''log'' \<or> ds \<notin> {[], [''live'']} then None
         else map_option (\<lambda>jobID. (jobID, ds \<noteq> [])) (parse_int64 b))
    | _ \<Rightarrow> None)"

definition ciRun :: "'s site \<Rightarrow> time \<Rightarrow> request \<Rightarrow> string \<Rightarrow> string \<Rightarrow> ('s, ci_page) page_op" where
  "ciRun h nw r name arg =
     (let (idStr, rest) = (case cut ''/'' arg of None \<Rightarrow> (arg, None) | Some (a, b) \<Rightarrow> (a, Some b)) in
      case parse_int64 idStr of
        None \<Rightarrow> http_not_found
      | Some runID \<Rightarrow> ciRepo name (\<lambda>rp.
          lookupE (on_mz (GetRun runID)) http_not_found (\<lambda>_. serverError) (\<lambda>rn.
            if run_repo rn \<noteq> repo_id rp then http_not_found
            else (case rest of
                None \<Rightarrow> ciRunDetail h nw r rp rn
              | Some p \<Rightarrow> (case job_path p of
                    None \<Rightarrow> http_not_found
                  | Some (jobID, lv) \<Rightarrow>
                      if lv then ciJobLogLive h r rn jobID else ciJobLog h nw r rp rn jobID)))))"

section \<open>What a page reads\<close>

text \<open>\<open>untouched\<close>: the request left the tables, the object store and the cache alone.\<close>

definition untouched :: "'s mz \<Rightarrow> 's mz \<Rightarrow> bool" where
  "untouched w w' \<longleftrightarrow> (\<exists>fs. w' = w\<lparr>m_db := (m_db w)\<lparr>faults := fs\<rparr>\<rparr>)"

lemma untouched_refl: "untouched w w"
  unfolding untouched_def by (rule exI[of _ "faults (m_db w)"]) simp

lemma untouched_trans: "untouched u v \<Longrightarrow> untouched v w \<Longrightarrow> untouched u w"
  by (auto simp: untouched_def)

definition query_like :: "(db \<Rightarrow> 'r \<times> db) \<Rightarrow> bool" where
  "query_like m \<longleftrightarrow> (\<forall>s. \<exists>fs. snd (m s) = s\<lparr>faults := fs\<rparr>)"

lemma query_like_untouched: "query_like m \<Longrightarrow> on_mz m w = (x, w') \<Longrightarrow> untouched w w'"
  unfolding query_like_def untouched_def on_mz_def
  by (cases "m (m_db w)") (metis prod.inject prod.sel(2) split_conv)

lemma keeps_query_like:
  assumes "\<And>s0. keeps (\<lambda>t. \<exists>fs. t = s0\<lparr>faults := fs\<rparr>) m"
  shows "query_like m"
  unfolding query_like_def
proof
  fix s :: db
  have "\<exists>fs. s = s\<lparr>faults := fs\<rparr>" by (rule exI[of _ "faults s"]) simp
  with keepsD[OF assms] show "\<exists>fs. snd (m s) = s\<lparr>faults := fs\<rparr>" by blast
qed

lemma fault_free_tables: "fault_free (\<lambda>t. \<exists>fs. t = s0\<lparr>faults := fs\<rparr>)"
proof -
  have "t = s0\<lparr>faults := fs\<rparr>" if "t\<lparr>faults := gs\<rparr> = s0\<lparr>faults := hs\<rparr>" "fs = faults t" for t gs fs hs
    using that by (cases t; cases s0) simp
  then show ?thesis unfolding fault_free_def by fastforce
qed

lemma query_like_reads:
  "query_like (GetRepo name)" "query_like (viewer ui nw cu r)" "query_like (CanRead rp uid)"
  "query_like (GetUserByID i)"
proof -
  show "query_like (GetRepo name)" "query_like (viewer ui nw cu r)" "query_like (GetUserByID i)"
    by (rule keeps_query_like, simp add: keeps_meta_reads keeps_viewer fault_free_tables)+
  show "query_like (CanRead rp uid)"
    unfolding CanRead_def by (rule keeps_query_like) (intro keeps_intro keeps_meta_reads fault_free_tables)
qed

lemma on_mz_Inr: "on_mz m w = (x, w') \<Longrightarrow> m (m_db w) = (x, m_db w')"
  by (auto simp: on_mz_def split: prod.splits)

lemma GetRun_Inr: "GetRun i s = (Inr rn, s') \<Longrightarrow> rn \<in> set (runs s) \<and> run_id rn = i"
  unfolding GetRun_def by (drule query_row_Inr) (auto dest: first_where_Some)

lemma GetJob_Inr: "GetJob i s = (Inr j, s') \<Longrightarrow> j \<in> set (jobs s) \<and> job_id j = i"
  unfolding GetJob_def by (drule query_row_Inr) (auto dest: first_where_Some)

lemma ListJobs_Inr: "ListJobs i s = (Inr js, s') \<Longrightarrow> list_all (\<lambda>j. job_run j = i) js"
  unfolding ListJobs_def by (drule query_Inr) (auto simp: list_all_iff)

lemma query_like_ci: "query_like (GetRun i)" "query_like (GetJob i)" "query_like (ListJobs i)"
  by (rule keeps_query_like, simp add: GetRun_def GetJob_def ListJobs_def keeps_query keeps_query_row fault_free_tables)+

text \<open>\<open>not_found_or\<close>: a lookup that goes on to a page found its row in the tables as they were.\<close>

lemma lookup_page:
  assumes "lookupE (on_mz m) http_not_found (\<lambda>_. serverError) k w = (Html 200 pg, w')" "query_like m"
  obtains x w1 where "m (m_db w) = (Inr x, m_db w1)" "untouched w w1" "k x w1 = (Html 200 pg, w')"
  using assms(1)
proof (rule lookupE_cases)
  fix x u assume "on_mz m w = (Inr x, u)" "k x u = (Html 200 pg, w')"
  then show thesis using on_mz_Inr query_like_untouched[OF assms(2)] that by metis
qed (simp_all add: http_not_found_def serverError_def respond_def)

definition page_of_run :: "'s site \<Rightarrow> db \<Rightarrow> run \<Rightarrow> ci_page \<Rightarrow> bool" where
  "page_of_run h s rn pg = (case pg of
      RunsPage _ _ _ _ \<Rightarrow> False
    | RunPage _ _ x js \<Rightarrow> x = rn \<and> list_all (\<lambda>j. job_run j = run_id rn) js
    | LogPage _ _ x j _ \<Rightarrow> x = rn \<and> job_run j = run_id rn \<and> j \<in> set (jobs s)
    | LiveJSON bs _ _ \<Rightarrow> (\<exists>j off. j \<in> set (jobs s) \<and> job_run j = run_id rn \<and>
        (bs = [] \<or> bs = fst (readLive h (job_id j) off))))"

lemma in_run_page:
  assumes "in_run rn i k w = (Html 200 pg, w')"
  obtains j w1 where "j \<in> set (jobs (m_db w))" "job_id j = i" "job_run j = run_id rn" "k j w1 = (Html 200 pg, w')"
  using assms unfolding in_run_def
proof (rule lookup_page)
  fix j w1
  assume a: "GetJob i (m_db w) = (Inr j, m_db w1)"
    "(if job_run j \<noteq> run_id rn then http_not_found else k j) w1 = (Html 200 pg, w')"
  then have "job_run j = run_id rn" by (auto simp: http_not_found_def respond_def split: if_splits)
  with a GetJob_Inr[OF a(1)] show thesis by (intro that[of j w1]) simp_all
qed (rule query_like_ci)

lemma must_page:
  assumes "must (on_mz m) k w = (Html 200 pg, w')"
  obtains x w1 where "m (m_db w) = (Inr x, m_db w1)" "k x w1 = (Html 200 pg, w')"
proof -
  obtain r w1 where "on_mz m w = (r, w1)" by (cases "on_mz m w")
  with assms on_mz_Inr[OF this] that show thesis
    by (auto simp: must_def handleE_def serverError_def respond_def split: sum.splits)
qed

lemma ciJobLog_page:
  assumes "ciJobLog h nw r rp rn i w = (Html 200 pg, w')"
  shows "page_of_run h (m_db w) rn pg"
  using assms unfolding ciJobLog_def
proof (rule in_run_page)
  fix j w1
  assume a: "j \<in> set (jobs (m_db w))" "job_run j = run_id rn" and
    k: "handleE (base_mz h nw r) (\<lambda>b. handleE
      (if \<not> isTerminalStatus (job_stat j) then Pair (no_log\<lparr>lg_live := True\<rparr>)
       else if log_key j = [] then Pair (no_log\<lparr>lg_note := no_log_note\<rparr>) else loadLog h (log_key j))
      (\<lambda>lg. render (LogPage b (repo_name rp) rn j lg))) w1 = (Html 200 pg, w')"
  from k obtain b lg where "pg = LogPage b (repo_name rp) rn j lg"
    by (auto simp: handleE_def render_def respond_def split: prod.splits)
  with a show ?thesis by (simp add: page_of_run_def)
qed

lemma ciJobLogLive_page:
  assumes "ciJobLogLive h r rn i w = (Html 200 pg, w')"
  shows "page_of_run h (m_db w) rn pg"
  using assms unfolding ciJobLogLive_def Let_def
proof (rule in_run_page)
  fix j w1
  let ?off = "atoi (FormValue r ''offset'')"
  assume a: "j \<in> set (jobs (m_db w))" "job_id j = i" "job_run j = run_id rn" and
    k: "(case readLive h i ?off of (data, next, dn, ok) \<Rightarrow>
        render (if ok then LiveJSON data next dn else LiveJSON [] ?off (isTerminalStatus (job_stat j)))) w1 = (Html 200 pg, w')"
  obtain data nx dn ok where rl: "readLive h i ?off = (data, nx, dn, ok)" by (metis prod_cases4)
  with k have "pg = (if ok then LiveJSON data nx dn else LiveJSON [] ?off (isTerminalStatus (job_stat j)))"
    by (simp add: render_def respond_def)
  moreover have "data = fst (readLive h (job_id j) ?off)" using a(2) rl by simp
  ultimately show ?thesis using a(1,3) by (cases ok) (auto simp: page_of_run_def)
qed

lemma ciRunDetail_page:
  assumes "ciRunDetail h nw r rp rn w = (Html 200 pg, w')"
  shows "page_of_run h (m_db w) rn pg"
  using assms unfolding ciRunDetail_def
proof (rule must_page)
  fix js w1
  assume l: "ListJobs (run_id rn) (m_db w) = (Inr js, m_db w1)" and
    k: "handleE (base_mz h nw r) (\<lambda>b. render (RunPage b (repo_name rp) rn js)) w1 = (Html 200 pg, w')"
  from k obtain b where "pg = RunPage b (repo_name rp) rn js"
    by (auto simp: handleE_def render_def respond_def split: prod.splits)
  with ListJobs_Inr[OF l] show ?thesis by (simp add: page_of_run_def)
qed

lemma page_of_run_untouched: "untouched w w1 \<Longrightarrow> page_of_run h (m_db w1) rn pg = page_of_run h (m_db w) rn pg"
  by (auto simp: untouched_def page_of_run_def split: ci_page.split)

lemma ciRun_page:
  assumes "ciRun h nw r name arg w = (Html 200 pg, w')"
  shows "\<exists>rp rn. rp \<in> set (repos (m_db w)) \<and> repo_name rp = normalizeRepoName name \<and> rn \<in> set (runs (m_db w)) \<and>
    run_repo rn = repo_id rp \<and> page_of_run h (m_db w) rn pg"
proof -
  obtain ids rest where c: "(case cut ''/'' arg of None \<Rightarrow> (arg, None) | Some (a, b) \<Rightarrow> (a, Some b)) = (ids, rest)"
    by (cases "case cut ''/'' arg of None \<Rightarrow> (arg, None) | Some (a, b) \<Rightarrow> (a, Some b)")
  show ?thesis
  proof (cases "parse_int64 ids")
    case None
    with assms c show ?thesis by (simp add: ciRun_def http_not_found_def respond_def)
  next
    case (Some i)
    let ?k = "\<lambda>rp rn. if run_repo rn \<noteq> repo_id rp then http_not_found
            else (case rest of None \<Rightarrow> ciRunDetail h nw r rp rn
              | Some p \<Rightarrow> (case job_path p of None \<Rightarrow> http_not_found
                  | Some (jobID, lv) \<Rightarrow> if lv then ciJobLogLive h r rn jobID else ciJobLog h nw r rp rn jobID))"
    from assms c Some have "lookupE (on_mz (GetRepo name)) http_not_found (\<lambda>_. serverError)
        (\<lambda>rp. lookupE (on_mz (GetRun i)) http_not_found (\<lambda>_. serverError) (?k rp)) w = (Html 200 pg, w')"
      by (simp add: ciRun_def ciRepo_def)
    then obtain rp w1 where rp: "GetRepo name (m_db w) = (Inr rp, m_db w1)" "untouched w w1"
        "lookupE (on_mz (GetRun i)) http_not_found (\<lambda>_. serverError) (?k rp) w1 = (Html 200 pg, w')"
      by (rule lookup_page) (rule query_like_reads)
    from rp(3) obtain rn w2 where rn: "GetRun i (m_db w1) = (Inr rn, m_db w2)" "untouched w1 w2"
        "?k rp rn w2 = (Html 200 pg, w')"
      by (rule lookup_page) (rule query_like_ci)
    have own: "run_repo rn = repo_id rp"
      using rn(3) by (auto simp: http_not_found_def respond_def split: if_splits)
    have "page_of_run h (m_db w2) rn pg"
      using rn(3) own by (auto simp: http_not_found_def respond_def split: option.splits if_splits prod.splits
          dest: ciRunDetail_page ciJobLogLive_page ciJobLog_page)
    then have "page_of_run h (m_db w) rn pg"
      using page_of_run_untouched[OF rn(2)] page_of_run_untouched[OF rp(2)] by blast
    moreover have "rn \<in> set (runs (m_db w))" using GetRun_Inr[OF rn(1)] rp(2) by (auto simp: untouched_def)
    ultimately show ?thesis using GetRepo_Inr[OF rp(1)] own by blast
  qed
qed

text \<open>
  A run is shown only under its repository: whatever the URL names, a page that is served
  shows a run of the repository that it names, and a job, its log or its live tail only if the
  job belongs to that run.
\<close>

theorem run_pages_own_repo:
  assumes "ciRun h nw r name arg w = (Html 200 pg, w')"
  shows "\<exists>rp rn. rp \<in> set (repos (m_db w)) \<and> repo_name rp = normalizeRepoName name \<and> rn \<in> set (runs (m_db w)) \<and>
    run_repo rn = repo_id rp \<and> page_of_run h (m_db w) rn pg"
  by (rule ciRun_page[OF assms])

definition sample_site :: "mem site" where
  "sample_site = \<lparr>st_ui = sample_ui, st_store = Mem, st_root = ''/c'', st_live = None,
     st_git = (\<lambda>_ _ _. Exited 128 [] []), st_highlight = (\<lambda>_ _. None), st_markdown = (\<lambda>_ _. []),
     st_mime = (\<lambda>_. [])\<rparr>"

lemma run_pages_own_repo_witness:
  "\<exists>pg w' rn. ciRun sample_site 10 (sample_request None []) ''app'' ''1/job/2/log'' sample_mz = (Html 200 pg, w') \<and>
     run_id rn = 1 \<and> page_of_run sample_site sample_db rn pg"
proof -
  have c: "(case cut ''/'' ''1/job/2/log'' of None \<Rightarrow> (''1/job/2/log'', None) | Some (a, b) \<Rightarrow> (a, Some b)) = (''1'', Some ''job/2/log'')"
    "parse_int64 ''1'' = Some 1" "job_path ''job/2/log'' = Some (2, False)" "normalizeRepoName ''app'' = ''app''"
    by code_simp+
  let ?b = "\<lparr>me = [], base_admin = False, flash = [], err = Text []\<rparr>"
  have "ciRun sample_site 10 (sample_request None []) ''app'' ''1/job/2/log'' sample_mz =
      (Html 200 (LogPage ?b ''app'' (hd (runs sample_db)) (jobs sample_db ! 1) (no_log\<lparr>lg_live := True\<rparr>)), sample_mz)"
    using c by (simp add: ciRun_def ciRepo_def lookupE_def handleE_def on_mz_def GetRepo_def GetRun_def
        GetJob_def ciJobLog_def in_run_def base_mz_def base_of_def viewer_def verify_session_def
        sample_mz_def sample_db_def sample_site_def sample_request_def baseFor_def no_msg_def render_def respond_def
        no_faults_def)
  from this run_pages_own_repo[OF this] show ?thesis
    by (auto simp: page_of_run_def sample_mz_def sample_db_def)
qed

end
