(* ===== verification/WebBrowse.thy ===== *)
theory WebBrowse
  imports WebCI
begin

text \<open>
  \<open>internal/webui/browse.go\<close>: the read-only pages of a repository. The ref and the path of a
  page are one part of the URL, \<open>rest\<close>, that is split against the refs of the repository.
  State and handler are those of \<open>WebCI\<close>; git runs on the directories of the cache as they
  are when it is called.
\<close>

definition logLimit :: nat where "logLimit = 100"

record browseBase =
  bb_base :: base
  bb_repo :: string
  bb_ref :: string
  bb_refs :: "(string \<times> string) list"

text \<open>\<open>blob_view\<close>: at most one of the fields \<open>Text\<close>, \<open>Highlighted\<close> and \<open>Rendered\<close> is filled.\<close>

datatype blob_view = NoView | TextView string | HighlightedView string | RenderedView string

datatype browse_page =
    TreePage browseBase string "(string \<times> string) list" "TreeEntry list" string bool
  | BlobPage browseBase string "(string \<times> string) list" blob_view bool int bool
  | RawFile string string bytes bool
  | RefsPage browseBase "(string \<times> string) list"
  | CommitsPage browseBase string "(string \<times> string) list" "Commit list" bool
  | CommitPage browseBase Commit string "run option"
  | ComparePage browseBase string string "Commit list" string
  | CiPage ci_page

section \<open>Refs in the path\<close>

definition branch_names :: "ref_row list \<Rightarrow> string list" where
  "branch_names rs = List.map_filter (\<lambda>rf. cut_prefix ''refs/heads/'' (ref_name rf)) rs"

definition tag_names :: "ref_row list \<Rightarrow> string list" where
  "tag_names rs = List.map_filter (\<lambda>rf. if has_prefix ''refs/heads/'' (ref_name rf) then None
     else cut_prefix ''refs/tags/'' (ref_name rf)) rs"

fun greedy_loop :: "string list \<Rightarrow> string list \<Rightarrow> string list \<Rightarrow> nat \<Rightarrow> (string \<times> string \<times> bool) option" where
  "greedy_loop branches tags segs 0 = None"
| "greedy_loop branches tags segs (Suc i) =
     (let cand = join_with ''/'' (take (Suc i) segs); tail = join_with ''/'' (drop (Suc i) segs) in
      if cand \<in> set branches then Some (cand, tail, True)
      else if cand \<in> set tags then Some (cand, tail, False)
      else greedy_loop branches tags segs i)"

definition greedyRef :: "ref_row list \<Rightarrow> string \<Rightarrow> string \<Rightarrow> (string \<times> string \<times> bool) option" where
  "greedyRef rs rest0 defaultBranch =
     (let rest = trim_char (CHR ''/'') rest0 in
      if rest = [] then Some (defaultBranch, [], True)
      else (let segs = split_on (CHR ''/'') rest in
        greedy_loop (branch_names rs) (tag_names rs) segs (length segs)))"

definition qualify :: "string \<Rightarrow> bool \<Rightarrow> string" where
  "qualify name branch = (if branch then ''refs/heads/'' @ name else ''refs/tags/'' @ name)"

definition treeURL :: "string \<Rightarrow> string \<Rightarrow> string \<Rightarrow> string" where
  "treeURL name ref p = ''/'' @ name @ ''/tree/'' @ ref @ (if p \<noteq> [] then ''/'' @ p else [])"

fun crumb_loop :: "string \<Rightarrow> string list \<Rightarrow> (string \<times> string) list" where
  "crumb_loop acc [] = []"
| "crumb_loop acc (seg # segs) =
     (let acc' = (if acc = [] then seg else acc @ ''/'' @ seg) in (seg, acc') # crumb_loop acc' segs)"

definition crumbs :: "string \<Rightarrow> (string \<times> string) list" where
  "crumbs p0 = (let p = trim_char (CHR ''/'') p0 in
     if p = [] then [] else crumb_loop [] (split_on (CHR ''/'') p))"

section \<open>What every page needs\<close>

text \<open>\<open>git_or\<close>: \<open>repo.ErrNotFound\<close> gives 404 and any other error 500.\<close>

definition git_or :: "(browse_error + 'a) \<Rightarrow> ('a \<Rightarrow> ('s, 'p) page_op) \<Rightarrow> ('s, 'p) page_op" where
  "git_or res k = (case res of Inr x \<Rightarrow> k x
     | Inl e \<Rightarrow> if e = BrowseNotFound then http_not_found else serverError)"

definition git_of :: "'s site \<Rightarrow> 's mz \<Rightarrow> git_program" where
  "git_of h w = st_git h (m_cache w)"

definition run_git :: "'s site \<Rightarrow> (git_program \<Rightarrow> browse_error + 'a) \<Rightarrow> ('a \<Rightarrow> ('s, 'p) page_op) \<Rightarrow> ('s, 'p) page_op" where
  "run_git h f k w = git_or (f (git_of h w)) k w"

definition authorizeRead :: "'s site \<Rightarrow> time \<Rightarrow> request \<Rightarrow> string \<Rightarrow> ('s, 'p) page_op \<Rightarrow> ('s, 'p) page_op" where
  "authorizeRead h nw r name k = handleE (on_mz (viewer (st_ui h) nw None r)) (\<lambda>u.
     let uid = userID u in
     lookupE (on_mz (GetRepo name))
       (if uid = 0 then denyUnauth r else http_not_found) (\<lambda>_. serverError) (\<lambda>rp.
         must (on_mz (CanRead rp uid)) (\<lambda>can.
           if can then k
           else if uid = 0 then denyUnauth r
           else respond (HttpError 403 ''forbidden''))))"

record browseCtx =
  cx_repo :: repo
  cx_dir :: string
  cx_ref :: string
  cx_sha :: string

definition resolve :: "'s site \<Rightarrow> string \<Rightarrow> string \<Rightarrow> (browseCtx \<Rightarrow> string \<Rightarrow> ('s, 'p) page_op) \<Rightarrow> ('s, 'p) page_op" where
  "resolve h name rest k = lookupE (on_mz (GetRepo name)) http_not_found (\<lambda>_. serverError) (\<lambda>rp.
     must (on_mz (ListRefs (repo_id rp))) (\<lambda>rs.
       case greedyRef rs rest (default_branch rp) of
         None \<Rightarrow> http_not_found
       | Some (ref, treePath, branch) \<Rightarrow>
           must (Materialize (st_store h) (st_root h) name) (\<lambda>dir w.
             case ResolveRef (git_of h w) dir (qualify ref branch) of
               Inl e \<Rightarrow>
                 (if e \<noteq> BrowseNotFound then serverError w
                  else if trim_char (CHR ''/'') rest = []
                  then respond (RedirectTo 302 (''/'' @ name @ ''/refs'')) w
                  else http_not_found w)
             | Inr sha \<Rightarrow> k \<lparr>cx_repo = rp, cx_dir = dir, cx_ref = ref, cx_sha = sha\<rparr> treePath w)))"

definition ref_choice :: "ref_row \<Rightarrow> string \<times> string" where
  "ref_choice rf = (let name = ref_name rf;
     short = (if has_prefix ''refs/heads/'' name then trim_prefix ''refs/heads/'' name
              else if has_prefix ''refs/tags/'' name then trim_prefix ''refs/tags/'' name
              else name) in (short, short))"

definition refChoices :: "int \<Rightarrow> 's mz \<Rightarrow> (string \<times> string) list \<times> 's mz" where
  "refChoices repoID = handleE (on_mz (ListRefs repoID)) (\<lambda>res. Pair (case res of
      Inl _ \<Rightarrow> [] | Inr rs \<Rightarrow> map ref_choice rs))"

definition browseHeader :: "'s site \<Rightarrow> time \<Rightarrow> request \<Rightarrow> repo \<Rightarrow> string \<Rightarrow> 's mz \<Rightarrow> browseBase \<times> 's mz" where
  "browseHeader h nw r rp ref = handleE (base_mz h nw r) (\<lambda>b.
     handleE (refChoices (repo_id rp)) (\<lambda>cs.
       Pair \<lparr>bb_base = b, bb_repo = repo_name rp, bb_ref = ref, bb_refs = cs\<rparr>))"

abbreviation "header_of h nw r c \<equiv> browseHeader h nw r (cx_repo c) (cx_ref c)"

section \<open>Trees and files\<close>

definition linkContext :: "git_program \<Rightarrow> browseCtx \<Rightarrow> string \<Rightarrow> LinkContext" where
  "linkContext git c dir = \<lparr>lc_repo = repo_name (cx_repo c), lc_ref = cx_ref c, lc_dir = dir,
     lc_stat = (\<lambda>p. case EntryType git (cx_dir c) (cx_sha c) p of Inl _ \<Rightarrow> None | Inr kind \<Rightarrow> Some kind)\<rparr>"

definition readme :: "'s site \<Rightarrow> git_program \<Rightarrow> browseCtx \<Rightarrow> string \<Rightarrow> TreeEntry list \<Rightarrow> string" where
  "readme h git c dir entries =
     (case find (\<lambda>e. entry_type e = ''blob'' \<and> IsReadme (entry_name e)) entries of
        None \<Rightarrow> []
      | Some e \<Rightarrow> (case Blob git (cx_dir c) (cx_sha c) (entry_path e) of
            Inl _ \<Rightarrow> []
          | Inr (content, n, binary) \<Rightarrow>
              if binary \<or> n > int MaxSize then [] else st_markdown h content (linkContext git c dir)))"

definition renderTree :: "'s site \<Rightarrow> time \<Rightarrow> request \<Rightarrow> browseCtx \<Rightarrow> string \<Rightarrow> ('s, browse_page) page_op" where
  "renderTree h nw r c treePath = run_git h (\<lambda>git. Tree git (cx_dir c) (cx_sha c) treePath) (\<lambda>entries w.
     let rd = readme h (git_of h w) c treePath entries in
     handleE (header_of h nw r c) (\<lambda>b.
       render (TreePage b treePath (crumbs treePath) entries rd (HasMermaid rd))) w)"

definition blob_view_of :: "'s site \<Rightarrow> git_program \<Rightarrow> browseCtx \<Rightarrow> string \<Rightarrow> bytes \<Rightarrow> int \<Rightarrow> bool \<Rightarrow> blob_view" where
  "blob_view_of h git c blobPath content n binary =
     (if binary then NoView
      else if n > int MaxSize then TextView content
      else if IsMarkdown blobPath then RenderedView (st_markdown h content (linkContext git c (path_dir blobPath)))
      else (case st_highlight h content blobPath of Some hl \<Rightarrow> HighlightedView hl | None \<Rightarrow> TextView content))"

definition renderBlob :: "'s site \<Rightarrow> time \<Rightarrow> request \<Rightarrow> browseCtx \<Rightarrow> string \<Rightarrow> ('s, browse_page) page_op" where
  "renderBlob h nw r c blobPath = run_git h (\<lambda>git. Blob git (cx_dir c) (cx_sha c) blobPath) (\<lambda>(content, n, binary).
     handleE (header_of h nw r c) (\<lambda>b w.
       let v = blob_view_of h (git_of h w) c blobPath content n binary in
       render (BlobPage b blobPath (crumbs blobPath) v binary n
         (case v of RenderedView html \<Rightarrow> HasMermaid html | _ \<Rightarrow> False)) w))"

definition renderRaw :: "'s site \<Rightarrow> browseCtx \<Rightarrow> string \<Rightarrow> ('s, browse_page) page_op" where
  "renderRaw h c blobPath = run_git h (\<lambda>git. BlobSize git (cx_dir c) (cx_sha c) blobPath) (\<lambda>_ w.
     case BlobReader (git_of h w) (cx_dir c) (cx_sha c) blobPath of
       Inl _ \<Rightarrow> serverError w
     | Inr (content, whole) \<Rightarrow>
         let ct = st_mime h (path_ext blobPath) in
         render (RawFile (if ct \<noteq> [] then ct else ''application/octet-stream'')
           (''attachment; filename='' @ [CHR 0x22] @ path_base blobPath @ [CHR 0x22]) content whole) w)"

definition renderCommits :: "'s site \<Rightarrow> time \<Rightarrow> request \<Rightarrow> browseCtx \<Rightarrow> string \<Rightarrow> ('s, browse_page) page_op" where
  "renderCommits h nw r c scope = run_git h (\<lambda>git. Log git (cx_dir c) (cx_sha c) scope logLimit) (\<lambda>(cs, more).
     handleE (header_of h nw r c) (\<lambda>b. render (CommitsPage b scope (crumbs scope) cs more)))"

definition renderCommit :: "'s site \<Rightarrow> time \<Rightarrow> request \<Rightarrow> browseCtx \<Rightarrow> string \<Rightarrow> ('s, browse_page) page_op" where
  "renderCommit h nw r c sha = run_git h (\<lambda>git. Show git (cx_dir c) sha) (\<lambda>(cm, diff).
     handleE (on_mz (LatestRunForSHA (repo_id (cx_repo c)) (commit_sha cm))) (\<lambda>res.
       handleE (header_of h nw r c) (\<lambda>b.
         render (CommitPage b cm (Diff diff) (case res of Inr rn \<Rightarrow> Some rn | Inl _ \<Rightarrow> None)))))"

section \<open>The routes\<close>

definition browseLanding :: "'s site \<Rightarrow> time \<Rightarrow> request \<Rightarrow> ('s, browse_page) page_op" where
  "browseLanding h nw r = authorizeRead h nw r (path_repo r)
     (resolve h (path_repo r) [] (\<lambda>c _. renderTree h nw r c []))"

definition browseTreeRoute :: "'s site \<Rightarrow> time \<Rightarrow> request \<Rightarrow> string \<Rightarrow> ('s, browse_page) page_op" where
  "browseTreeRoute h nw r rest = authorizeRead h nw r (path_repo r)
     (resolve h (path_repo r) rest (\<lambda>c p.
       run_git h (\<lambda>git. EntryType git (cx_dir c) (cx_sha c) p) (\<lambda>typ.
         if typ = ''blob'' then renderBlob h nw r c p else renderTree h nw r c p)))"

definition browseBlobRoute :: "'s site \<Rightarrow> time \<Rightarrow> request \<Rightarrow> string \<Rightarrow> ('s, browse_page) page_op" where
  "browseBlobRoute h nw r rest = authorizeRead h nw r (path_repo r)
     (resolve h (path_repo r) rest (\<lambda>c p.
       run_git h (\<lambda>git. EntryType git (cx_dir c) (cx_sha c) p) (\<lambda>typ.
         if typ = ''tree'' then respond (RedirectTo 301 (treeURL (repo_name (cx_repo c)) (cx_ref c) p))
         else renderBlob h nw r c p)))"

definition browseRawRoute :: "'s site \<Rightarrow> time \<Rightarrow> request \<Rightarrow> string \<Rightarrow> ('s, browse_page) page_op" where
  "browseRawRoute h nw r rest = authorizeRead h nw r (path_repo r)
     (resolve h (path_repo r) rest (renderRaw h))"

definition browseCommitsRoute :: "'s site \<Rightarrow> time \<Rightarrow> request \<Rightarrow> string \<Rightarrow> ('s, browse_page) page_op" where
  "browseCommitsRoute h nw r rest = authorizeRead h nw r (path_repo r)
     (resolve h (path_repo r) rest (renderCommits h nw r))"

definition browseCommitRoute :: "'s site \<Rightarrow> time \<Rightarrow> request \<Rightarrow> string \<Rightarrow> ('s, browse_page) page_op" where
  "browseCommitRoute h nw r sha = authorizeRead h nw r (path_repo r)
     (resolve h (path_repo r) [] (\<lambda>c _. renderCommit h nw r c sha))"

definition browseRefsRoute :: "'s site \<Rightarrow> time \<Rightarrow> request \<Rightarrow> ('s, browse_page) page_op" where
  "browseRefsRoute h nw r = authorizeRead h nw r (path_repo r)
     (lookupE (on_mz (GetRepo (path_repo r))) http_not_found (\<lambda>_. serverError) (\<lambda>rp.
       handleE (browseHeader h nw r rp (default_branch rp)) (\<lambda>b.
         handleE (refChoices (repo_id rp)) (\<lambda>cs. render (RefsPage b cs)))))"

definition resolveSide :: "'s site \<Rightarrow> string \<Rightarrow> ref_row list \<Rightarrow> string \<Rightarrow> (string \<Rightarrow> ('s, 'p) page_op) \<Rightarrow> ('s, 'p) page_op" where
  "resolveSide h dir rs side =
     run_git h (\<lambda>git. ResolveRef git dir (case greedyRef rs side [] of
         Some (name, tail, branch) \<Rightarrow> if name = side \<and> tail = [] then qualify name branch else side
       | None \<Rightarrow> side))"

definition browseCompareRoute :: "'s site \<Rightarrow> time \<Rightarrow> request \<Rightarrow> string \<Rightarrow> ('s, browse_page) page_op" where
  "browseCompareRoute h nw r rest = authorizeRead h nw r (path_repo r)
     (case cut ''...'' rest of
        None \<Rightarrow> http_not_found
      | Some (b, tip) \<Rightarrow>
         if b = [] \<or> tip = [] then http_not_found
         else lookupE (on_mz (GetRepo (path_repo r))) http_not_found (\<lambda>_. serverError) (\<lambda>rp.
           must (on_mz (ListRefs (repo_id rp))) (\<lambda>rs.
             must (Materialize (st_store h) (st_root h) (path_repo r)) (\<lambda>dir.
               resolveSide h dir rs b (\<lambda>baseSHA. resolveSide h dir rs tip (\<lambda>headSHA.
                 run_git h (\<lambda>git. Compare git dir baseSHA headSHA) (\<lambda>(cs, diff).
                   handleE (browseHeader h nw r rp tip) (\<lambda>bb.
                     render (ComparePage bb b tip cs (Diff diff))))))))))"

definition ciRunsRoute :: "'s site \<Rightarrow> time \<Rightarrow> request \<Rightarrow> string \<Rightarrow> ('s, browse_page) page_op" where
  "ciRunsRoute h nw r rest = authorizeRead h nw r (path_repo r)
     (handleE (if rest \<noteq> [] then ciRun h nw r (path_repo r) rest else ciRuns h nw r (path_repo r))
       (\<lambda>resp. Pair (map_reply CiPage resp)))"

section \<open>The longest ref\<close>

lemma split_on_sep: "split_on d (a @ d # b) = split_on d a @ split_on d b"
  by (induction a) (auto split: list.splits)

lemma join_with_append: "xs \<noteq> [] \<Longrightarrow> ys \<noteq> [] \<Longrightarrow> join_with sep (xs @ ys) = join_with sep xs @ sep @ join_with sep ys"
proof (induction xs)
  case (Cons x xs)
  then show ?case by (cases xs) (simp_all add: join_with_Cons)
qed simp

text \<open>\<open>splits r c t\<close>: \<open>c\<close> is a leading part of \<open>r\<close> that ends where a segment ends, \<open>t\<close> the rest.\<close>

definition splits :: "string \<Rightarrow> string \<Rightarrow> string \<Rightarrow> bool" where
  "splits r c t \<longleftrightarrow> (r = c \<and> t = []) \<or> r = c @ ''/'' @ t"

lemma splits_segments:
  "splits r c t \<longleftrightarrow> (\<exists>i. 0 < i \<and> i \<le> length (split_on (CHR ''/'') r) \<and>
     c = join_with ''/'' (take i (split_on (CHR ''/'') r)) \<and> t = join_with ''/'' (drop i (split_on (CHR ''/'') r)))"
    (is "?L \<longleftrightarrow> ?R")
proof
  assume ?L
  then consider "r = c" "t = []" | "r = c @ CHR ''/'' # t" by (auto simp: splits_def)
  then show ?R
  proof cases
    case 1
    have "0 < length (split_on (CHR ''/'') r)" by simp
    with 1 show ?thesis by (intro exI[of _ "length (split_on (CHR ''/'') r)"]) simp
  next
    case 2
    have "0 < length (split_on (CHR ''/'') c)" by simp
    with 2 show ?thesis by (intro exI[of _ "length (split_on (CHR ''/'') c)"]) (simp add: split_on_sep)
  qed
next
  let ?s = "split_on (CHR ''/'') r"
  assume ?R
  then obtain i where i: "0 < i" "i \<le> length ?s" "c = join_with ''/'' (take i ?s)" "t = join_with ''/'' (drop i ?s)"
    by blast
  show ?L
  proof (cases "i = length ?s")
    case True
    with i show ?thesis by (simp add: splits_def)
  next
    case False
    have "r = join_with ''/'' (take i ?s @ drop i ?s)" by simp
    also have "\<dots> = c @ ''/'' @ t"
      unfolding i(3,4) by (rule join_with_append) (use i False in auto)
    finally show ?thesis by (simp add: splits_def)
  qed
qed

lemma splits_length: "splits r c t \<Longrightarrow> length r = length c + (if r = c then 0 else Suc (length t))"
  by (auto simp: splits_def)

definition names_ref :: "ref_row list \<Rightarrow> string \<Rightarrow> bool" where
  "names_ref rs n \<longleftrightarrow> n \<in> set (branch_names rs) \<or> n \<in> set (tag_names rs)"

lemma greedy_loop_Some:
  "greedy_loop B T segs n = Some (c, t, b) \<longleftrightarrow>
    (\<exists>i. 0 < i \<and> i \<le> n \<and> c = join_with ''/'' (take i segs) \<and> t = join_with ''/'' (drop i segs) \<and>
      (c \<in> set B \<or> c \<in> set T) \<and> b = (c \<in> set B) \<and>
      (\<forall>j. i < j \<and> j \<le> n \<longrightarrow> join_with ''/'' (take j segs) \<notin> set B \<union> set T))"
proof (induction n)
  case (Suc n)
  let ?c = "join_with ''/'' (take (Suc n) segs)"
  show ?case
  proof (cases "?c \<in> set B \<union> set T")
    case True
    have only: "i = Suc n" if "i \<le> Suc n" "\<forall>j. i < j \<and> j \<le> Suc n \<longrightarrow> join_with ''/'' (take j segs) \<notin> set B \<union> set T" for i
      using that True by (metis le_neq_implies_less order_refl)
    from True have "greedy_loop B T segs (Suc n) = Some (?c, join_with ''/'' (drop (Suc n) segs), ?c \<in> set B)"
      by (auto simp: Let_def)
    with True only show ?thesis by (auto intro!: exI[of _ "Suc n"])
  next
    case False
    then have step: "greedy_loop B T segs (Suc n) = greedy_loop B T segs n" by (simp add: Let_def)
    have "(\<forall>j. i < j \<and> j \<le> Suc n \<longrightarrow> join_with ''/'' (take j segs) \<notin> set B \<union> set T) \<longleftrightarrow>
        (\<forall>j. i < j \<and> j \<le> n \<longrightarrow> join_with ''/'' (take j segs) \<notin> set B \<union> set T)" if "i \<le> n" for i
      using False that by (metis le_Suc_eq)
    moreover have "i \<le> n" if "i \<le> Suc n" "join_with ''/'' (take i segs) \<in> set B \<or> join_with ''/'' (take i segs) \<in> set T" for i
      using that False by (cases "i = Suc n") auto
    ultimately show ?thesis unfolding step Suc.IH by (auto intro: le_SucI)
  qed
qed auto

lemma join_take_less:
  assumes "0 < i" "i < j" "j \<le> length segs"
  shows "length (join_with ''/'' (take i segs)) < length (join_with ''/'' (take j segs))"
proof -
  have "take j segs = take i segs @ take (j - i) (drop i segs)"
    using assms(2) by (metis add_diff_inverse_nat less_imp_not_less take_add)
  moreover have "take i segs \<noteq> []" "take (j - i) (drop i segs) \<noteq> []" using assms by auto
  ultimately show ?thesis by (simp add: join_with_append)
qed

lemma greedyRef_Some:
  assumes "r = trim_char (CHR ''/'') rest" "r \<noteq> []"
  shows "greedyRef rs rest def = Some (c, t, b) \<longleftrightarrow>
    splits r c t \<and> names_ref rs c \<and> b = (c \<in> set (branch_names rs)) \<and>
    (\<forall>c' t'. splits r c' t' \<and> names_ref rs c' \<longrightarrow> length c' \<le> length c)"
    (is "?L \<longleftrightarrow> ?R")
proof -
  let ?s = "split_on (CHR ''/'') r"
  let ?c = "\<lambda>i. join_with ''/'' (take i ?s)" and ?t = "\<lambda>i. join_with ''/'' (drop i ?s)"
  have g: "greedyRef rs rest def = greedy_loop (branch_names rs) (tag_names rs) ?s (length ?s)"
    using assms by (simp add: greedyRef_def Let_def)
  show ?thesis
  proof
    assume ?L
    then obtain i where i: "0 < i" "i \<le> length ?s" "c = ?c i" "t = ?t i" "names_ref rs c"
      "b = (c \<in> set (branch_names rs))" "\<forall>j. i < j \<and> j \<le> length ?s \<longrightarrow> \<not> names_ref rs (?c j)"
      unfolding g greedy_loop_Some names_ref_def by auto
    then have "splits r c t" unfolding splits_segments by blast
    moreover have "length c' \<le> length c" if s: "splits r c' t'" "names_ref rs c'" for c' t'
    proof -
      from s(1) obtain k where k: "0 < k" "k \<le> length ?s" "c' = ?c k" unfolding splits_segments by blast
      with s(2) i(7) have "k \<le> i" by (meson not_le)
      then show ?thesis
        using join_take_less[OF k(1), of i ?s] i(2) unfolding i(3) k(3) by (cases "k = i") auto
    qed
    ultimately show ?R using i(5,6) by blast
  next
    assume R: ?R
    then obtain i where i: "0 < i" "i \<le> length ?s" "c = ?c i" "t = ?t i" unfolding splits_segments by blast
    have "\<not> names_ref rs (?c j)" if "i < j" "j \<le> length ?s" for j
    proof
      assume n: "names_ref rs (?c j)"
      have "splits r (?c j) (?t j)" unfolding splits_segments using i(1) that by (intro exI[of _ j]) auto
      with R n have "length (?c j) \<le> length c" by blast
      with join_take_less[OF i(1) that] i(3) show False by simp
    qed
    with R i show ?L unfolding g greedy_loop_Some names_ref_def by blast
  qed
qed

text \<open>
  C32. The ref of a URL is the longest leading part of the path that names a branch or tag and
  ends where a segment ends; it is read as a branch whenever there is one of that name. What is
  left is the path in the tree.
\<close>

theorem ref_is_longest:
  assumes "r = trim_char (CHR ''/'') rest" "r \<noteq> []"
  shows "greedyRef rs rest def = Some (c, t, b) \<longleftrightarrow>
    splits r c t \<and> names_ref rs c \<and> b = (c \<in> set (branch_names rs)) \<and>
    (\<forall>c' t'. splits r c' t' \<and> names_ref rs c' \<longrightarrow> length c' \<le> length c)"
  by (rule greedyRef_Some[OF assms])

definition sample_refs :: "ref_row list" where
  "sample_refs = map (\<lambda>n. \<lparr>ref_repo = 2, ref_name = n, ref_sha = sha1_a, ref_updated = 0\<rparr>)
     [''refs/heads/main'', ''refs/heads/feature/login'', ''refs/tags/main'', ''refs/tags/main/docs'']"

lemma ref_is_longest_witness:
  "splits ''feature/login/src/x.go'' ''feature/login'' ''src/x.go'' \<and> names_ref sample_refs ''feature/login''"
proof -
  have r: "''feature/login/src/x.go'' = trim_char (CHR ''/'') ''/feature/login/src/x.go/''"
    "''feature/login/src/x.go'' \<noteq> []" by code_simp+
  have "greedyRef sample_refs ''/feature/login/src/x.go/'' ''main'' = Some (''feature/login'', ''src/x.go'', True)"
    by code_simp
  with ref_is_longest[OF r] show ?thesis by simp
qed

text \<open>
  The URL that a page builds for a ref and a path leads back to them, unless a longer name is
  a ref too: a branch \<open>main\<close> and a tag \<open>main/docs\<close> can both exist, and the link from the
  listing of \<open>main\<close> to its directory \<open>docs\<close> then shows the root of the tag.
\<close>

lemma trim_char_id:
  assumes "s = [] \<or> (hd s \<noteq> c \<and> last s \<noteq> c)"
  shows "trim_char c s = s"
proof (cases "s = []")
  case False
  have "dropWhile (\<lambda>x. x = c) xs = xs" if "xs \<noteq> []" "hd xs \<noteq> c" for xs :: string
    using that by (cases xs) auto
  from this[of s] this[of "rev s"] False assms show ?thesis by (simp add: trim_char_def hd_rev)
qed (simp add: trim_char_def)

lemma url_roundtrip:
  assumes "names_ref rs n" "n \<noteq> []" "hd n \<noteq> CHR ''/''" "p \<noteq> []" "last p \<noteq> CHR ''/''"
    and "\<forall>c' t'. splits (n @ ''/'' @ p) c' t' \<and> names_ref rs c' \<longrightarrow> length c' \<le> length n"
  shows "greedyRef rs (n @ ''/'' @ p) def = Some (n, p, n \<in> set (branch_names rs))"
proof -
  have r: "n @ ''/'' @ p = trim_char (CHR ''/'') (n @ ''/'' @ p)"
    using assms(2-5) by (intro trim_char_id[symmetric]) simp
  have "splits (n @ ''/'' @ p) n p" by (simp add: splits_def)
  with assms(1,6) show ?thesis by (subst greedyRef_Some[OF r]) simp_all
qed

lemma tag_below_branch:
  "greedyRef sample_refs (drop (length ''/app/tree/'') (treeURL ''app'' ''main'' ''docs'')) ''main'' =
     Some (''main/docs'', [], False)"
  by code_simp

section \<open>Who may browse\<close>

datatype browse_action = Landing | TreeAt string | BlobAt string | RawAt string | CommitsAt string
  | CommitAt string | CompareAt string | RefsAt | RunsAt string

fun serve_browse :: "'s site \<Rightarrow> time \<Rightarrow> browse_action \<Rightarrow> request \<Rightarrow> ('s, browse_page) page_op" where
  "serve_browse h nw Landing r = browseLanding h nw r"
| "serve_browse h nw (TreeAt rest) r = browseTreeRoute h nw r rest"
| "serve_browse h nw (BlobAt rest) r = browseBlobRoute h nw r rest"
| "serve_browse h nw (RawAt rest) r = browseRawRoute h nw r rest"
| "serve_browse h nw (CommitsAt rest) r = browseCommitsRoute h nw r rest"
| "serve_browse h nw (CommitAt sha) r = browseCommitRoute h nw r sha"
| "serve_browse h nw (CompareAt rest) r = browseCompareRoute h nw r rest"
| "serve_browse h nw RefsAt r = browseRefsRoute h nw r"
| "serve_browse h nw (RunsAt rest) r = ciRunsRoute h nw r rest"

lemma serve_browse_gated: "\<exists>k. serve_browse h nw a r = authorizeRead h nw r (path_repo r) k"
  by (cases a) (auto simp: browseLanding_def browseTreeRoute_def browseBlobRoute_def browseRawRoute_def
      browseCommitsRoute_def browseCommitRoute_def browseCompareRoute_def browseRefsRoute_def ciRunsRoute_def)

definition signed_in :: "'s site \<Rightarrow> time \<Rightarrow> request \<Rightarrow> db \<Rightarrow> user \<Rightarrow> bool" where
  "signed_in h nw r s u \<longleftrightarrow> u \<in> set (users s) \<and>
     verify_session (ui_sess (st_ui h)) (session_cookie r) nw = Some (user_id u)"

definition may_browse :: "'s site \<Rightarrow> time \<Rightarrow> request \<Rightarrow> db \<Rightarrow> repo \<Rightarrow> bool" where
  "may_browse h nw r s rp \<longleftrightarrow> rp \<in> set (repos s) \<and> repo_name rp = normalizeRepoName (path_repo r) \<and>
     (Public rp \<or> (\<exists>u. signed_in h nw r s u \<and>
        (\<exists>a \<in> set (acls s). acl_repo a = repo_id rp \<and> acl_user a = user_id u)))"

lemma viewer_Some:
  assumes "viewer ui nw None r s = (Some u, s')"
  shows "u \<in> set (users s) \<and> verify_session (ui_sess ui) (session_cookie r) nw = Some (user_id u)"
proof -
  from assms obtain i where v: "verify_session (ui_sess ui) (session_cookie r) nw = Some i"
    by (auto simp: viewer_def split: option.splits)
  obtain res t where g: "GetUserByID i s = (res, t)" by (cases "GetUserByID i s")
  with assms v have "res = Inr u" by (auto simp: viewer_def handleE_def split: sum.splits)
  with g v show ?thesis by (auto elim: GetUserByID_cases)
qed

definition browse_refusals :: "request \<Rightarrow> 'p reply set" where
  "browse_refusals r = {if is_get r then RedirectTo 303 ''/login'' else HttpError 401 ''unauthorized'',
     HttpError 404 ''404 page not found'', HttpError 403 ''forbidden'', HttpError 500 ''internal server error''}"

lemmas refusal_defs = denyUnauth_def http_not_found_def serverError_def respond_def browse_refusals_def

lemma authorizeRead_cases:
  assumes "authorizeRead h nw r (path_repo r) k w = (resp, w')"
  obtains "resp \<in> browse_refusals r" "untouched w w'"
  | w1 rp where "untouched w w1" "k w1 = (resp, w')" "may_browse h nw r (m_db w) rp"
proof -
  obtain u w1 where v: "on_mz (viewer (st_ui h) nw None r) w = (u, w1)"
    by (cases "on_mz (viewer (st_ui h) nw None r) w")
  have u1: "untouched w w1" by (rule query_like_untouched[OF query_like_reads(2) v])
  obtain res w2 where g: "on_mz (GetRepo (path_repo r)) w1 = (res, w2)"
    by (cases "on_mz (GetRepo (path_repo r)) w1")
  have u2: "untouched w w2"
    by (rule untouched_trans[OF u1 query_like_untouched[OF query_like_reads(1) g]])
  from assms v have a: "lookupE (on_mz (GetRepo (path_repo r)))
      (if userID u = 0 then denyUnauth r else http_not_found) (\<lambda>_. serverError) (\<lambda>rp.
        must (on_mz (CanRead rp (userID u))) (\<lambda>can. if can then k
          else if userID u = 0 then denyUnauth r else respond (HttpError 403 ''forbidden''))) w1 = (resp, w')"
    by (simp add: authorizeRead_def handleE_def Let_def)
  show thesis
  proof (cases res)
    case (Inl e)
    with a g have "resp \<in> browse_refusals r \<and> w' = w2"
      by (cases "e = NotFound") (auto simp: refusal_defs split: if_splits)
    with u2 that(1) show thesis by blast
  next
    case (Inr rp)
    obtain c w3 where c: "on_mz (CanRead rp (userID u)) w2 = (c, w3)" by (cases "on_mz (CanRead rp (userID u)) w2")
    have u3: "untouched w w3"
      by (rule untouched_trans[OF u2 query_like_untouched[OF query_like_reads(3) c]])
    show thesis
    proof (cases "c = Inr True")
      case True
      with a g Inr c have k: "k w3 = (resp, w')" by (simp add: must_def handleE_def)
      from on_mz_Inr[OF g] Inr u1 have rp: "rp \<in> set (repos (m_db w))" "repo_name rp = normalizeRepoName (path_repo r)"
        by (auto dest!: GetRepo_Inr simp: untouched_def)
      from on_mz_Inr[OF c] True have "CanRead rp (userID u) (m_db w2) = (Inr True, m_db w3)" by simp
      from CanRead_True[OF this] u2 have p: "Public rp \<or> (\<exists>a \<in> set (acls (m_db w)). acl_repo a = repo_id rp \<and> acl_user a = userID u)"
        by (auto simp: untouched_def)
      show thesis
      proof (cases u)
        case None
        from on_mz_Inr[OF c] True None have "Public rp"
          by (auto simp: CanRead_def userID_def retE_def split: if_splits)
        with rp have "may_browse h nw r (m_db w) rp" by (simp add: may_browse_def)
        with u3 k that(2) show thesis by blast
      next
        case (Some x)
        from on_mz_Inr[OF v] Some have "signed_in h nw r (m_db w) x"
          by (auto simp: signed_in_def dest: viewer_Some)
        with p rp Some have "may_browse h nw r (m_db w) rp" by (auto simp: may_browse_def userID_def)
        with u3 k that(2) show thesis by blast
      qed
    next
      case False
      with a g Inr c have "resp \<in> browse_refusals r \<and> w' = w3"
        by (auto simp: must_def handleE_def refusal_defs split: sum.splits if_splits)
      with u3 that(1) show thesis by blast
    qed
  qed
qed

text \<open>
  C33. A page shows a repository only to whoever may read it: unless the repository that the URL
  names is public, or the session is one of a user with an access rule for it, every route of
  the browser answers with a refusal and leaves tables, store and cache alone. No failing
  statement opens a page.
\<close>

theorem pages_need_read:
  assumes "\<nexists>rp. may_browse h nw r (m_db w) rp" "serve_browse h nw a r w = (resp, w')"
  shows "resp \<in> browse_refusals r \<and> untouched w w'"
proof -
  obtain k where "serve_browse h nw a r = authorizeRead h nw r (path_repo r) k"
    using serve_browse_gated by blast
  with assms(2) have "authorizeRead h nw r (path_repo r) k w = (resp, w')" by simp
  then show ?thesis by (rule authorizeRead_cases) (use assms(1) in blast)+
qed

lemma viewer_anonymous:
  assumes "no_faults s" "\<nexists>u. signed_in h nw r s u"
  shows "viewer (st_ui h) nw None r s = (None, s)"
proof (cases "verify_session (ui_sess (st_ui h)) (session_cookie r) nw")
  case (Some i)
  have "GetUserByID i s = (Inl NotFound, s)"
  proof (cases "first_where (\<lambda>u. user_id u = i) (users s)")
    case None
    with assms(1) show ?thesis by (simp add: GetUserByID_def)
  next
    case (Some u)
    with first_where_Some[OF Some] assms(2) \<open>verify_session _ _ _ = Some i\<close> show ?thesis
      by (auto simp: signed_in_def)
  qed
  with Some show ?thesis by (simp add: viewer_def handleE_def)
qed (simp add: viewer_def)

lemma private_repo_hidden_lemma:
  assumes "no_faults (m_db w)" "\<nexists>u. signed_in h nw r (m_db w) u"
    and "\<nexists>rp. rp \<in> set (repos (m_db w)) \<and> repo_name rp = normalizeRepoName (path_repo r) \<and> Public rp"
  shows "serve_browse h nw a r w = denyUnauth r w"
proof -
  obtain k where k: "serve_browse h nw a r = authorizeRead h nw r (path_repo r) k"
    using serve_browse_gated by blast
  have v: "on_mz (viewer (st_ui h) nw None r) w = (None, w)"
    using viewer_anonymous[OF assms(1,2)] by (simp add: on_mz_def)
  show ?thesis
  proof (cases "first_where (\<lambda>x. repo_name x = normalizeRepoName (path_repo r)) (repos (m_db w))")
    case None
    then have "on_mz (GetRepo (path_repo r)) w = (Inl NotFound, w)"
      using assms(1) by (simp add: on_mz_def GetRepo_def)
    with k v show ?thesis by (simp add: authorizeRead_def handleE_def userID_def)
  next
    case (Some rp)
    then have g: "on_mz (GetRepo (path_repo r)) w = (Inr rp, w)"
      using assms(1) by (simp add: on_mz_def GetRepo_def)
    have "\<not> Public rp" using first_where_Some[OF Some] assms(3) by blast
    then have "on_mz (CanRead rp 0) w = (Inr False, w)" by (simp add: on_mz_def CanRead_def retE_def)
    with k v g show ?thesis by (simp add: authorizeRead_def handleE_def userID_def must_def)
  qed
qed


lemma sample_app_private:
  "\<nexists>rp. rp \<in> set (repos sample_db) \<and> repo_name rp = normalizeRepoName ''app'' \<and> Public rp"
  "normalizeRepoName ''app'' = ''app''"
proof -
  show n: "normalizeRepoName ''app'' = ''app''" by code_simp
  show "\<nexists>rp. rp \<in> set (repos sample_db) \<and> repo_name rp = normalizeRepoName ''app'' \<and> Public rp"
    unfolding n by (auto simp: sample_db_def Public_def VisibilityPublic_def)
qed


text \<open>Carol is signed in, but has no access rule for the private repository.\<close>

lemma pages_need_read_witness:
  "let r = sample_request (Some (ck_value (issue sample_sessions True 3 0))) [];
       (resp, w') = serve_browse sample_site 10 (BlobAt ''main/a.md'') r sample_mz
   in resp \<in> browse_refusals r \<and> untouched sample_mz w'"
proof -
  let ?r = "sample_request (Some (ck_value (issue sample_sessions True 3 0))) []"
  obtain resp w' where s: "serve_browse sample_site 10 (BlobAt ''main/a.md'') ?r sample_mz = (resp, w')"
    by (cases "serve_browse sample_site 10 (BlobAt ''main/a.md'') ?r sample_mz")
  have v: "verify_session sample_sessions (Some (ck_value (issue sample_sessions True 3 0))) 10 = Some 3"
    by (rule sample_session) (simp_all add: int64_def sessionTTL_def)
  have "\<not> may_browse sample_site 10 ?r (m_db sample_mz) rp" for rp
  proof
    assume m: "may_browse sample_site 10 ?r (m_db sample_mz) rp"
    then have "rp \<in> set (repos sample_db)" "repo_name rp = normalizeRepoName ''app''"
      by (simp_all add: may_browse_def sample_mz_def sample_request_def)
    with sample_app_private(1) have "\<not> Public rp" by blast
    with m have "\<exists>a \<in> set (acls sample_db). acl_user a = 3"
      by (auto simp: may_browse_def signed_in_def sample_mz_def sample_site_def sample_ui_def sample_request_def v)
    then show False by (simp add: sample_db_def)
  qed
  then have "\<nexists>rp. may_browse sample_site 10 ?r (m_db sample_mz) rp" by blast
  from pages_need_read[OF this s] show ?thesis unfolding Let_def s by simp
qed

end
