(* ===== verification/Report.thy ===== *)
theory Report
  imports MetaSecrets Store LiveLogs
begin

text \<open>
  \<open>internal/ci/report.go\<close>: the endpoints that a runner calls, and the sweep of stuck jobs.
  The state is the database, the object store and the live logs. A request is the header
  \<open>X-Worker-Secret\<close>, the path value \<open>id\<close>, the query value \<open>status\<close> and the body,
  \<open>None\<close> when reading it fails. The server takes every action of a request in one step;
  \<open>handleComplete\<close> is also given as its two halves, since nothing holds the rows between the
  reads and the writes.
\<close>

record 's ci_server =
  cdb :: db
  cstore :: 's
  clive :: LiveLogs

record jobSpec =
  js_job :: int
  js_run :: int
  js_repo :: string
  js_sha :: string
  js_ref :: string
  js_dir :: string

datatype ci_body = Message string | Spec jobSpec | OkTrue | NoContent

type_synonym ci_response = "nat \<times> ci_body"

definition workflowDir :: string where
  "workflowDir = ''.gitmote/workflows''"

definition liveLogTTL :: time where
  "liveLogTTL = 600"

section \<open>The order of outcomes\<close>

text \<open>A superseded job counts for nothing; of the other outcomes the later is the worse.\<close>

fun severity :: "run_status \<Rightarrow> nat" where
  "severity RunQueued = 0"
| "severity RunRunning = 1"
| "severity RunSuperseded = 2"
| "severity RunPassed = 3"
| "severity RunFailed = 4"
| "severity RunError = 5"

instantiation run_status :: linorder
begin

definition less_eq_run_status :: "run_status \<Rightarrow> run_status \<Rightarrow> bool" where
  "less_eq_run_status a b \<longleftrightarrow> severity a \<le> severity b"

definition less_run_status :: "run_status \<Rightarrow> run_status \<Rightarrow> bool" where
  "less_run_status a b \<longleftrightarrow> severity a < severity b"

instance
proof
  fix a b :: run_status
  assume "a \<le> b" "b \<le> a"
  then show "a = b" by (cases a; cases b) (simp_all add: less_eq_run_status_def)
qed (auto simp: less_eq_run_status_def less_run_status_def)

end

section \<open>Parts of a request\<close>

definition respond :: "nat \<Rightarrow> ci_body \<Rightarrow> 's \<Rightarrow> ci_response \<times> 's" where
  "respond code b s = ((code, b), s)"

definition on_cdb :: "'a dbop \<Rightarrow> 's ci_server \<Rightarrow> (meta_error + 'a) \<times> 's ci_server" where
  "on_cdb m s = (case m (cdb s) of (r, d) \<Rightarrow> (r, s\<lparr>cdb := d\<rparr>))"

definition on_cstore :: "('s \<Rightarrow> (store_error + 'a) \<times> 's) \<Rightarrow> 's ci_server \<Rightarrow> (store_error + 'a) \<times> 's ci_server" where
  "on_cstore m s = (case m (cstore s) of (r, d) \<Rightarrow> (r, s\<lparr>cstore := d\<rparr>))"

definition on_clive :: "(LiveLogs \<Rightarrow> LiveLogs) \<Rightarrow> 's ci_server \<Rightarrow> unit \<times> 's ci_server" where
  "on_clive f s = ((), s\<lparr>clive := f (clive s)\<rparr>)"

definition authed :: "string \<Rightarrow> bool \<Rightarrow> string \<Rightarrow> ci_response option" where
  "authed secret leader header =
     (if secret = [] \<or> header \<noteq> secret then Some (401, Message ''unauthorized'')
      else if \<not> leader then Some (503, Message ''not the writer; retry'')
      else None)"

definition jobID :: "string \<Rightarrow> int option" where
  "jobID pv = parse_int64 pv"

definition completionStatus :: "string \<Rightarrow> run_status option" where
  "completionStatus st = (if st = ''passed'' then Some RunPassed
     else if st = ''failed'' then Some RunFailed
     else if st = ''error'' then Some RunError else None)"

fun isTerminal :: "run_status \<Rightarrow> bool" where
  "isTerminal RunPassed = True"
| "isTerminal RunFailed = True"
| "isTerminal RunError = True"
| "isTerminal RunSuperseded = True"
| "isTerminal _ = False"

fun rollup_from :: "run_status \<Rightarrow> job list \<Rightarrow> run_status" where
  "rollup_from worst [] = worst"
| "rollup_from worst (j # js) =
     (if \<not> isTerminal (job_stat j) then RunRunning
      else rollup_from (case job_stat j of RunError \<Rightarrow> RunError
                        | RunFailed \<Rightarrow> (if worst \<noteq> RunError then RunFailed else worst)
                        | _ \<Rightarrow> worst) js)"

definition rollup :: "job list \<Rightarrow> run_status" where
  "rollup js = rollup_from RunPassed js"

definition rollupRun :: "int \<Rightarrow> time \<Rightarrow> 's ci_server \<Rightarrow> unit \<times> 's ci_server" where
  "rollupRun run now = handleE (on_cdb (ListJobs run)) (\<lambda>r. case r of
      Inl e \<Rightarrow> (\<lambda>s. ((), s))
    | Inr js \<Rightarrow> handleE (on_cdb (SetRunStatus run (rollup js) now)) (\<lambda>_ s. ((), s)))"

definition storeLog :: "'s store_ops \<Rightarrow> string \<Rightarrow> bytes option \<Rightarrow> 's ci_server \<Rightarrow> (store_error + unit) \<times> 's ci_server" where
  "storeLog S key body = (case map_option (take (logCap + 1)) body of
      None \<Rightarrow> errE StoreFailed
    | Some data \<Rightarrow> on_cstore (Put S key (Some
        (if length data > logCap then take logCap data @ logTruncationMarker else data))))"

section \<open>The endpoints\<close>

definition handleClaim :: "string \<Rightarrow> bool \<Rightarrow> time \<Rightarrow> string \<Rightarrow> string \<Rightarrow> 's ci_server \<Rightarrow> ci_response \<times> 's ci_server" where
  "handleClaim secret leader now header pv s = (case authed secret leader header of Some r \<Rightarrow> (r, s) | None \<Rightarrow>
     (case jobID pv of None \<Rightarrow> respond 400 (Message ''invalid job id'') s | Some i \<Rightarrow>
       lookupE (on_cdb (ClaimJob i now)) (respond 404 (Message ''job not found or not claimable''))
         (\<lambda>_. respond 500 (Message ''internal error''))
         (\<lambda>j. handleE (on_cdb (GetRun (job_run j))) (\<lambda>r. case r of
              Inl e \<Rightarrow> respond 500 (Message ''internal error'')
            | Inr rn \<Rightarrow> handleE (on_cdb (GetRepoByID (run_repo rn))) (\<lambda>r. case r of
                Inl e \<Rightarrow> respond 500 (Message ''internal error'')
              | Inr rp \<Rightarrow> respond 200 (Spec \<lparr>js_job = job_id j, js_run = run_id rn, js_repo = repo_name rp,
                    js_sha = run_sha rn, js_ref = run_ref rn, js_dir = workflowDir\<rparr>)))) s))"

definition logKey :: "run \<Rightarrow> job \<Rightarrow> string" where
  "logKey rn j = ''ci/'' @ format_int (run_repo rn) @ ''/'' @ format_int (run_id rn) @ ''/'' @
     format_int (job_id j) @ ''.log''"

definition complete_check :: "string \<Rightarrow> bool \<Rightarrow> string \<Rightarrow> string \<Rightarrow> string \<Rightarrow> 's ci_server
    \<Rightarrow> (ci_response + job \<times> run \<times> run_status) \<times> 's ci_server" where
  "complete_check secret leader header pv st s = (case authed secret leader header of Some r \<Rightarrow> (Inl r, s) | None \<Rightarrow>
     (case jobID pv of None \<Rightarrow> errE (400, Message ''invalid job id'') s | Some i \<Rightarrow>
       (case completionStatus st of None \<Rightarrow> errE (400, Message ''status must be passed, failed, or error'') s | Some status \<Rightarrow>
         lookupE (on_cdb (GetJob i)) (errE (404, Message ''job not found''))
           (\<lambda>_. errE (500, Message ''internal error''))
           (\<lambda>j. if isTerminal (job_stat j) then errE (200, OkTrue)
                else handleE (on_cdb (GetRun (job_run j))) (\<lambda>r. case r of
                     Inl e \<Rightarrow> errE (500, Message ''internal error'')
                   | Inr rn \<Rightarrow> retE (j, rn, status))) s)))"

definition complete_write :: "'s store_ops \<Rightarrow> time \<Rightarrow> bytes option \<Rightarrow> job \<times> run \<times> run_status
    \<Rightarrow> 's ci_server \<Rightarrow> ci_response \<times> 's ci_server" where
  "complete_write S now body = (\<lambda>(j, rn, status).
     handleE (storeLog S (logKey rn j) body) (\<lambda>r. case r of
         Inl e \<Rightarrow> respond 500 (Message ''internal error'')
       | Inr _ \<Rightarrow> handleE (on_cdb (SetJobResult (job_id j) status (logKey rn j) now)) (\<lambda>r. case r of
           Inl e \<Rightarrow> respond 500 (Message ''internal error'')
         | Inr _ \<Rightarrow> handleE (rollupRun (run_id rn) now) (\<lambda>_.
             handleE (on_clive (Finish (job_id j) now)) (\<lambda>_. respond 200 OkTrue)))))"

definition handleComplete :: "'s store_ops \<Rightarrow> string \<Rightarrow> bool \<Rightarrow> time \<Rightarrow> string \<Rightarrow> string \<Rightarrow> string \<Rightarrow> bytes option
    \<Rightarrow> 's ci_server \<Rightarrow> ci_response \<times> 's ci_server" where
  "handleComplete S secret leader now header pv st body =
     handleE (complete_check secret leader header pv st) (\<lambda>r. case r of
         Inl resp \<Rightarrow> (\<lambda>s. (resp, s))
       | Inr x \<Rightarrow> complete_write S now body x)"

definition handleLogChunk :: "string \<Rightarrow> bool \<Rightarrow> time \<Rightarrow> string \<Rightarrow> string \<Rightarrow> bytes option
    \<Rightarrow> 's ci_server \<Rightarrow> ci_response \<times> 's ci_server" where
  "handleLogChunk secret leader now header pv body s = (case authed secret leader header of Some r \<Rightarrow> (r, s) | None \<Rightarrow>
     (case jobID pv of None \<Rightarrow> respond 400 (Message ''invalid job id'') s | Some i \<Rightarrow>
       (case map_option (take logCap) body of None \<Rightarrow> respond 400 (Message ''read chunk'') s | Some chunk \<Rightarrow>
          handleE (on_clive (Append i chunk now)) (\<lambda>_. respond 204 NoContent) s)))"

fun reconcile_each :: "int list \<Rightarrow> time \<Rightarrow> 's ci_server \<Rightarrow> (meta_error + unit) \<times> 's ci_server" where
  "reconcile_each [] now = retE ()"
| "reconcile_each (i # is) now =
     handleE (on_cdb (GetJob i)) (\<lambda>r. case r of
         Inl e \<Rightarrow> reconcile_each is now
       | Inr j \<Rightarrow> handleE (rollupRun (job_run j) now) (\<lambda>_. reconcile_each is now))"

definition ReconcileStuck :: "bool \<Rightarrow> time \<Rightarrow> time \<Rightarrow> 's ci_server \<Rightarrow> (meta_error + unit) \<times> 's ci_server" where
  "ReconcileStuck leader maxAge now =
     (if \<not> leader then retE ()
      else handleE (on_clive (Sweep now liveLogTTL)) (\<lambda>_.
        bindE (on_cdb (SweepStuckJobs (now - maxAge) now)) (\<lambda>stuck. reconcile_each stuck now)))"

section \<open>The outcome of a run\<close>

lemma rollup_from_open: "\<exists>j \<in> set js. \<not> isTerminal (job_stat j) \<Longrightarrow> rollup_from w js = RunRunning"
  by (induction js arbitrary: w) auto

lemma rollup_from_max:
  "\<forall>j \<in> set js. isTerminal (job_stat j) \<Longrightarrow> RunPassed \<le> w \<Longrightarrow>
   rollup_from w js = Max (insert w (job_stat ` set js))"
proof (induction js arbitrary: w)
  case (Cons j js)
  let ?w = "case job_stat j of RunError \<Rightarrow> RunError
      | RunFailed \<Rightarrow> (if w \<noteq> RunError then RunFailed else w) | _ \<Rightarrow> w"
  have w: "?w = max w (job_stat j)"
    using Cons.prems by (cases "job_stat j"; cases w) (auto simp: max_def less_eq_run_status_def)
  have "rollup_from w (j # js) = rollup_from ?w js" using Cons.prems(1) by simp
  also have "\<dots> = rollup_from (max w (job_stat j)) js" by (simp only: w)
  also have "\<dots> = Max (insert (max w (job_stat j)) (job_stat ` set js))"
    by (rule Cons.IH) (use Cons.prems in \<open>auto simp: le_max_iff_disj\<close>)
  also have "\<dots> = Max (insert w (insert (job_stat j) (job_stat ` set js)))"
    by (cases "set js = {}") (simp_all add: max.assoc)
  finally show ?case by simp
qed simp

lemma rollup_max:
  "rollup js = (if \<forall>j \<in> set js. isTerminal (job_stat j)
     then Max (insert RunPassed (job_stat ` set js)) else RunRunning)"
  using rollup_from_max[of js RunPassed] rollup_from_open[of js RunPassed]
  by (simp add: rollup_def)

lemma rollup_cong: "set js = set ks \<Longrightarrow> rollup js = rollup ks"
  by (simp add: rollup_max)

text \<open>
  A run is running while one of its jobs is not finished, and otherwise has the worst of
  their outcomes, passed if there is none: the loop computes the maximum of the order above.
\<close>

theorem rollup_is_worst:
  "rollup js = (if \<forall>j \<in> set js. isTerminal (job_stat j)
     then Max (insert RunPassed (job_stat ` set js)) else RunRunning)"
  by (rule rollup_max)

lemma rollup_is_worst_witness:
  "rollup (map (\<lambda>st. \<lparr>job_id = 1, job_run = 1, job_name = ''build.yml'', job_stat = st, log_key = [],
      job_created = 0, job_updated = 0\<rparr>) [RunPassed, RunFailed, RunSuperseded]) = RunFailed"
proof -
  have "RunPassed \<le> RunFailed" "RunSuperseded \<le> RunFailed" by (simp_all add: less_eq_run_status_def)
  then have "Max {RunPassed, RunFailed, RunSuperseded} = RunFailed"
    by (intro Max_eqI) auto
  then show ?thesis by (subst rollup_is_worst) (simp add: insert_commute)
qed

section \<open>Sequences of requests\<close>

datatype ci_request =
    ReqClaim string string
  | ReqComplete string string string "bytes option"
  | ReqChunk string string "bytes option"
  | ReqReconcile time

fun serve :: "'s store_ops \<Rightarrow> string \<Rightarrow> ci_request \<times> bool \<times> time \<Rightarrow> 's ci_server \<Rightarrow> 's ci_server" where
  "serve S secret (ReqClaim header pv, leader, now) s = snd (handleClaim secret leader now header pv s)"
| "serve S secret (ReqComplete header pv st body, leader, now) s =
     snd (handleComplete S secret leader now header pv st body s)"
| "serve S secret (ReqChunk header pv body, leader, now) s = snd (handleLogChunk secret leader now header pv body s)"
| "serve S secret (ReqReconcile maxAge, leader, now) s = snd (ReconcileStuck leader maxAge now s)"

fun serve_all :: "'s store_ops \<Rightarrow> string \<Rightarrow> (ci_request \<times> bool \<times> time) list \<Rightarrow> 's ci_server \<Rightarrow> 's ci_server" where
  "serve_all S secret [] s = s"
| "serve_all S secret (x # xs) s = serve_all S secret xs (serve S secret x s)"

lemma keeps_respond [keeps_intro]: "keeps P (respond c b)"
  by (simp add: keeps_def respond_def)

lemma keeps_on_cdb: "keeps P m \<Longrightarrow> keeps (\<lambda>s. P (cdb s)) (on_cdb m)"
  by (auto simp: keeps_def on_cdb_def split: prod.splits)

lemma keeps_on_clive [keeps_intro]: "(\<And>s. P s \<Longrightarrow> P (s\<lparr>clive := f (clive s)\<rparr>)) \<Longrightarrow> keeps P (on_clive f)"
  by (simp add: keeps_def on_clive_def)

lemma keeps_cdb_on_cstore [keeps_intro]: "keeps (\<lambda>s. P (cdb s)) (on_cstore m)"
  by (auto simp: keeps_def on_cstore_def split: prod.splits)

text \<open>
  An invariant of the database that the single statements keep is kept by the sweep, by a
  claim, and by a log chunk; the writes of a completion are treated below.
\<close>

lemma keeps_rollupRun:
  assumes "\<And>st. keeps P (SetRunStatus run st now)" "fault_free P"
  shows "keeps (\<lambda>s. P (cdb s)) (rollupRun run now)"
  unfolding rollupRun_def
  by (intro keeps_handleE keeps_on_cdb keeps_ret keeps_sum assms(1))
    (simp add: ListJobs_def keeps_query assms(2))

lemma keeps_reconcile_each:
  assumes "\<And>run st. keeps P (SetRunStatus run st now)" "fault_free P"
  shows "keeps (\<lambda>s. P (cdb s)) (reconcile_each is now)"
proof (induction "is")
  case (Cons i "is")
  then show ?case
    by (auto intro!: keeps_handleE keeps_on_cdb keeps_rollupRun assms keeps_query_row
        split: sum.split simp: GetJob_def)
qed (simp add: keeps_retE)

lemma keeps_ReconcileStuck:
  assumes "\<And>run st. keeps P (SetRunStatus run st now)" "keeps P (SweepStuckJobs (now - maxAge) now)" "fault_free P"
  shows "keeps (\<lambda>s. P (cdb s)) (ReconcileStuck leader maxAge now)"
  unfolding ReconcileStuck_def
  by (intro keeps_if keeps_retE keeps_handleE keeps_bindE keeps_on_clive keeps_on_cdb keeps_reconcile_each assms) simp

lemma keeps_handleClaim:
  assumes "\<And>i. keeps P (ClaimJob i now)" "fault_free P" "P (cdb s)"
  shows "P (cdb (snd (handleClaim secret leader now header pv s)))"
proof -
  have "keeps (\<lambda>s. P (cdb s)) (lookupE (on_cdb (ClaimJob i now)) (respond 404 (Message ''job not found or not claimable''))
         (\<lambda>_. respond 500 (Message ''internal error''))
         (\<lambda>j. handleE (on_cdb (GetRun (job_run j))) (\<lambda>r. case r of
              Inl e \<Rightarrow> respond 500 (Message ''internal error'')
            | Inr rn \<Rightarrow> handleE (on_cdb (GetRepoByID (run_repo rn))) (\<lambda>r. case r of
                Inl e \<Rightarrow> respond 500 (Message ''internal error'')
              | Inr rp \<Rightarrow> respond 200 (Spec \<lparr>js_job = job_id j, js_run = run_id rn, js_repo = repo_name rp,
                    js_sha = run_sha rn, js_ref = run_ref rn, js_dir = workflowDir\<rparr>)))))" for i
    unfolding GetRun_def GetRepoByID_def
    by (intro keeps_lookupE keeps_handleE keeps_respond keeps_sum keeps_on_cdb keeps_query_row assms)
  from keepsD[OF this, OF assms(3)] assms(3) show ?thesis
    by (auto simp: handleClaim_def respond_def split: option.split)
qed

lemma handleLogChunk_cdb [simp]: "cdb (snd (handleLogChunk secret leader now header pv body s)) = cdb s"
  "cstore (snd (handleLogChunk secret leader now header pv body s)) = cstore s"
  by (auto simp: handleLogChunk_def respond_def handleE_def on_clive_def split: option.split)

lemma on_cdb_query_row:
  "on_cdb (query_row f) s = (r, t) \<Longrightarrow> \<exists>fs. t = s\<lparr>cdb := (cdb s)\<lparr>faults := fs\<rparr>\<rparr> \<and>
     (case r of Inr x \<Rightarrow> f ((cdb s)\<lparr>faults := fs\<rparr>) = Some x | Inl e \<Rightarrow> True)"
proof -
  assume a: "on_cdb (query_row f) s = (r, t)"
  then obtain d where d: "query_row f (cdb s) = (r, d)" "t = s\<lparr>cdb := d\<rparr>"
    by (auto simp: on_cdb_def split: prod.splits)
  obtain fs where "query_row f (cdb s) = (Inl DbError, (cdb s)\<lparr>faults := fs\<rparr>) \<or>
      query_row f (cdb s) = (case f ((cdb s)\<lparr>faults := fs\<rparr>) of None \<Rightarrow> Inl NotFound | Some x \<Rightarrow> Inr x,
        (cdb s)\<lparr>faults := fs\<rparr>)"
    using sql_outcome unfolding query_row_def by blast
  with d show ?thesis by (intro exI[of _ fs]) (auto split: option.splits)
qed

lemma complete_check_state:
  assumes "complete_check secret leader header pv st s = (r, t)"
  shows "\<exists>fs. t = s\<lparr>cdb := (cdb s)\<lparr>faults := fs\<rparr>\<rparr>"
proof -
  have same: "\<exists>fs. s = s\<lparr>cdb := (cdb s)\<lparr>faults := fs\<rparr>\<rparr>" by (rule exI[of _ "faults (cdb s)"]) simp
  show ?thesis
  proof (cases "authed secret leader header = None \<and> jobID pv \<noteq> None \<and> completionStatus st \<noteq> None")
    case False
    with assms same show ?thesis by (auto simp: complete_check_def errE_def split: option.splits)
  next
    case True
    then obtain i status where i: "authed secret leader header = None" "jobID pv = Some i" "completionStatus st = Some status"
      by auto
    from assms[unfolded complete_check_def i option.case] show ?thesis
    proof (cases rule: lookupE_cases)
      case (1 j u)
      from on_cdb_query_row[OF 1(1)[unfolded GetJob_def]] obtain fs where u: "u = s\<lparr>cdb := (cdb s)\<lparr>faults := fs\<rparr>\<rparr>" by auto
      show ?thesis
      proof (cases "isTerminal (job_stat j)")
        case False
        obtain r' v where v: "on_cdb (GetRun (job_run j)) u = (r', v)" by fastforce
        from on_cdb_query_row[OF v[unfolded GetRun_def]] obtain gs where "v = u\<lparr>cdb := (cdb u)\<lparr>faults := gs\<rparr>\<rparr>" by auto
        with 1(2) False v u show ?thesis
          by (auto simp: handleE_def errE_def retE_def split: sum.splits)
      qed (use 1 u in \<open>auto simp: errE_def\<close>)
    next
      case (2 u)
      with on_cdb_query_row[OF 2(1)[unfolded GetJob_def]] show ?thesis by (auto simp: errE_def)
    next
      case (3 e u)
      with on_cdb_query_row[OF 3(1)[unfolded GetJob_def]] show ?thesis by (auto simp: errE_def)
    qed
  qed
qed

lemma complete_check_Inr:
  assumes "complete_check secret leader header pv st s = (Inr (j, rn, status), t)"
  shows "authed secret leader header = None" "jobID pv = Some (job_id j)" "completionStatus st = Some status"
    "first_where (\<lambda>x. job_id x = job_id j) (jobs (cdb s)) = Some j" "\<not> isTerminal (job_stat j)"
    "first_where (\<lambda>x. run_id x = job_run j) (runs (cdb s)) = Some rn"
proof -
  from assms obtain i where i: "authed secret leader header = None" "jobID pv = Some i" "completionStatus st = Some status"
    by (auto simp: complete_check_def errE_def lookupE_def handleE_def retE_def
        split: option.splits prod.splits sum.splits if_splits)
  have key: "\<not> isTerminal (job_stat j) \<and> first_where (\<lambda>x. job_id x = i) (jobs (cdb s)) = Some j \<and>
      first_where (\<lambda>x. run_id x = job_run j) (runs (cdb s)) = Some rn"
    using assms[unfolded complete_check_def i option.case]
  proof (cases rule: lookupE_cases)
    case (1 j' u)
    from on_cdb_query_row[OF 1(1)[unfolded GetJob_def]] obtain fs where u: "u = s\<lparr>cdb := (cdb s)\<lparr>faults := fs\<rparr>\<rparr>"
      "first_where (\<lambda>x. job_id x = i) (jobs (cdb s)) = Some j'" by auto
    obtain r' v where v: "on_cdb (GetRun (job_run j')) u = (r', v)" by fastforce
    with 1(2) have jj: "\<not> isTerminal (job_stat j')" "r' = Inr rn" "j' = j"
      by (auto simp: handleE_def errE_def retE_def split: sum.splits if_splits)
    from on_cdb_query_row[OF v[unfolded GetRun_def]] jj u show ?thesis by auto
  qed (auto simp: errE_def)
  then have "job_id j = i" by (auto dest: first_where_Some)
  with key i show "authed secret leader header = None" "jobID pv = Some (job_id j)" "completionStatus st = Some status"
    "first_where (\<lambda>x. job_id x = job_id j) (jobs (cdb s)) = Some j" "\<not> isTerminal (job_stat j)"
    "first_where (\<lambda>x. run_id x = job_run j) (runs (cdb s)) = Some rn" by auto
qed

section \<open>A finished job stays as it is\<close>

definition job_is :: "int \<Rightarrow> run_status \<Rightarrow> string \<Rightarrow> db \<Rightarrow> bool" where
  "job_is i st key d \<longleftrightarrow> (\<exists>j \<in> set (jobs d). job_id j = i) \<and>
     (\<forall>j \<in> set (jobs d). job_id j = i \<longrightarrow> job_stat j = st \<and> log_key j = key)"

lemma job_is_fault_free: "fault_free (job_is i st key)"
  by (simp add: fault_free_def job_is_def)

lemma job_is_faults [simp]: "job_is i st key (d\<lparr>faults := fs\<rparr>) = job_is i st key d"
  by (simp add: job_is_def)

lemma job_is_update:
  assumes "\<And>j. job_id (f j) = job_id j"
    "\<And>j. P j \<Longrightarrow> job_id j = i \<Longrightarrow> job_stat j = st \<Longrightarrow> job_stat (f j) = st \<and> log_key (f j) = log_key j"
    "job_is i st key d"
  shows "job_is i st key (d\<lparr>jobs := update_where P f (jobs d)\<rparr>)"
proof -
  have "\<exists>j \<in> set (update_where P f (jobs d)). job_id j = i"
    by (rule ex_key_update_where) (use assms(1,3) in \<open>auto simp: job_is_def\<close>)
  then show ?thesis using assms by (auto simp: job_is_def set_update_where)
qed

lemma keeps_job_is_update:
  assumes "\<And>j. job_id (f j) = job_id j"
    "\<And>j. P j \<Longrightarrow> job_id j = i \<Longrightarrow> job_stat j = st \<Longrightarrow> job_stat (f j) = st \<and> log_key (f j) = log_key j"
  shows "keeps (job_is i st key) (update_jobs P f)"
    "keeps (job_is i st key) (sql (\<lambda>s. (Inr (), s\<lparr>jobs := update_where P f (jobs s)\<rparr>)))"
  unfolding update_jobs_def
  by (intro keeps_sql job_is_fault_free keepsI, simp add: job_is_update assms)+

lemma keeps_job_is_sweepLoop:
  assumes "isTerminal st"
  shows "keeps (job_is i st key) (sweepLoop is ts)"
proof (induction "is")
  case (Cons n "is")
  have "keeps (job_is i st key) (sql (\<lambda>s. (Inr (), s\<lparr>jobs := update_where
      (\<lambda>j. job_id j = n \<and> job_stat j = RunRunning) (\<lambda>j. j\<lparr>job_stat := RunError, job_updated := ts\<rparr>) (jobs s)\<rparr>)))"
    by (rule keeps_job_is_update) (use assms in auto)
  with Cons show ?case by (simp add: keeps_bindE)
qed (simp add: keeps_retE)

lemma keeps_job_is:
  assumes "isTerminal st"
  shows "keeps (job_is i st key) (ClaimJob n ts)" "keeps (job_is i st key) (SweepStuckJobs c ts)"
    "keeps (job_is i st key) (SetRunStatus run st' ts)"
    "n \<noteq> i \<Longrightarrow> keeps (job_is i st key) (SetJobResult n st' key' ts)"
proof -
  show "keeps (job_is i st key) (ClaimJob n ts)"
    unfolding ClaimJob_def GetJob_def
    by (intro keeps_bindE keeps_job_is_update keeps_query_row job_is_fault_free) (use assms in auto)
  show "keeps (job_is i st key) (SweepStuckJobs c ts)"
    unfolding SweepStuckJobs_def
    by (intro keeps_bindE keeps_query keeps_job_is_sweepLoop keeps_retE job_is_fault_free assms)
  show "keeps (job_is i st key) (SetRunStatus run st' ts)"
    unfolding SetRunStatus_def update_runs_def
    by (intro keeps_sql job_is_fault_free keepsI) (simp add: job_is_def)
  show "n \<noteq> i \<Longrightarrow> keeps (job_is i st key) (SetJobResult n st' key' ts)"
    unfolding SetJobResult_def by (rule keeps_job_is_update) auto
qed

lemma keeps_storeLog: "keeps (\<lambda>s. P (cdb s)) (storeLog S key body)"
  unfolding storeLog_def by (auto intro!: keeps_errE keeps_cdb_on_cstore split: option.split)

lemma keeps_complete_write:
  assumes "keeps P (SetJobResult (job_id j) status (logKey rn j) now)"
    "\<And>run st. keeps P (SetRunStatus run st now)" "fault_free P"
  shows "keeps (\<lambda>s. P (cdb s)) (complete_write S now body (j, rn, status))"
  unfolding complete_write_def prod.case
  by (intro keeps_handleE keeps_storeLog keeps_sum keeps_respond keeps_on_cdb keeps_rollupRun keeps_on_clive assms) simp

lemma handleComplete_cases:
  obtains r fs where "handleComplete S secret leader now header pv st body s = (r, s\<lparr>cdb := (cdb s)\<lparr>faults := fs\<rparr>\<rparr>)"
  | j rn status fs where "complete_check secret leader header pv st s = (Inr (j, rn, status), s\<lparr>cdb := (cdb s)\<lparr>faults := fs\<rparr>\<rparr>)"
      "handleComplete S secret leader now header pv st body s =
       complete_write S now body (j, rn, status) (s\<lparr>cdb := (cdb s)\<lparr>faults := fs\<rparr>\<rparr>)"
proof -
  obtain r t where c: "complete_check secret leader header pv st s = (r, t)" by fastforce
  from complete_check_state[OF c] obtain fs where t: "t = s\<lparr>cdb := (cdb s)\<lparr>faults := fs\<rparr>\<rparr>" by blast
  show thesis
  proof (cases r)
    case (Inl resp)
    with c t that(1) show thesis by (simp add: handleComplete_def handleE_def)
  next
    case (Inr x)
    obtain j rn status where "x = (j, rn, status)" by (cases x) auto
    with c t Inr that(2) show thesis by (simp add: handleComplete_def handleE_def)
  qed
qed

lemma serve_keeps_job_is:
  assumes "isTerminal st" "job_is i st key (cdb s)"
  shows "job_is i st key (cdb (serve S secret x s))"
proof -
  obtain req leader now where x: "x = (req, leader, now)" by (cases x) auto
  show ?thesis
  proof (cases req)
    case (ReqClaim header pv)
    then show ?thesis
      using keeps_handleClaim[OF keeps_job_is(1)[OF assms(1)] job_is_fault_free assms(2)] by (simp add: x)
  next
    case (ReqComplete header pv st' body)
    show ?thesis
    proof (cases rule: handleComplete_cases[of S secret leader now header pv st' body s])
      case (1 r fs)
      with ReqComplete assms(2) show ?thesis by (simp add: x job_is_def)
    next
      case (2 j rn status fs)
      from complete_check_Inr(4,5)[OF 2(1)] assms have "job_id j \<noteq> i"
        by (auto simp: job_is_def dest: first_where_Some)
      then have "keeps (\<lambda>s. job_is i st key (cdb s)) (complete_write S now body (j, rn, status))"
        by (intro keeps_complete_write keeps_job_is assms(1) job_is_fault_free)
      from keepsD[OF this] assms(2) show ?thesis by (simp add: x ReqComplete 2(2))
    qed
  next
    case (ReqReconcile maxAge)
    have "keeps (\<lambda>s. job_is i st key (cdb s)) (ReconcileStuck leader maxAge now)"
      by (intro keeps_ReconcileStuck keeps_job_is assms(1) job_is_fault_free)
    from keepsD[OF this, OF assms(2)] show ?thesis by (simp add: x ReqReconcile)
  qed (use assms in \<open>simp add: x\<close>)
qed

text \<open>
  C23. A finished job never changes: whatever requests runners, strangers and the sweep make
  after it, in any order and with any failure of the database or the store, its status and
  the key of its log stay. A request is served as one step here; see below for two at once.
\<close>

theorem finished_job_stays:
  assumes "isTerminal st" "job_is i st key (cdb s)"
  shows "job_is i st key (cdb (serve_all S secret xs s))"
  using assms(2) by (induction xs arbitrary: s) (auto intro: serve_keeps_job_is[OF assms(1)])

definition sample_ci :: "mem ci_server" where
  "sample_ci = \<lparr>cdb = sample_db, cstore = [], clive = \<lparr>live_jobs = Map.empty, live_cap = logCap\<rparr>\<rparr>"

definition finished_ci :: "mem ci_server" where
  "finished_ci = sample_ci\<lparr>cdb := sample_db\<lparr>jobs := [\<lparr>job_id = 1, job_run = 1, job_name = ''build.yml'',
     job_stat = RunPassed, log_key = ''ci/2/1/1.log'', job_created = 0, job_updated = 3\<rparr>]\<rparr>\<rparr>"

lemma finished_job_stays_witness:
  "job_is 1 RunPassed ''ci/2/1/1.log'' (cdb (serve_all Mem ''s3cret''
     [(ReqComplete ''s3cret'' ''1'' ''failed'' (Some ''boom''), True, 5), (ReqClaim ''s3cret'' ''1'', True, 6),
      (ReqReconcile 1, True, 90)] finished_ci))"
proof -
  have "job_is 1 RunPassed ''ci/2/1/1.log'' (cdb finished_ci)"
    by (simp add: job_is_def finished_ci_def)
  then show ?thesis by (intro finished_job_stays) simp_all
qed

section \<open>The log before the row\<close>

definition logged :: "string set \<Rightarrow> db \<Rightarrow> bool" where
  "logged ks d \<longleftrightarrow> (\<forall>j \<in> set (jobs d). log_key j = [] \<or> log_key j \<in> ks)"

definition stored_keys :: "('s \<Rightarrow> string \<Rightarrow> bytes option) \<Rightarrow> 's \<Rightarrow> string set" where
  "stored_keys contents st = {k. contents st k \<noteq> None}"

lemma logged_fault_free: "fault_free (logged ks)"
  by (simp add: fault_free_def logged_def)

lemma logged_faults [simp]: "logged ks (d\<lparr>faults := fs\<rparr>) = logged ks d"
  by (simp add: logged_def)

lemma logged_mono: "logged ks d \<Longrightarrow> ks \<subseteq> ls \<Longrightarrow> logged ls d"
  by (auto simp: logged_def)

lemma keeps_logged_update:
  assumes "\<And>j. log_key (f j) = log_key j \<or> log_key (f j) \<in> ks"
  shows "keeps (logged ks) (update_jobs P f)"
    "keeps (logged ks) (sql (\<lambda>s. (Inr (), s\<lparr>jobs := update_where P f (jobs s)\<rparr>)))"
proof -
  have u: "logged ks (d\<lparr>jobs := update_where P f (jobs d)\<rparr>)" if "logged ks d" for d
    unfolding logged_def
  proof
    fix j assume "j \<in> set (jobs (d\<lparr>jobs := update_where P f (jobs d)\<rparr>))"
    then have "j \<in> set (update_where P f (jobs d))" by simp
    then obtain r where "r \<in> set (jobs d)" "j = (if P r then f r else r)" by (rule in_update_where)
    with that assms[of r] show "log_key j = [] \<or> log_key j \<in> ks" by (auto simp: logged_def)
  qed
  show "keeps (logged ks) (update_jobs P f)"
    "keeps (logged ks) (sql (\<lambda>s. (Inr (), s\<lparr>jobs := update_where P f (jobs s)\<rparr>)))"
    unfolding update_jobs_def by (intro keeps_sql logged_fault_free keepsI, simp add: u)+
qed

lemma keeps_logged:
  "keeps (logged ks) (ClaimJob n ts)" "keeps (logged ks) (SweepStuckJobs c ts)"
  "keeps (logged ks) (SetRunStatus run st ts)"
  "key \<in> ks \<Longrightarrow> keeps (logged ks) (SetJobResult n st' key ts)"
proof -
  show "keeps (logged ks) (ClaimJob n ts)"
    unfolding ClaimJob_def GetJob_def
    by (intro keeps_bindE keeps_logged_update keeps_query_row logged_fault_free) simp
  have "keeps (logged ks) (sweepLoop is ts)" for "is"
    by (induction "is") (auto intro!: keeps_retE keeps_bindE keeps_logged_update)
  then show "keeps (logged ks) (SweepStuckJobs c ts)"
    unfolding SweepStuckJobs_def by (intro keeps_bindE keeps_query keeps_retE logged_fault_free)
  show "keeps (logged ks) (SetRunStatus run st ts)"
    unfolding SetRunStatus_def update_runs_def
    by (intro keeps_sql logged_fault_free keepsI) (simp add: logged_def)
  show "key \<in> ks \<Longrightarrow> keeps (logged ks) (SetJobResult n st' key ts)"
    unfolding SetJobResult_def by (rule keeps_logged_update) simp
qed

lemma keeps_cstore:
  "keeps (\<lambda>s. cstore s = c) (on_cdb m)" "keeps (\<lambda>s. cstore s = c) (on_clive f)"
  by (auto simp: keeps_def on_cdb_def on_clive_def split: prod.split)

lemma keeps_cstore_rollup: "keeps (\<lambda>s. cstore s = c) (rollupRun run now)"
  unfolding rollupRun_def by (intro keeps_handleE keeps_cstore keeps_sum keeps_ret)

lemma reconcile_store: "cstore (snd (ReconcileStuck leader maxAge now s)) = cstore s"
proof -
  have each: "keeps (\<lambda>s. cstore s = c) (reconcile_each is now)" for "is" and c :: 'a
    by (induction "is") (auto intro!: keeps_retE keeps_handleE keeps_cstore keeps_cstore_rollup split: sum.split)
  have "keeps (\<lambda>t. cstore t = cstore s) (ReconcileStuck leader maxAge now)"
    unfolding ReconcileStuck_def
    by (intro keeps_if keeps_retE keeps_handleE keeps_bindE keeps_cstore each)
  from keepsD[OF this] show ?thesis by simp
qed

lemma claim_store: "cstore (snd (handleClaim secret leader now header pv s)) = cstore s"
  by (auto simp: handleClaim_def respond_def lookupE_def handleE_def on_cdb_def
      split: option.split prod.split sum.split)

lemma capped_read:
  "(if length (take (n + 1) b) > n then take n (take (n + 1) b) @ logTruncationMarker else take (n + 1) b) = capped n b"
  by (auto simp: capped_def min_def)

lemma storeLog_outcome:
  assumes "object_store contents S" "storeLog S key body s = (r, t)"
  shows "cdb t = cdb s \<and> stored_keys contents (cstore s) \<subseteq> stored_keys contents (cstore t) \<and>
    (case r of Inl e \<Rightarrow> True | Inr _ \<Rightarrow> \<exists>b. body = Some b \<and> contents (cstore t) = (contents (cstore s))(key \<mapsto> capped logCap b))"
proof (cases body)
  case None
  with assms(2) show ?thesis by (auto simp: storeLog_def errE_def)
next
  case (Some b)
  then have "storeLog S key body s = on_cstore (Put S key (Some (capped logCap b))) s"
    by (simp only: storeLog_def option.map option.case capped_read)
  with assms(2) obtain u where u: "Put S key (Some (capped logCap b)) (cstore s) = (r, u)" "t = s\<lparr>cstore := u\<rparr>"
    by (auto simp: on_cstore_def split: prod.splits)
  then have "stored_keys contents (cstore s) \<subseteq> stored_keys contents u"
    using object_store.put_grows[OF assms(1) u(1)] by (auto simp: stored_keys_def)
  with u object_store.put_ok[OF assms(1)] Some show ?thesis by (auto split: sum.split)
qed

lemma serve_keeps_logged:
  assumes "object_store contents S" "logged (stored_keys contents (cstore s)) (cdb s)"
  shows "logged (stored_keys contents (cstore (serve S secret x s))) (cdb (serve S secret x s))"
proof -
  obtain req leader now where x: "x = (req, leader, now)" by (cases x) auto
  let ?ks = "stored_keys contents (cstore s)"
  show ?thesis
  proof (cases req)
    case (ReqClaim header pv)
    from keeps_handleClaim[OF keeps_logged(1) logged_fault_free assms(2)]
    show ?thesis by (simp add: x ReqClaim claim_store)
  next
    case (ReqReconcile maxAge)
    have "keeps (\<lambda>s. logged ?ks (cdb s)) (ReconcileStuck leader maxAge now)"
      by (intro keeps_ReconcileStuck keeps_logged logged_fault_free)
    from keepsD[OF this, OF assms(2)] show ?thesis by (simp add: x ReqReconcile reconcile_store)
  next
    case (ReqComplete header pv st body)
    show ?thesis
    proof (cases rule: handleComplete_cases[of S secret leader now header pv st body s])
      case (1 r fs)
      with assms(2) show ?thesis by (simp add: x ReqComplete)
    next
      case (2 j rn status fs)
      let ?s = "s\<lparr>cdb := (cdb s)\<lparr>faults := fs\<rparr>\<rparr>"
      obtain r u where l: "storeLog S (logKey rn j) body ?s = (r, u)" by fastforce
      note out = storeLog_outcome[OF assms(1) l]
      have lu: "logged (stored_keys contents (cstore u)) (cdb u)"
        using out assms(2) by (auto intro: logged_mono)
      show ?thesis
      proof (cases r)
        case (Inl e)
        with l 2(2) lu show ?thesis by (simp add: x ReqComplete complete_write_def handleE_def respond_def)
      next
        case (Inr y)
        let ?rest = "handleE (on_cdb (SetJobResult (job_id j) status (logKey rn j) now)) (\<lambda>r. case r of
           Inl e \<Rightarrow> respond 500 (Message ''internal error'')
         | Inr _ \<Rightarrow> handleE (rollupRun (run_id rn) now) (\<lambda>_.
             handleE (on_clive (Finish (job_id j) now)) (\<lambda>_. respond 200 OkTrue)))"
        have w: "complete_write S now body (j, rn, status) ?s = ?rest u"
          using l Inr by (simp add: complete_write_def handleE_def)
        have "logKey rn j \<in> stored_keys contents (cstore u)" using out Inr by (auto simp: stored_keys_def)
        then have "keeps (\<lambda>t. logged (stored_keys contents (cstore u)) (cdb t)) ?rest"
          by (intro keeps_handleE keeps_sum keeps_respond keeps_on_cdb keeps_rollupRun keeps_on_clive
              keeps_logged logged_fault_free) simp_all
        from keepsD[OF this, OF lu] have "logged (stored_keys contents (cstore u)) (cdb (snd (?rest u)))" .
        moreover have "keeps (\<lambda>t. cstore t = cstore u) ?rest"
          by (intro keeps_handleE keeps_cstore keeps_cstore_rollup keeps_sum keeps_respond)
        from keepsD[OF this] have "cstore (snd (?rest u)) = cstore u" by simp
        ultimately show ?thesis by (simp add: x ReqComplete 2(2) w)
      qed
    qed
  qed (use assms(2) in \<open>simp add: x\<close>)
qed

text \<open>
  Content before pointer: however requests and sweeps follow each other and whatever fails,
  a job row that names a log names one that is in the store.
\<close>

theorem log_before_row:
  assumes "object_store contents S" "logged (stored_keys contents (cstore s)) (cdb s)"
  shows "logged (stored_keys contents (cstore (serve_all S secret xs s))) (cdb (serve_all S secret xs s))"
  using assms(2) by (induction xs arbitrary: s) (auto intro: serve_keeps_logged[OF assms(1)])

lemma log_before_row_witness:
  "logged (stored_keys map_of (cstore (serve_all Mem ''s3cret''
     [(ReqClaim ''s3cret'' ''1'', True, 4), (ReqComplete ''s3cret'' ''1'' ''passed'' (Some ''ok''), True, 5),
      (ReqComplete ''s3cret'' ''2'' ''failed'' None, True, 6)] sample_ci)))
     (cdb (serve_all Mem ''s3cret''
     [(ReqClaim ''s3cret'' ''1'', True, 4), (ReqComplete ''s3cret'' ''1'' ''passed'' (Some ''ok''), True, 5),
      (ReqComplete ''s3cret'' ''2'' ''failed'' None, True, 6)] sample_ci))"
  by (rule log_before_row[OF mem.object_store_axioms]) (simp add: logged_def sample_ci_def sample_db_def)

section \<open>A completion\<close>

definition run_status_of :: "db \<Rightarrow> int \<Rightarrow> run_status option" where
  "run_status_of d i = map_option run_stat (first_where (\<lambda>r. run_id r = i) (runs d))"

lemma on_cdb_no_faults:
  "no_faults (cdb s) \<Longrightarrow> on_cdb (query_row f) s = (case f (cdb s) of None \<Rightarrow> Inl NotFound | Some x \<Rightarrow> Inr x, s)"
  "no_faults (cdb s) \<Longrightarrow> on_cdb (query g) s = (Inr (g (cdb s)), s)"
  by (simp_all add: on_cdb_def)

lemma SetRunStatus_ok:
  assumes "no_faults d" "first_where (\<lambda>r. run_id r = i) (runs d) = Some rn"
  shows "fst (SetRunStatus i st now d) = Inr ()" "jobs (snd (SetRunStatus i st now d)) = jobs d"
    "run_status_of (snd (SetRunStatus i st now d)) i = Some st" "no_faults (snd (SetRunStatus i st now d))"
proof -
  let ?rows = "update_where (\<lambda>r. run_id r = i) (\<lambda>r. r\<lparr>run_stat := st, run_updated := now\<rparr>) (runs d)"
  have "\<exists>r \<in> set (runs d). run_id r = i" using assms(2) by (auto dest: first_where_Some)
  with assms(1) have e: "SetRunStatus i st now d = (Inr (), d\<lparr>runs := ?rows\<rparr>)"
    by (simp add: SetRunStatus_def update_runs_def)
  have "first_where (\<lambda>r. run_id r = i) ?rows =
      map_option (\<lambda>r. if run_id r = i then r\<lparr>run_stat := st, run_updated := now\<rparr> else r) (first_where (\<lambda>r. run_id r = i) (runs d))"
    by (rule first_where_update_where) simp
  moreover have "run_id rn = i" using assms(2) by (auto dest: first_where_Some)
  ultimately show "fst (SetRunStatus i st now d) = Inr ()" "jobs (snd (SetRunStatus i st now d)) = jobs d"
    "run_status_of (snd (SetRunStatus i st now d)) i = Some st" "no_faults (snd (SetRunStatus i st now d))"
    using assms e by (simp_all add: run_status_of_def no_faults_def)
qed

lemma rollupRun_ok:
  assumes "no_faults (cdb s)" "first_where (\<lambda>r. run_id r = i) (runs (cdb s)) = Some rn" "rollupRun i now s = (u, t)"
  shows "jobs (cdb t) = jobs (cdb s)" "cstore t = cstore s"
    "run_status_of (cdb t) i = Some (rollup (filter (\<lambda>j. job_run j = i) (jobs (cdb s))))"
proof -
  let ?js = "filter (\<lambda>j. job_run j = i) (jobs (cdb s))"
  have r: "rollup (sort_key job_id ?js) = rollup ?js" by (rule rollup_cong) simp
  have "t = s\<lparr>cdb := snd (SetRunStatus i (rollup ?js) now (cdb s))\<rparr>"
    using assms(1,3) r SetRunStatus_ok(1)[OF assms(1,2), of "rollup ?js" now]
    by (auto simp: rollupRun_def handleE_def ListJobs_def on_cdb_no_faults on_cdb_def split: prod.splits)
  with SetRunStatus_ok[OF assms(1,2), of "rollup ?js" now]
  show "jobs (cdb t) = jobs (cdb s)" "cstore t = cstore s"
    "run_status_of (cdb t) i = Some (rollup ?js)" by simp_all
qed

lemma SetJobResult_sets:
  assumes "SetJobResult i st key now d = (Inr (), d')"
  shows "job_is i st key d'" "runs d' = runs d" "no_faults d \<Longrightarrow> no_faults d'"
proof -
  let ?f = "\<lambda>j. j\<lparr>job_stat := st, log_key := key, job_updated := now\<rparr>"
  from update_jobs_Inr[OF assms[unfolded SetJobResult_def]] obtain fs where
    ex: "\<exists>j \<in> set (jobs d). job_id j = i" and d': "d' = d\<lparr>faults := fs, jobs := update_where (\<lambda>j. job_id j = i) ?f (jobs d)\<rparr>"
    by blast
  have "\<exists>j \<in> set (update_where (\<lambda>j. job_id j = i) ?f (jobs d)). job_id j = i"
    by (rule ex_key_update_where) (use ex in auto)
  moreover have "job_stat j = st \<and> log_key j = key"
    if "j \<in> set (update_where (\<lambda>j. job_id j = i) ?f (jobs d))" "job_id j = i" for j
    using that by (elim in_update_where) (simp split: if_splits)
  ultimately show "job_is i st key d'" by (simp add: d' job_is_def)
  show "runs d' = runs d" by (simp add: d')
  show "no_faults d \<Longrightarrow> no_faults d'"
    using assms by (auto simp: SetJobResult_def update_jobs_def no_faults_def sql_def split: if_splits)
qed



text \<open>
  The check and the write of a completion are two steps, and the database does not tie them
  together: when two completions of a job are checked before either is written, both are
  accepted, and the job that was recorded as passed becomes failed.
\<close>

lemma completions_race:
  assumes "no_faults (cdb s)" "SetJobResult i RunPassed k now (cdb s) = (Inr (), d)"
    "SetJobResult i RunFailed k' now' d = (Inr (), d')"
  shows "job_is i RunPassed k d" "job_is i RunFailed k' d'"
  using SetJobResult_sets(1)[OF assms(2)] SetJobResult_sets(1)[OF assms(3)] by simp_all

section \<open>Stuck jobs\<close>

lemma sweepLoop_jobs:
  "no_faults d \<Longrightarrow> sweepLoop is now d = (Inr (), d\<lparr>jobs := update_where
     (\<lambda>j. job_id j \<in> set is \<and> job_stat j = RunRunning) (\<lambda>j. j\<lparr>job_stat := RunError, job_updated := now\<rparr>) (jobs d)\<rparr>)"
proof (induction "is" arbitrary: d)
  case Nil
  show ?case by (simp add: retE_def update_where_def)
next
  case (Cons i "is")
  let ?f = "\<lambda>j. j\<lparr>job_stat := RunError, job_updated := now\<rparr>"
  let ?d = "d\<lparr>jobs := update_where (\<lambda>j. job_id j = i \<and> job_stat j = RunRunning) ?f (jobs d)\<rparr>"
  have nf: "no_faults ?d" using Cons.prems by (simp add: no_faults_def)
  have "sweepLoop (i # is) now d = sweepLoop is now ?d" using Cons.prems by (simp add: bindE_def)
  also have "\<dots> = (Inr (), ?d\<lparr>jobs := update_where
     (\<lambda>j. job_id j \<in> set is \<and> job_stat j = RunRunning) ?f (jobs ?d)\<rparr>)" by (rule Cons.IH[OF nf])
  also have "update_where (\<lambda>j. job_id j \<in> set is \<and> job_stat j = RunRunning) ?f (jobs ?d) =
      update_where (\<lambda>j. job_id j \<in> set (i # is) \<and> job_stat j = RunRunning) ?f (jobs d)"
    by (auto simp: update_where_def)
  finally show ?case by simp
qed

lemma keeps_jobs_SetRunStatus: "keeps (\<lambda>d. jobs d = J) (SetRunStatus run st now)"
  unfolding SetRunStatus_def update_runs_def
  by (intro keeps_sql keepsI) (simp_all add: fault_free_def)

text \<open>
  C25. No job runs for ever: on a database that answers, the sweep of the leader turns every
  running job that was not updated since the cutoff into an error, and touches no other job;
  on a follower it changes nothing.
\<close>

theorem stuck_jobs_end:
  assumes "db_ok (cdb s)" "no_faults (cdb s)"
  shows "jobs (cdb (snd (ReconcileStuck leader maxAge now s))) =
    map (\<lambda>j. if leader \<and> job_stat j = RunRunning \<and> job_updated j < now - maxAge
             then j\<lparr>job_stat := RunError, job_updated := now\<rparr> else j) (jobs (cdb s))"
proof (cases leader)
  case False
  then show ?thesis by (simp add: ReconcileStuck_def retE_def)
next
  case True
  let ?f = "\<lambda>j. j\<lparr>job_stat := RunError, job_updated := now\<rparr>"
  let ?Q = "\<lambda>j. job_stat j = RunRunning \<and> job_updated j < now - maxAge"
  let ?ids = "map job_id (filter ?Q (jobs (cdb s)))"
  let ?J = "update_where (\<lambda>j. job_id j \<in> set ?ids \<and> job_stat j = RunRunning) ?f (jobs (cdb s))"
  let ?s = "s\<lparr>clive := Sweep now liveLogTTL (clive s), cdb := (cdb s)\<lparr>jobs := ?J\<rparr>\<rparr>"
  have r: "ReconcileStuck leader maxAge now s = reconcile_each ?ids now ?s"
    using assms(2) True
    by (simp add: ReconcileStuck_def handleE_def bindE_def on_clive_def on_cdb_def SweepStuckJobs_def
        sweepLoop_jobs retE_def)
  have "keeps (\<lambda>s. jobs (cdb s) = ?J) (reconcile_each ?ids now)"
    by (rule keeps_reconcile_each[where P = "\<lambda>d. jobs d = ?J"]) (simp_all add: keeps_jobs_SetRunStatus fault_free_def)
  from keepsD[OF this, of ?s] r have "jobs (cdb (snd (ReconcileStuck leader maxAge now s))) = ?J" by simp
  also have "?J = map (\<lambda>j. if ?Q j then ?f j else j) (jobs (cdb s))"
    unfolding update_where_def
  proof (rule map_cong[OF refl])
    fix j assume j: "j \<in> set (jobs (cdb s))"
    have "inj_on job_id (set (jobs (cdb s)))"
      using assms(1) by (simp add: db_ok_def ci_ok_def key_ok_def distinct_map)
    then have "job_id j \<in> set ?ids \<longleftrightarrow> ?Q j" using j by (auto dest: inj_onD)
    then show "(if job_id j \<in> set ?ids \<and> job_stat j = RunRunning then ?f j else j) = (if ?Q j then ?f j else j)"
      by auto
  qed
  finally show ?thesis using True by simp
qed

lemma stuck_jobs_end_witness:
  "map job_stat (jobs (cdb (snd (ReconcileStuck True 60 100 sample_ci)))) = [RunQueued, RunError]"
proof -
  have "db_ok (cdb sample_ci)" "no_faults (cdb sample_ci)" by (simp_all add: sample_ci_def)
  from stuck_jobs_end[OF this, of True 60 100] show ?thesis by (simp add: sample_ci_def sample_db_def)
qed

end
