(* ===== verification/Routes.thy ===== *)
theory Routes
  imports WebBrowse Backend Report
begin

text \<open>
  The routes of the server: \<open>newHandler\<close> and \<open>leaderGate\<close> of \<open>cmd/gitmote/main.go\<close>, with the
  patterns that \<open>webui.Handler.Register\<close> and \<open>ReportAPI.Register\<close> add. A pattern is a method,
  or any, and a list of segments; \<open>match_path\<close> is the search of \<open>http.ServeMux\<close>: a literal
  goes before a single wildcard and that before a multi wildcard, at every segment, with
  backtracking. A path is the list of its unescaped segments, a trailing slash being the
  segment \<open>/\<close>; the redirects of \<open>ServeMux\<close> for paths that are not clean are left out.
\<close>

section \<open>Patterns\<close>

datatype segment = Lit string | Wild | Multi

datatype browse_verb = LandingV | TreeV | BlobV | RawV | CommitsV | CommitV | CompareV | RefsV | RunsV

datatype handler = HealthzH | VersionH | UiH action | BrowseH browse_verb | MermaidH
  | ClaimH | LogChunkH | CompleteH | GitH

type_synonym pattern = "string option \<times> segment list \<times> handler"

definition GET :: "segment list \<Rightarrow> handler \<Rightarrow> pattern" where "GET segs h = (Some ''GET'', segs, h)"
definition POST :: "segment list \<Rightarrow> handler \<Rightarrow> pattern" where "POST segs h = (Some ''POST'', segs, h)"

definition Register :: "pattern list" where
  "Register =
     [GET [Lit ''login''] (UiH GetLogin), POST [Lit ''login''] (UiH PostLogin), POST [Lit ''logout''] (UiH PostLogout),
      GET [Lit ''/''] (UiH GetDashboard), POST [Lit ''/''] (UiH (Manage PostRepo)),
      GET [Lit ''users''] (UiH (Manage GetUsers)), POST [Lit ''users''] (UiH (Manage PostUser)),
      GET [Lit ''tokens''] (UiH (Manage GetTokens)), POST [Lit ''tokens''] (UiH (Manage PostToken)),
      POST [Lit ''tokens'', Lit ''revoke''] (UiH (Manage PostRevokeToken)),
      GET [Wild, Lit ''settings''] (UiH (Manage GetSettings)), POST [Wild, Lit ''settings''] (UiH (Manage PostSettings)),
      GET [Wild, Lit ''access''] (UiH (Manage GetAccess)), POST [Wild, Lit ''access''] (UiH (Manage PostAccess)),
      POST [Wild, Lit ''access'', Lit ''revoke''] (UiH (Manage PostRevokeAccess)),
      GET [Wild, Lit ''secrets''] (UiH (Manage GetSecretNames)), POST [Wild, Lit ''secrets''] (UiH (Manage PostSecret)),
      POST [Wild, Lit ''secrets'', Lit ''delete''] (UiH (Manage PostDeleteSecret)),
      GET [Wild, Lit ''tree''] (BrowseH TreeV), GET [Wild, Lit ''tree'', Multi] (BrowseH TreeV),
      GET [Wild, Lit ''blob''] (BrowseH BlobV), GET [Wild, Lit ''blob'', Multi] (BrowseH BlobV),
      GET [Wild, Lit ''raw''] (BrowseH RawV), GET [Wild, Lit ''raw'', Multi] (BrowseH RawV),
      GET [Wild, Lit ''commits''] (BrowseH CommitsV), GET [Wild, Lit ''commits'', Multi] (BrowseH CommitsV),
      GET [Wild, Lit ''commit'', Wild] (BrowseH CommitV), GET [Wild, Lit ''compare'', Multi] (BrowseH CompareV),
      GET [Wild, Lit ''refs''] (BrowseH RefsV),
      GET [Wild, Lit ''runs''] (BrowseH RunsV), GET [Wild, Lit ''runs'', Multi] (BrowseH RunsV),
      GET [Wild] (BrowseH LandingV), GET [Lit ''static'', Lit ''mermaid.min.js''] MermaidH]"

definition Register_report :: "pattern list" where
  "Register_report =
     [GET [Lit ''internal'', Lit ''ci'', Lit ''jobs'', Wild] ClaimH,
      POST [Lit ''internal'', Lit ''ci'', Lit ''jobs'', Wild, Lit ''log''] LogChunkH,
      POST [Lit ''internal'', Lit ''ci'', Lit ''jobs'', Wild, Lit ''complete''] CompleteH]"

text \<open>Which of the three parts of the server there are depends on the configuration.\<close>

definition newHandler :: "bool \<Rightarrow> bool \<Rightarrow> bool \<Rightarrow> pattern list" where
  "newHandler git ui report =
     [GET [Lit ''healthz''] HealthzH, GET [Lit ''version''] VersionH] @
     (if ui then Register else []) @ (if report then Register_report else []) @
     (if git then [(None, [Multi], GitH)] else [])"

section \<open>Matching\<close>

definition advance :: "segment \<Rightarrow> (segment list \<times> 'h) list \<Rightarrow> (segment list \<times> 'h) list" where
  "advance s ps = List.map_filter (\<lambda>(segs, h). case segs of [] \<Rightarrow> None
     | x # xs \<Rightarrow> if x = s then Some (xs, h) else None) ps"

text \<open>The rest of the path that a multi wildcard captures, without its first slash.\<close>

definition rest_text :: "string list \<Rightarrow> string" where
  "rest_text segs = join_with ''/'' (if segs \<noteq> [] \<and> last segs = ''/'' then butlast segs @ [[]] else segs)"

fun match_path :: "(segment list \<times> 'h) list \<Rightarrow> string list \<Rightarrow> ('h \<times> string list) option" where
  "match_path ps [] = map_option (\<lambda>p. (snd p, [])) (first_where (\<lambda>p. fst p = []) ps)"
| "match_path ps (seg # rest) =
     (case match_path (advance (Lit seg) ps) rest of Some m \<Rightarrow> Some m
      | None \<Rightarrow>
          (case (if seg = ''/'' then None else match_path (advance Wild ps) rest) of
             Some (h, caps) \<Rightarrow> Some (h, seg # caps)
           | None \<Rightarrow> map_option (\<lambda>p. (snd p, [rest_text (seg # rest)]))
               (first_where (\<lambda>p. fst p = [Multi]) ps)))"

definition of_method :: "string option \<Rightarrow> pattern list \<Rightarrow> (segment list \<times> handler) list" where
  "of_method m rs = List.map_filter (\<lambda>(m', p). if m' = m then Some p else None) rs"

definition match_route :: "pattern list \<Rightarrow> string \<Rightarrow> string list \<Rightarrow> (handler \<times> string list) option" where
  "match_route rs m segs = (case match_path (of_method (Some m) rs) segs of Some x \<Rightarrow> Some x
     | None \<Rightarrow> (case (if m = ''HEAD'' then match_path (of_method (Some ''GET'') rs) segs else None) of
          Some x \<Rightarrow> Some x
        | None \<Rightarrow> match_path (of_method None rs) segs))"

text \<open>The handler with the values of the wildcards that it asks for: \<open>r.PathValue\<close>.\<close>

datatype target = ToHealthz | ToVersion | ToUi action string | ToBrowse browse_action string | ToMermaid
  | ToClaim string | ToLogChunk string | ToComplete string | ToGit

definition captured :: "nat \<Rightarrow> string list \<Rightarrow> string" where
  "captured i caps = (if i < length caps then caps ! i else [])"

fun browse_target :: "browse_verb \<Rightarrow> string \<Rightarrow> browse_action" where
  "browse_target LandingV x = Landing"
| "browse_target TreeV x = TreeAt x"
| "browse_target BlobV x = BlobAt x"
| "browse_target RawV x = RawAt x"
| "browse_target CommitsV x = CommitsAt x"
| "browse_target CommitV x = CommitAt x"
| "browse_target CompareV x = CompareAt x"
| "browse_target RefsV x = RefsAt"
| "browse_target RunsV x = RunsAt x"

fun target_of :: "handler \<Rightarrow> string list \<Rightarrow> target" where
  "target_of HealthzH caps = ToHealthz"
| "target_of VersionH caps = ToVersion"
| "target_of (UiH a) caps = ToUi a (captured 0 caps)"
| "target_of (BrowseH v) caps = ToBrowse (browse_target v (captured 1 caps)) (captured 0 caps)"
| "target_of MermaidH caps = ToMermaid"
| "target_of ClaimH caps = ToClaim (captured 0 caps)"
| "target_of LogChunkH caps = ToLogChunk (captured 0 caps)"
| "target_of CompleteH caps = ToComplete (captured 0 caps)"
| "target_of GitH caps = ToGit"

definition route :: "pattern list \<Rightarrow> string \<Rightarrow> string list \<Rightarrow> target option" where
  "route rs m segs = map_option (\<lambda>(h, caps). target_of h caps) (match_route rs m segs)"

section \<open>The gate\<close>

definition alwaysServable :: "string \<Rightarrow> bool" where
  "alwaysServable p \<longleftrightarrow> p = ''/healthz'' \<or> p = ''/version'' \<or> has_prefix ''/static/'' p"

datatype 'r gated = Served 'r | NotWriter int

definition leaderGate :: "('s \<Rightarrow> bool \<times> 's) option \<Rightarrow> string \<Rightarrow> ('s \<Rightarrow> 'r \<times> 's) \<Rightarrow> 's \<Rightarrow> 'r gated \<times> 's" where
  "leaderGate gate path next s =
     (let serve = (\<lambda>s. case next s of (r, t) \<Rightarrow> (Served r, t)) in
      if alwaysServable path then serve s
      else (case gate of None \<Rightarrow> serve s
        | Some g \<Rightarrow> (case g s of (ok, t) \<Rightarrow> if ok then serve t else (NotWriter 2, t))))"

section \<open>A name routes to its own pages\<close>

text \<open>The handlers that a search can end in are those of its patterns.\<close>

lemma first_where_handler: "first_where P ps = Some p \<Longrightarrow> p \<in> set ps"
  by (auto dest: first_where_Some)

lemma in_advance: "(segs, h) \<in> set (advance s ps) \<longleftrightarrow> (s # segs, h) \<in> set ps"
  unfolding advance_def in_map_filter
  by (auto split: list.splits if_splits intro!: bexI[of _ "(s # segs, h)"])

lemma advance_handlers: "snd ` set (advance s ps) \<subseteq> snd ` set ps"
  by (auto simp: in_advance) (metis image_eqI snd_conv)

lemma match_path_handler: "match_path ps segs = Some (h, caps) \<Longrightarrow> h \<in> snd ` set ps"
proof (induction ps segs arbitrary: caps rule: match_path.induct)
  case (1 ps)
  then show ?case by (force dest!: first_where_handler)
next
  case (2 ps seg rest)
  from 2(3) consider c where "match_path (advance (Lit seg) ps) rest = Some (h, c)"
    | c where "match_path (advance (Lit seg) ps) rest = None" "seg \<noteq> ''/''"
        "match_path (advance Wild ps) rest = Some (h, c)"
    | p where "first_where (\<lambda>p. fst p = [Multi]) ps = Some p" "h = snd p"
    by (auto split: option.splits if_splits prod.splits)
  then show ?case
  proof cases
    case 1
    with 2(1) advance_handlers[of "Lit seg" ps] show ?thesis by blast
  next
    case 2
    with "2.IH"(2)[OF 2(1)] advance_handlers[of Wild ps] show ?thesis by auto
  next
    case 3
    then show ?thesis by (force dest!: first_where_handler)
  qed
qed

text \<open>
  The first segment of a path decides: literals that start with it, else the patterns of a
  repository with the segment as the name of it, else the rest of the path.
\<close>

lemma match_path_first:
  assumes "match_path ps (n # rest) = Some (h, caps)"
  shows "h \<in> snd ` set (advance (Lit n) ps) \<or> (n \<noteq> ''/'' \<and> h \<in> snd ` set (advance Wild ps) \<and> captured 0 caps = n)
    \<or> ([Multi], h) \<in> set ps"
proof -
  from assms consider c where "match_path (advance (Lit n) ps) rest = Some (h, c)"
    | c where "n \<noteq> ''/''" "match_path (advance Wild ps) rest = Some (h, c)" "caps = n # c"
    | p where "first_where (\<lambda>p. fst p = [Multi]) ps = Some p" "h = snd p"
    by (auto split: option.splits if_splits prod.splits)
  then show ?thesis
  proof cases
    case 3
    with first_where_Some[OF 3(1)] have "p \<in> set ps" "fst p = [Multi]" by simp_all
    with 3(2) have "([Multi], h) \<in> set ps" by (cases p) simp
    then show ?thesis by simp
  qed (auto dest: match_path_handler simp: captured_def)
qed

text \<open>The handlers of one repository, and where each of them sends its request.\<close>

definition repo_handler :: "handler \<Rightarrow> bool" where
  "repo_handler h \<longleftrightarrow> (case h of
      BrowseH v \<Rightarrow> True
    | UiH (Manage a) \<Rightarrow> a \<in> {GetSettings, PostSettings, GetAccess, PostAccess, PostRevokeAccess,
         GetSecretNames, PostSecret, PostDeleteSecret}
    | _ \<Rightarrow> False)"

definition own_target :: "string \<Rightarrow> target \<Rightarrow> bool" where
  "own_target n t \<longleftrightarrow> (case t of
      ToBrowse a r \<Rightarrow> r = n
    | ToUi (Manage a) r \<Rightarrow> r = n \<and> repo_handler (UiH (Manage a))
    | _ \<Rightarrow> False)"

lemma own_target_of: "repo_handler h \<Longrightarrow> captured 0 caps = n \<Longrightarrow> own_target n (target_of h caps)"
  by (cases h) (auto simp: own_target_def repo_handler_def split: action.splits)

text \<open>The literals that a path can start with are names that no repository may have.\<close>

definition global_names :: "string list" where
  "global_names = [''healthz'', ''version'', ''login'', ''logout'', ''/'', ''users'', ''tokens'', ''static'', ''internal'']"

fun first_ok :: "segment list \<times> handler \<Rightarrow> bool" where
  "first_ok (Lit s # segs, h) \<longleftrightarrow> s \<in> set global_names"
| "first_ok (Wild # segs, h) \<longleftrightarrow> repo_handler h"
| "first_ok (Multi # segs, h) \<longleftrightarrow> segs = [] \<and> h = GitH"
| "first_ok ([], h) \<longleftrightarrow> False"

lemma all_of_method: "list_all P (map snd rs) \<Longrightarrow> list_all P (of_method m rs)"
  by (force simp: of_method_def in_map_filter list_all_iff split: if_splits)

lemma table_ok: "list_all first_ok (of_method m (newHandler g u r))"
proof (rule all_of_method)
  have "list_all first_ok (map snd Register)" "list_all first_ok (map snd Register_report)" by code_simp+
  then show "list_all first_ok (map snd (newHandler g u r))"
    by (simp add: newHandler_def) (simp add: GET_def global_names_def)
qed

lemma literals_global: "list_all first_ok ps \<Longrightarrow> n \<notin> set global_names \<Longrightarrow> advance (Lit n) ps = []"
proof (rule ccontr)
  assume a: "list_all first_ok ps" "n \<notin> set global_names" "advance (Lit n) ps \<noteq> []"
  then obtain segs h where "(Lit n # segs, h) \<in> set ps"
    by (cases "advance (Lit n) ps") (auto simp flip: in_advance)
  with a(1) have "first_ok (Lit n # segs, h)" by (auto simp: list_all_iff)
  with a(2) show False by simp
qed

lemma wild_repo: "list_all first_ok ps \<Longrightarrow> h \<in> snd ` set (advance Wild ps) \<Longrightarrow> repo_handler h"
  by (force simp: in_advance list_all_iff)

lemma multi_git: "list_all first_ok ps \<Longrightarrow> ([Multi], h) \<in> set ps \<Longrightarrow> h = GitH"
  by (force simp: list_all_iff)

text \<open>Where a request goes whose path starts with \<open>n\<close>.\<close>

lemma match_first_segment:
  assumes "list_all first_ok ps" "match_path ps (n # rest) = Some (h, caps)"
  shows "h \<in> snd ` set (advance (Lit n) ps) \<or> own_target n (target_of h caps) \<or> target_of h caps = ToGit"
  using match_path_first[OF assms(2)] wild_repo[OF assms(1), of h] multi_git[OF assms(1), of h] own_target_of[of h caps n]
  by (cases "h = GitH") auto

lemma route_first_segment:
  assumes "route (newHandler g u r) m (n # rest) = Some t"
  shows "(\<exists>m' h caps. h \<in> snd ` set (advance (Lit n) (of_method m' (newHandler g u r))) \<and> t = target_of h caps)
    \<or> own_target n t \<or> t = ToGit"
proof -
  from assms obtain m' h caps where f: "match_path (of_method m' (newHandler g u r)) (n # rest) = Some (h, caps)"
      "t = target_of h caps"
    by (auto simp: route_def match_route_def simp del: match_path.simps split: option.splits if_splits)
  from match_first_segment[OF table_ok f(1)] show ?thesis unfolding f(2) by (elim disjE) (intro disjI1 exI conjI, assumption, rule refl, simp_all)
qed

lemma global_names_invalid: "list_all (\<lambda>n. validateRepoName n \<noteq> None) global_names"
  by code_simp

text \<open>
  C37. A repository never shares its paths: whatever follows the name of one that may be created,
  the request goes to a page of that repository or to git, and to no page of the whole forge.
\<close>

theorem repo_paths_are_its_own:
  assumes "validateRepoName n = None" "route (newHandler g u r) m (n # rest) = Some t"
  shows "own_target n t \<or> t = ToGit"
proof -
  have "n \<notin> set global_names" using global_names_invalid assms(1) by (auto simp: list_all_iff)
  then have "advance (Lit n) (of_method m' (newHandler g u r)) = []" for m'
    by (rule literals_global[OF table_ok])
  with route_first_segment[OF assms(2)] show ?thesis by simp
qed

lemma repo_paths_are_its_own_witness:
  "own_target ''app'' (ToBrowse (TreeAt ''main/docs'') ''app'') \<or> ToBrowse (TreeAt ''main/docs'') ''app'' = ToGit"
proof (rule repo_paths_are_its_own)
  show "validateRepoName ''app'' = None" by code_simp
  show "route (newHandler True True True) ''GET'' [''app'', ''tree'', ''main'', ''docs''] =
      Some (ToBrowse (TreeAt ''main/docs'') ''app'')" by code_simp
qed

text \<open>What the server answers without the lease is about no repository.\<close>

definition path_text :: "string list \<Rightarrow> string" where
  "path_text segs = concat (map (\<lambda>s. if s = ''/'' then s else ''/'' @ s) segs)"

lemma path_text_rest: "path_text rest = [] \<or> (\<exists>t. path_text rest = CHR ''/'' # t)"
  by (cases rest) (auto simp: path_text_def)

lemma always_slash:
  "alwaysServable (CHR ''/'' # w) \<longleftrightarrow> w = ''healthz'' \<or> w = ''version'' \<or> has_prefix ''static/'' w"
  by (simp add: alwaysServable_def has_prefix_def)

definition ungated_name :: "string \<Rightarrow> bool" where
  "ungated_name n \<longleftrightarrow> n = ''healthz'' \<or> n = ''version'' \<or> n = ''static'' \<or> has_prefix ''static/'' n"

lemma always_name:
  assumes "alwaysServable (CHR ''/'' # n @ R)" "R = [] \<or> (\<exists>t. R = CHR ''/'' # t)"
  shows "ungated_name n"
proof -
  have sep: "n @ CHR ''/'' # u \<noteq> w" if "CHR ''/'' \<notin> set w" for u w using that by auto
  from assms(1) consider "n @ R = ''healthz''" | "n @ R = ''version''" | t where "n @ R = ''static/'' @ t"
    by (auto simp: always_slash has_prefix_iff)
  then show ?thesis
  proof cases
    case 3
    then consider us where "n = ''static/'' @ us" | us where "n @ us = ''static/''" "R = us @ t"
      unfolding append_eq_append_conv2 by blast
    then show ?thesis
    proof cases
      case (2 us)
      show ?thesis
      proof (cases us)
        case (Cons c cs)
        with 2 assms(2) have "n @ [CHR ''/''] @ cs = ''static/''" by auto
        then show ?thesis by (auto simp: append_eq_Cons_conv ungated_name_def)
      qed (use 2 in \<open>simp add: ungated_name_def has_prefix_def\<close>)
    qed (simp add: ungated_name_def has_prefix_def)
  qed (use assms(2) sep[of "''healthz''"] sep[of "''version''"] in \<open>auto simp: ungated_name_def\<close>)
qed

lemma always_first:
  assumes "alwaysServable (path_text (n # rest))"
  shows "ungated_name n"
proof (cases "n = ''/''")
  case True
  then have "path_text (n # rest) = CHR ''/'' # path_text rest" by (simp add: path_text_def)
  with assms path_text_rest[of rest] have False by (elim disjE exE) (simp_all add: always_slash has_prefix_def)
  then show ?thesis ..
next
  case False
  then have "path_text (n # rest) = CHR ''/'' # n @ path_text rest" by (simp add: path_text_def)
  with assms always_name path_text_rest[of rest] show ?thesis by auto
qed

lemma match_endpoint_Some: "match_endpoint p eps = Some (name, ep) \<Longrightarrow> p = name @ ''/'' @ ep"
  by (induction eps) (auto simp: Let_def has_suffix_iff split: if_splits)

lemma slash_invalid:
  assumes "CHR ''/'' \<in> set n"
  shows "validateRepoName (normalizeRepoName n) \<noteq> None"
proof -
  have "CHR ''/'' \<in> set (normalizeRepoName n)"
  proof (cases "has_suffix ''.git'' n")
    case True
    then obtain u where "n = u @ ''.git''" by (auto simp: has_suffix_iff)
    with assms show ?thesis by (simp add: normalizeRepoName_def)
  qed (use assms in \<open>simp add: normalizeRepoName_def trim_suffix_def\<close>)
  then show ?thesis by (simp add: validateRepoName_def)
qed

lemma always_invalid:
  assumes "ungated_name n"
  shows "validateRepoName (normalizeRepoName n) \<noteq> None"
proof (cases "has_prefix ''static/'' n")
  case True
  then have "CHR ''/'' \<in> set n" by (auto simp: has_prefix_iff)
  then show ?thesis by (rule slash_invalid)
next
  case False
  have "list_all (\<lambda>n. validateRepoName (normalizeRepoName n) \<noteq> None) [''healthz'', ''version'', ''static'']"
    by code_simp
  with False assms show ?thesis by (auto simp: ungated_name_def)
qed

definition about_repo :: "target \<Rightarrow> string list \<Rightarrow> string \<Rightarrow> bool" where
  "about_repo t segs name \<longleftrightarrow> (case t of
      ToUi a n \<Rightarrow> n = name
    | ToBrowse a n \<Rightarrow> n = name
    | ToGit \<Rightarrow> (case parseGitPath (path_text segs) of Some (n, ep) \<Rightarrow> n = name | None \<Rightarrow> False)
    | _ \<Rightarrow> False)"

fun ungated_ok :: "segment list \<times> handler \<Rightarrow> bool" where
  "ungated_ok (Lit s # segs, h) \<longleftrightarrow> ungated_name s \<longrightarrow> h \<in> {HealthzH, VersionH, MermaidH}"
| "ungated_ok (segs, h) \<longleftrightarrow> True"

lemma table_ungated: "list_all ungated_ok (of_method m (newHandler g u r))"
proof (rule all_of_method)
  have "list_all ungated_ok (map snd Register)" "list_all ungated_ok (map snd Register_report)" by code_simp+
  then show "list_all ungated_ok (map snd (newHandler g u r))"
    by (simp add: newHandler_def) (simp add: GET_def)
qed

lemma ungated_targets:
  assumes "ungated_name n" "route (newHandler g u r) m (n # rest) = Some t"
  shows "t \<in> {ToHealthz, ToVersion, ToMermaid, ToGit} \<or> own_target n t"
proof -
  have "h \<in> {HealthzH, VersionH, MermaidH}"
    if "h \<in> snd ` set (advance (Lit n) (of_method m' (newHandler g u r)))" for m' h
  proof -
    from that obtain segs where "(Lit n # segs, h) \<in> set (of_method m' (newHandler g u r))"
      by (auto simp: in_advance)
    with table_ungated[of m' g u r] have "ungated_ok (Lit n # segs, h)" by (auto simp: list_all_iff)
    with assms(1) show ?thesis by simp
  qed
  with route_first_segment[OF assms(2)] show ?thesis by fastforce
qed

text \<open>
  The paths that an instance without the lease answers concern no repository: whatever page
  or git request they reach, the name in them is one that no repository can have. So the
  exemption from the gate never shows a stale ref.
\<close>

theorem ungated_no_repo:
  assumes "alwaysServable (path_text segs)" "route (newHandler g u r) m segs = Some t" "about_repo t segs name"
  shows "validateRepoName (normalizeRepoName name) \<noteq> None"
proof -
  from assms(1) obtain n rest where segs: "segs = n # rest"
    by (cases segs) (auto simp: path_text_def alwaysServable_def has_prefix_def)
  have n: "ungated_name n" using always_first assms(1) unfolding segs .
  have "ungated_name name \<or> CHR ''/'' \<in> set name"
  proof (cases "t = ToGit")
    case True
    with assms(3) obtain ep where "parseGitPath (path_text segs) = Some (name, ep)"
      by (auto simp: about_repo_def split: option.splits)
    then have "trim_prefix ''/'' (path_text segs) = name @ ''/'' @ ep"
      unfolding parseGitPath_def by (rule match_endpoint_Some)
    moreover obtain w where w: "path_text segs = CHR ''/'' # w"
      using path_text_rest[of segs] assms(1) by (auto simp: alwaysServable_def has_prefix_def)
    ultimately have "path_text segs = CHR ''/'' # name @ CHR ''/'' # ep"
      by (simp add: trim_prefix_def has_prefix_def split: option.splits)
    with always_name[of name "CHR ''/'' # ep"] assms(1) show ?thesis by simp
  next
    case False
    with ungated_targets[OF n assms(2)[unfolded segs]] assms(3) n show ?thesis
      by (cases t) (auto simp: about_repo_def own_target_def split: action.splits)
  qed
  then show ?thesis using always_invalid slash_invalid by blast
qed

lemma ungated_no_repo_witness:
  "validateRepoName (normalizeRepoName ''static'') \<noteq> None"
  by (rule ungated_no_repo[where segs = "[''static'', ''info'', ''refs'']" and m = "''GET''" and t = ToGit
        and g = True and u = True and r = True]) code_simp+

section \<open>What a repository answers\<close>

lemma match_path_Nil [simp]: "match_path [] segs = None"
  by (induction segs) (simp_all add: advance_def)

lemma match_repo:
  assumes "validateRepoName n = None"
  shows "match_path (of_method m (newHandler g u r)) (n # rest) =
    (case match_path (advance Wild (of_method m (newHandler g u r))) rest of
       Some (h, caps) \<Rightarrow> Some (h, n # caps)
     | None \<Rightarrow> map_option (\<lambda>p. (snd p, [rest_text (n # rest)]))
         (first_where (\<lambda>p. fst p = [Multi]) (of_method m (newHandler g u r))))"
proof -
  have n: "n \<notin> set global_names" using global_names_invalid assms by (auto simp: list_all_iff)
  have "n \<noteq> ''/''" using n by (auto simp: global_names_def)
  then show ?thesis using literals_global[OF table_ok n] by simp
qed

abbreviation "all_routes \<equiv> newHandler True True True"

text \<open>The patterns below the name of a repository, and the page of a multi wildcard.\<close>

lemma below_name:
  "match_path (advance Wild (of_method (Some ''GET'') all_routes)) [''info'', ''refs''] = None"
  "match_path (advance Wild (of_method (Some ''POST'') all_routes)) [''git-upload-pack''] = None"
  "match_path (advance Wild (of_method (Some ''POST'') all_routes)) [''git-receive-pack''] = None"
  "match_path (advance Wild (of_method (Some ''GET'') all_routes)) [] = Some (BrowseH LandingV, [])"
  "match_path (advance Wild (of_method None all_routes)) segs = None"
  "first_where (\<lambda>p. fst p = [Multi]) (of_method None all_routes) = Some ([Multi], GitH)"
  "first_where (\<lambda>p. fst p = [Multi]) (of_method (Some ''GET'') all_routes) = None"
  "first_where (\<lambda>p. fst p = [Multi]) (of_method (Some ''POST'') all_routes) = None"
proof -
  have e: "advance Wild (of_method None all_routes) = []" by code_simp
  show "match_path (advance Wild (of_method None all_routes)) segs = None"
    unfolding e by simp
qed code_simp+

lemma multi_page:
  "match_path [([], h), ([Multi], h)] (a # p) = Some (h, [rest_text (a # p)])"
  by (simp add: advance_def List.map_filter_def)

lemma multi_verbs:
  assumes "(v, h) \<in> {(''tree'', TreeV), (''blob'', BlobV), (''raw'', RawV), (''commits'', CommitsV), (''runs'', RunsV)}"
  shows "match_path (advance Wild (of_method (Some ''GET'') all_routes)) (v # a # p) = Some (BrowseH h, [rest_text (a # p)])"
proof -
  have "list_all (\<lambda>(v, h). advance (Lit v) (advance Wild (of_method (Some ''GET'') all_routes)) =
      [([], BrowseH h), ([Multi], BrowseH h)])
    [(''tree'', TreeV), (''blob'', BlobV), (''raw'', RawV), (''commits'', CommitsV), (''runs'', RunsV)]" by code_simp
  with assms have "advance (Lit v) (advance Wild (of_method (Some ''GET'') all_routes)) =
      [([], BrowseH h), ([Multi], BrowseH h)]" by auto
  then show ?thesis by (subst match_path.simps(2)) (simp add: multi_page del: match_path.simps)
qed

text \<open>
  Every repository that may be created is served: its three git endpoints reach git, its bare
  name the landing page, and each browsing verb its page with the rest of the path, whatever
  the name and the path are.
\<close>

theorem repo_is_served:
  assumes "validateRepoName n = None"
  shows "route all_routes ''GET'' [n, ''info'', ''refs''] = Some ToGit \<and>
    route all_routes ''POST'' [n, ''git-upload-pack''] = Some ToGit \<and>
    route all_routes ''POST'' [n, ''git-receive-pack''] = Some ToGit \<and>
    route all_routes ''GET'' [n] = Some (ToBrowse Landing n) \<and>
    route all_routes ''GET'' (n # ''tree'' # a # p) = Some (ToBrowse (TreeAt (rest_text (a # p))) n) \<and>
    route all_routes ''GET'' (n # ''blob'' # a # p) = Some (ToBrowse (BlobAt (rest_text (a # p))) n) \<and>
    route all_routes ''GET'' (n # ''raw'' # a # p) = Some (ToBrowse (RawAt (rest_text (a # p))) n) \<and>
    route all_routes ''GET'' (n # ''commits'' # a # p) = Some (ToBrowse (CommitsAt (rest_text (a # p))) n) \<and>
    route all_routes ''GET'' (n # ''runs'' # a # p) = Some (ToBrowse (RunsAt (rest_text (a # p))) n)"
  by (simp add: route_def match_route_def match_repo[OF assms] below_name multi_verbs captured_def del: match_path.simps)

lemma repo_is_served_witness:
  "route all_routes ''GET'' [''app'', ''tree'', ''v1'', ''src'', ''/''] = Some (ToBrowse (TreeAt ''v1/src/'') ''app'')"
proof -
  have "validateRepoName ''app'' = None" by code_simp
  moreover have "rest_text [''v1'', ''src'', ''/''] = ''v1/src/''" by code_simp
  ultimately show ?thesis using repo_is_served[of "''app''" "''v1''" "[''src'', ''/'']"] by simp
qed

end
