(* ===== verification/GoStruct.thy ===== *)
theory GoStruct
  imports GoJson
begin

text \<open>
  \<open>encoding/json\<close> on tagged structs: how the fields of a struct are found in an object and
  decoded, and what an encoder writes. Each component has the fields of its own structs.
\<close>

section \<open>Encoder and decoder\<close>

definition Encode :: "json \<Rightarrow> bytes" where
  "Encode v = print_json v @ [newline]"

text \<open>
  A key names a field if they are equal after folding the case; the Kelvin sign folds to k and the
  long s to s. An unknown key is skipped, \<open>null\<close> leaves a field as it is, another type is an error.
\<close>

fun fold_name :: "bytes \<Rightarrow> bytes" where
  "fold_name [] = []"
| "fold_name (c # cs) =
     (if take 3 (c # cs) = [char_of (226 :: nat), char_of (132 :: nat), char_of (170 :: nat)]
      then CHR ''K'' # fold_name (drop 2 cs)
      else if take 2 (c # cs) = [char_of (197 :: nat), char_of (191 :: nat)] then CHR ''S'' # fold_name (drop 1 cs)
      else to_upper c # fold_name cs)"

definition is_field :: "string \<Rightarrow> bytes \<Rightarrow> bool" where
  "is_field name key \<longleftrightarrow> key = name \<or> fold_name key = fold_name name"

definition unmarshal_string :: "json \<Rightarrow> string \<Rightarrow> string option" where
  "unmarshal_string v old = (case v of JStr s \<Rightarrow> Some s | JNull \<Rightarrow> Some old | _ \<Rightarrow> None)"

definition unmarshal_bool :: "json \<Rightarrow> bool \<Rightarrow> bool option" where
  "unmarshal_bool v old = (case v of JBool b \<Rightarrow> Some b | JNull \<Rightarrow> Some old | _ \<Rightarrow> None)"

text \<open>An integer field takes a literal that \<open>strconv.ParseInt\<close> takes: no fraction, no exponent, in range.\<close>

definition unmarshal_int64 :: "json \<Rightarrow> int \<Rightarrow> int option" where
  "unmarshal_int64 v old = (case v of JNum l \<Rightarrow> parse_int64 l | JNull \<Rightarrow> Some old | _ \<Rightarrow> None)"

definition unmarshal_struct :: "(bytes \<times> json \<Rightarrow> 'r \<Rightarrow> 'r option) \<Rightarrow> json \<Rightarrow> 'r \<Rightarrow> 'r option" where
  "unmarshal_struct field v x = (case v of JNull \<Rightarrow> Some x
     | JObj ms \<Rightarrow> fold (\<lambda>m acc. Option.bind acc (field m)) ms (Some x)
     | _ \<Rightarrow> None)"

text \<open>A list is decoded over the elements that the field already holds, if its key is repeated.\<close>

fun unmarshal_elems :: "(json \<Rightarrow> 'r \<Rightarrow> 'r option) \<Rightarrow> 'r \<Rightarrow> json list \<Rightarrow> 'r list \<Rightarrow> 'r list option" where
  "unmarshal_elems elem zero [] old = Some []"
| "unmarshal_elems elem zero (v # vs) old =
     (case elem v (case old of [] \<Rightarrow> zero | x # _ \<Rightarrow> x) of None \<Rightarrow> None
      | Some y \<Rightarrow> map_option ((#) y) (unmarshal_elems elem zero vs (tl old)))"

definition unmarshal_list :: "(json \<Rightarrow> 'r \<Rightarrow> 'r option) \<Rightarrow> 'r \<Rightarrow> json \<Rightarrow> 'r list \<Rightarrow> 'r list option" where
  "unmarshal_list elem zero v old = (case v of JNull \<Rightarrow> Some [] | JArr vs \<Rightarrow> unmarshal_elems elem zero vs old
     | _ \<Rightarrow> None)"

text \<open>\<open>Decoder.Decode\<close> reads one value; what follows it on the connection is not looked at.\<close>

definition Decode :: "(json \<Rightarrow> 'r option) \<Rightarrow> bytes \<Rightarrow> 'r option" where
  "Decode unmarshal input = (case decode_json input of Parsed v r \<Rightarrow> unmarshal v | _ \<Rightarrow> None)"

section \<open>Names of fields\<close>

lemma ascii_name:
  assumes "\<forall>c \<in> set k. byte c < 128"
  shows "valid_utf8 k = k" "fold_name k = map to_upper k"
proof -
  from assms show "valid_utf8 k = k"
    by (induction k) (simp_all add: rune_size_def valid_utf8.simps(2))
  from assms show "fold_name k = map to_upper k"
  proof (induction k)
    case (Cons c k)
    then have "c \<noteq> char_of (226 :: nat)" "c \<noteq> char_of (197 :: nat)" by auto
    with Cons show ?case by simp
  qed simp
qed

declare fold_name.simps(2) [simp del]

lemma is_field_same [simp]: "is_field k k"
  by (simp add: is_field_def)

lemma is_field_ascii: "\<forall>c \<in> set k. byte c < 128 \<Longrightarrow> \<forall>c \<in> set l. byte c < 128 \<Longrightarrow>
   is_field k l \<longleftrightarrow> map to_upper l = map to_upper k"
  by (auto simp: is_field_def ascii_name(2))

section \<open>Integers\<close>

definition int64_id :: "int \<Rightarrow> bool" where
  "int64_id i \<longleftrightarrow> - (2 ^ 63) \<le> i \<and> i < 2 ^ 63"

lemma parse_int64_own:
  assumes "parse_int64 (format_int i) = Some k"
  shows "k = i"
proof -
  obtain c cs where f: "format_nat (nat i) = c # cs" by (metis format_nat_ne neq_Nil_conv)
  with format_nat_hd[of "nat i"] have c: "c \<noteq> CHR ''-''" "c \<noteq> CHR ''+''" by (auto simp: decimal_digits_def)
  have n: "parse_nat (c # cs) = Some (nat i)" by (metis f parse_nat_format_nat)
  from assms c n show ?thesis
    by (auto simp: parse_int64_def format_int_def f Let_def split: if_splits option.splits)
qed

lemma unmarshal_int64_format [simp]: "int64_id i \<Longrightarrow> unmarshal_int64 (JNum (format_int i)) old = Some i"
  by (simp add: unmarshal_int64_def int64_id_def)

end
