(* ===== verification/ReportWire.thy ===== *)
theory ReportWire
  imports GoStruct Report
begin

text \<open>
  The bodies of the report API on the wire: \<open>writeJSON\<close> and \<open>http.Error\<close> of
  \<open>internal/ci/report.go\<close>, and the \<open>spec\<close> that \<open>internal/runner\<close> decodes from a claim. The ids
  are 64-bit integers of the code, so they arrive whole; text that is not UTF-8 does not.
\<close>

definition marshal_spec :: "jobSpec \<Rightarrow> json" where
  "marshal_spec sp = JObj [(''job_id'', JNum (format_int (js_job sp))), (''run_id'', JNum (format_int (js_run sp))),
     (''repo'', JStr (js_repo sp)), (''sha'', JStr (js_sha sp)), (''ref'', JStr (js_ref sp)),
     (''workflow_dir'', JStr (js_dir sp))]"

definition writeBody :: "ci_body \<Rightarrow> bytes" where
  "writeBody b = (case b of Message m \<Rightarrow> m @ [newline] | Spec sp \<Rightarrow> Encode (marshal_spec sp)
     | OkTrue \<Rightarrow> Encode (JObj [(''ok'', JBool True)]) | NoContent \<Rightarrow> [])"

definition zero_spec :: jobSpec where
  "zero_spec = \<lparr>js_job = 0, js_run = 0, js_repo = [], js_sha = [], js_ref = [], js_dir = []\<rparr>"

definition spec_field :: "bytes \<times> json \<Rightarrow> jobSpec \<Rightarrow> jobSpec option" where
  "spec_field m sp = (let (k, v) = m in
     if is_field ''job_id'' k then map_option (\<lambda>i. sp\<lparr>js_job := i\<rparr>) (unmarshal_int64 v (js_job sp))
     else if is_field ''run_id'' k then map_option (\<lambda>i. sp\<lparr>js_run := i\<rparr>) (unmarshal_int64 v (js_run sp))
     else if is_field ''repo'' k then map_option (\<lambda>s. sp\<lparr>js_repo := s\<rparr>) (unmarshal_string v (js_repo sp))
     else if is_field ''sha'' k then map_option (\<lambda>s. sp\<lparr>js_sha := s\<rparr>) (unmarshal_string v (js_sha sp))
     else if is_field ''ref'' k then map_option (\<lambda>s. sp\<lparr>js_ref := s\<rparr>) (unmarshal_string v (js_ref sp))
     else if is_field ''workflow_dir'' k then map_option (\<lambda>s. sp\<lparr>js_dir := s\<rparr>) (unmarshal_string v (js_dir sp))
     else Some sp)"

definition decode_spec :: "bytes \<Rightarrow> jobSpec option" where
  "decode_spec = Decode (\<lambda>v. unmarshal_struct spec_field v zero_spec)"

definition utf8_spec :: "jobSpec \<Rightarrow> jobSpec" where
  "utf8_spec sp = sp\<lparr>js_repo := valid_utf8 (js_repo sp), js_sha := valid_utf8 (js_sha sp),
     js_ref := valid_utf8 (js_ref sp), js_dir := valid_utf8 (js_dir sp)\<rparr>"

lemma spec_keys [simp]:
  "valid_utf8 ''job_id'' = ''job_id''" "valid_utf8 ''run_id'' = ''run_id''" "valid_utf8 ''repo'' = ''repo''"
  "valid_utf8 ''sha'' = ''sha''" "valid_utf8 ''ref'' = ''ref''" "valid_utf8 ''workflow_dir'' = ''workflow_dir''"
  by (rule ascii_name, simp)+

lemma spec_other [simp]:
  "\<not> is_field ''job_id'' ''run_id''" "\<not> is_field ''job_id'' ''repo''" "\<not> is_field ''job_id'' ''sha''"
  "\<not> is_field ''job_id'' ''ref''" "\<not> is_field ''job_id'' ''workflow_dir''" "\<not> is_field ''run_id'' ''repo''"
  "\<not> is_field ''run_id'' ''sha''" "\<not> is_field ''run_id'' ''ref''" "\<not> is_field ''run_id'' ''workflow_dir''"
  "\<not> is_field ''repo'' ''sha''" "\<not> is_field ''repo'' ''ref''" "\<not> is_field ''repo'' ''workflow_dir''"
  "\<not> is_field ''sha'' ''ref''" "\<not> is_field ''sha'' ''workflow_dir''" "\<not> is_field ''ref'' ''workflow_dir''"
  by (simp_all add: is_field_ascii to_upper_def)

lemma decode_spec_value:
  "decode_spec (writeBody (Spec sp)) = unmarshal_struct spec_field (valid_json (marshal_spec sp)) zero_spec"
proof -
  have "integral (marshal_spec sp)" "json_depth (marshal_spec sp) \<le> maxNestingDepth"
    by (auto simp: marshal_spec_def maxNestingDepth_def)
  with json_roundtrip[of "marshal_spec sp" "[newline]"]
  have "decode_json (writeBody (Spec sp)) = Parsed (valid_json (marshal_spec sp)) [newline]"
    by (simp add: writeBody_def Encode_def number_ends_sep(5)[of "[]"])
  then show ?thesis by (simp add: decode_spec_def Decode_def)
qed

lemma unmarshal_spec:
  "unmarshal_struct spec_field (valid_json (marshal_spec sp)) zero_spec =
     (case (parse_int64 (format_int (js_job sp)), parse_int64 (format_int (js_run sp))) of
        (Some j, Some r) \<Rightarrow> Some ((utf8_spec sp)\<lparr>js_job := j, js_run := r\<rparr>) | _ \<Rightarrow> None)"
  by (auto simp: marshal_spec_def unmarshal_struct_def spec_field_def unmarshal_string_def unmarshal_int64_def
      zero_spec_def utf8_spec_def split: option.split)

text \<open>What the runner reads of a claim is what the server wrote, with the ids exact.\<close>

theorem spec_roundtrip:
  "int64_id (js_job sp) \<Longrightarrow> int64_id (js_run sp) \<Longrightarrow> decode_spec (writeBody (Spec sp)) = Some (utf8_spec sp)"
  unfolding decode_spec_value unmarshal_spec by (simp add: int64_id_def utf8_spec_def)

lemma decoded_spec_job: "decode_spec (writeBody (Spec sp)) = Some sp' \<Longrightarrow> js_job sp' = js_job sp"
  unfolding decode_spec_value unmarshal_spec by (auto split: option.splits dest: parse_int64_own)

end
