(* ===== verification/Runner.thy ===== *)
theory Runner
  imports ReportWire Dispatcher
begin

text \<open>
  \<open>internal/runner\<close> and \<open>internal/ci/local.go\<close>: the process that runs one job. What it
  acts on is a state of any type, with the HTTP calls to the server, the clone, the engine
  and the temporary directory as operations on it: other actors may take steps inside each
  of them. A response of the server is its status with the bytes of its body; git, act and
  \<open>url.Parse\<close> are parameters. Log messages are left out.
\<close>

section \<open>The engine: act.go\<close>

definition actPlatformsEnv :: string where "actPlatformsEnv = ''GITMOTE_ACT_PLATFORMS''"
definition allowBuildsEnv :: string where "allowBuildsEnv = ''GITMOTE_CI_ALLOW_BUILDS''"
definition actDaemonSocketEnv :: string where "actDaemonSocketEnv = ''GITMOTE_ACT_DAEMON_SOCKET''"
definition defaultActDaemonSocket :: string where "defaultActDaemonSocket = ''/var/run/docker.sock''"

definition runnerSecretPrefix :: string where "runnerSecretPrefix = ''GITMOTE_CI_SECRET_''"

text \<open>\<open>b, _ = strconv.ParseBool(s)\<close>: what does not parse is false.\<close>

definition parse_bool :: "string \<Rightarrow> bool" where
  "parse_bool s \<longleftrightarrow> s \<in> {''1'', ''t'', ''T'', ''TRUE'', ''true'', ''True''}"

record act_state =
  act_args :: "string list"
  extra_env :: "string list"
  self_hosted :: bool
  allow_builds :: bool
  daemon_socket :: string

definition platforms :: "string \<Rightarrow> string list" where
  "platforms val = filter (\<lambda>p. p \<noteq> []) (map trim_space (split_on (CHR '','') val))"

definition act_var :: "string \<Rightarrow> act_state \<Rightarrow> act_state" where
  "act_var kv st = (let (name, val) = env_pair kv in
     if name = actPlatformsEnv then
       st\<lparr>act_args := act_args st @ concat (map (\<lambda>p. [''-P'', p]) (platforms val)),
          self_hosted := self_hosted st \<or> platforms val \<noteq> []\<rparr>
     else if name = allowBuildsEnv then st\<lparr>allow_builds := parse_bool (trim_space val)\<rparr>
     else if name = actDaemonSocketEnv then
       (if trim_space val \<noteq> [] then st\<lparr>daemon_socket := trim_space val\<rparr> else st)
     else (case cut_prefix runnerSecretPrefix name of
         None \<Rightarrow> st
       | Some secret \<Rightarrow>
           if secret = [] then st
           else st\<lparr>extra_env := extra_env st @ [secret @ ''='' @ val], act_args := act_args st @ [''-s'', secret]\<rparr>))"

definition socket_args :: "act_state \<Rightarrow> string list" where
  "socket_args st = (if self_hosted st then []
     else if \<not> allow_builds st then [''--container-daemon-socket'', ''-'']
     else [''--container-daemon-socket'', daemon_socket st])"

definition scan_env :: "string \<Rightarrow> string list \<Rightarrow> act_state" where
  "scan_env dir environ = fold act_var environ
     \<lparr>act_args = [''--workflows'', dir], extra_env = [], self_hosted = False, allow_builds = False,
      daemon_socket = defaultActDaemonSocket\<rparr>"

definition actArgs :: "string \<Rightarrow> string list \<Rightarrow> string list \<times> string list" where
  "actArgs dir environ = (let st = scan_env dir environ in (act_args st @ socket_args st, extra_env st))"

datatype act_outcome = ActMissing string | ActExited nat bytes | ActFailed string bytes

definition engine_run :: "(string list \<Rightarrow> string list \<Rightarrow> string \<Rightarrow> act_outcome) \<Rightarrow> string list \<Rightarrow> string \<Rightarrow> string
    \<Rightarrow> bytes \<times> bool \<times> string option" where
  "engine_run act environ checkout dir = (case actArgs dir environ of (args, extra) \<Rightarrow>
     (case act args (environ @ extra) checkout of
        ActMissing m \<Rightarrow> ([], False, Some m)
      | ActExited code out \<Rightarrow> (out, code = 0, None)
      | ActFailed m out \<Rightarrow> (out, False, Some m)))"

section \<open>The clone: git.go\<close>

text \<open>
  \<open>url_of\<close> is the URL with the credentials and the path of the repository, \<open>None\<close> if the base
  does not parse; \<open>git\<close> runs a command in a directory and returns the text of its failure.
\<close>

definition Clone :: "(string \<Rightarrow> string list \<Rightarrow> 'w \<Rightarrow> string option \<times> 'w) \<Rightarrow> (string \<Rightarrow> string \<Rightarrow> string option)
    \<Rightarrow> string \<Rightarrow> string \<Rightarrow> string \<Rightarrow> string \<Rightarrow> string \<Rightarrow> 'w \<Rightarrow> string option \<times> 'w" where
  "Clone git url_of repo sha ref token dest = (case url_of token (''/'' @ repo) of
      None \<Rightarrow> Pair (Some ''parse base url'')
    | Some u \<Rightarrow> handleE (git [] [''clone'', ''--quiet'', u, dest]) (\<lambda>r. case r of
        Some m \<Rightarrow> Pair (Some (''git clone: '' @ m))
      | None \<Rightarrow>
          (let branch = trim_prefix ''refs/heads/'' ref in
           handleE (git dest (if branch \<noteq> [] \<and> branch \<noteq> ref
                    then [''checkout'', ''--quiet'', ''-B'', branch, sha]
                    else [''-c'', ''advice.detachedHead=false'', ''checkout'', ''--quiet'', sha]))
             (\<lambda>r. Pair (map_option (\<lambda>m. ''git checkout: '' @ m) r)))))"

section \<open>The runner: runner.go\<close>

record runner_config =
  rc_base :: string
  rc_job :: int
  rc_secret :: string
  rc_token :: string

definition ConfigFromEnv :: "(string \<Rightarrow> string) \<Rightarrow> string + runner_config" where
  "ConfigFromEnv getenv = (case parse_int64 (getenv ''GITMOTE_CI_JOB_ID'') of
      None \<Rightarrow> Inl ''GITMOTE_CI_JOB_ID''
    | Some i \<Rightarrow>
        if getenv ''GITMOTE_URL'' = [] then Inl ''GITMOTE_URL is not set''
        else if getenv ''WORKER_SECRET'' = [] then Inl ''WORKER_SECRET is not set''
        else Inr \<lparr>rc_base = getenv ''GITMOTE_URL'', rc_job = i, rc_secret = getenv ''WORKER_SECRET'',
          rc_token = getenv ''GITMOTE_CI_CLONE_TOKEN''\<rparr>)"

text \<open>The operations on the world; an HTTP call fails in transport or returns a status and a body.\<close>

record 'w world =
  w_claim :: "string \<Rightarrow> int \<Rightarrow> 'w \<Rightarrow> (string + nat \<times> bytes) \<times> 'w"
  w_tempdir :: "'w \<Rightarrow> (string + string) \<times> 'w"
  w_clone :: "string \<Rightarrow> string \<Rightarrow> string \<Rightarrow> string \<Rightarrow> string \<Rightarrow> 'w \<Rightarrow> string option \<times> 'w"
  w_engine :: "int \<Rightarrow> string \<Rightarrow> string \<Rightarrow> 'w \<Rightarrow> (bytes \<times> bool \<times> string option) \<times> 'w"
  w_complete :: "string \<Rightarrow> int \<Rightarrow> string \<Rightarrow> bytes \<Rightarrow> 'w \<Rightarrow> (string + nat \<times> bytes) \<times> 'w"

text \<open>What an error says of a response: its status and the beginning of its body.\<close>

definition bad_status :: "nat \<Rightarrow> bytes \<Rightarrow> string" where
  "bad_status code body = ''status '' @ format_int (int code) @ '': '' @ trim_space (take 4096 body)"

datatype claim_result = NotClaimable | ClaimFailed string | Claimed jobSpec

definition runner_claim :: "'w world \<Rightarrow> runner_config \<Rightarrow> 'w \<Rightarrow> claim_result \<times> 'w" where
  "runner_claim W c = handleE (w_claim W (rc_secret c) (rc_job c)) (\<lambda>r. Pair (case r of
      Inl m \<Rightarrow> ClaimFailed m
    | Inr (code, body) \<Rightarrow>
        if code = 404 then NotClaimable
        else if code \<noteq> 200 then ClaimFailed (''claim: '' @ bad_status code body)
        else (case decode_spec body of None \<Rightarrow> ClaimFailed ''claim: decode spec'' | Some sp \<Rightarrow> Claimed sp)))"

text \<open>\<open>None\<close> is a nil error.\<close>

definition complete :: "'w world \<Rightarrow> runner_config \<Rightarrow> int \<Rightarrow> string \<Rightarrow> bytes \<Rightarrow> 'w \<Rightarrow> string option \<times> 'w" where
  "complete W c job status log = handleE (w_complete W (rc_secret c) job status log) (\<lambda>r. Pair (case r of
      Inl m \<Rightarrow> Some (''complete job '' @ format_int job @ '': '' @ m)
    | Inr (code, body) \<Rightarrow>
        if code \<noteq> 200 then Some (''complete job '' @ format_int job @ '': '' @ bad_status code body) else None))"

definition Run :: "'w world \<Rightarrow> runner_config \<Rightarrow> string option \<Rightarrow> 'w \<Rightarrow> string option \<times> 'w" where
  "Run W c workDir0 = handleE (runner_claim W c) (\<lambda>cl. case cl of
      NotClaimable \<Rightarrow> Pair None
    | ClaimFailed m \<Rightarrow> Pair (Some (''claim job '' @ format_int (rc_job c) @ '': '' @ m))
    | Claimed sp \<Rightarrow>
        handleE (case workDir0 of Some d \<Rightarrow> Pair (Inr d) | None \<Rightarrow> w_tempdir W) (\<lambda>td. case td of
            Inl m \<Rightarrow> Pair (Some (''work dir: '' @ m))
          | Inr workDir \<Rightarrow>
              (let dest = path_join [workDir, ''repo''] in
               handleE (w_clone W (js_repo sp) (js_sha sp) (js_ref sp) (rc_token c) dest) (\<lambda>cr. case cr of
                   Some m \<Rightarrow> complete W c (js_job sp) ''error'' (''clone failed: '' @ m @ [newline])
                 | None \<Rightarrow> handleE (w_engine W (js_job sp) dest (js_dir sp)) (\<lambda>(log, passed, er).
                     case er of
                       Some m \<Rightarrow> complete W c (js_job sp) ''error''
                         (log @ newline # ''engine error: '' @ m @ [newline])
                     | None \<Rightarrow> complete W c (js_job sp) (if passed then ''passed'' else ''failed'') log)))))"

section \<open>The live tail: stream.go\<close>

text \<open>
  The writer and the flush loop share \<open>pending\<close> under a mutex, so a run is a sequence of writes
  and flushes; \<open>stop\<close> flushes once more. \<open>post\<close> says whether a chunk reached the server.
\<close>

record streamer =
  stream_pending :: bytes
  stream_posted :: "bytes list"

datatype stream_event = StreamWrite bytes | StreamFlush bool

definition stream_write :: "bytes \<Rightarrow> streamer \<Rightarrow> streamer" where
  "stream_write p s = s\<lparr>stream_pending := stream_pending s @ p\<rparr>"

definition stream_flush :: "bool \<Rightarrow> streamer \<Rightarrow> streamer" where
  "stream_flush ok s = (let chunk = stream_pending s; s1 = s\<lparr>stream_pending := []\<rparr> in
     if chunk = [] then s1 else if ok then s1\<lparr>stream_posted := stream_posted s @ [chunk]\<rparr> else s1)"

fun stream_step :: "streamer \<Rightarrow> stream_event \<Rightarrow> streamer" where
  "stream_step s (StreamWrite p) = stream_write p s"
| "stream_step s (StreamFlush ok) = stream_flush ok s"

definition newLogStreamer :: streamer where
  "newLogStreamer = \<lparr>stream_pending = [], stream_posted = []\<rparr>"

definition stream_run :: "stream_event list \<Rightarrow> bool \<Rightarrow> streamer" where
  "stream_run evs last_ok = stream_flush last_ok (foldl stream_step newLogStreamer evs)"

section \<open>The local trigger: local.go\<close>

text \<open>\<open>flattenEnv\<close> lists the map in any order: \<open>keys\<close> is the order that Go's map gives.\<close>

definition flattenEnv :: "string list \<Rightarrow> env \<Rightarrow> string list" where
  "flattenEnv ks e = map (\<lambda>k. k @ ''='' @ the (e k)) ks"

text \<open>
  The environment of the local runner. \<open>os/exec\<close> keeps, of several entries for a key, the
  last: \<open>dedup_env\<close>.
\<close>

fun dedup_env :: "string list \<Rightarrow> string list" where
  "dedup_env [] = []"
| "dedup_env (kv # kvs) =
     (if fst (env_pair kv) \<in> (\<lambda>x. fst (env_pair x)) ` set kvs then dedup_env kvs else kv # dedup_env kvs)"

definition local_env :: "string list \<Rightarrow> string list \<Rightarrow> env \<Rightarrow> string list" where
  "local_env server_env ks e = dedup_env (server_env @ flattenEnv ks e)"

section \<open>What a workflow is given\<close>

definition secret_entry :: "string \<Rightarrow> string option" where
  "secret_entry kv = (let (name, val) = env_pair kv in
     case cut_prefix runnerSecretPrefix name of None \<Rightarrow> None
     | Some secret \<Rightarrow> if secret = [] then None else Some (secret @ ''='' @ val))"

lemma special_names:
  "cut_prefix runnerSecretPrefix actPlatformsEnv = None" "cut_prefix runnerSecretPrefix allowBuildsEnv = None"
  "cut_prefix runnerSecretPrefix actDaemonSocketEnv = None"
  by code_simp+

lemma act_var_extra: "extra_env (act_var kv st) = extra_env st @ (case secret_entry kv of None \<Rightarrow> [] | Some x \<Rightarrow> [x])"
  using special_names
  by (auto simp: act_var_def secret_entry_def Let_def split: prod.split option.split)

lemma scan_extra: "extra_env (fold act_var env st) = extra_env st @ List.map_filter secret_entry env"
  by (induction env arbitrary: st) (auto simp: act_var_extra map_filter_simps split: option.split)

lemma snd_actArgs: "snd (actArgs dir env) = List.map_filter secret_entry env"
  by (simp add: actArgs_def scan_env_def scan_extra Let_def)

lemma env_pair_entry: "CHR ''='' \<notin> set k \<Longrightarrow> env_pair (k @ ''='' @ v) = (k, v)"
  by (simp add: env_pair_def cut_char)

lemma dedup_subset: "set (dedup_env xs) \<subseteq> set xs"
  by (induction xs) auto

lemma dedup_keeps_last:
  "distinct (map (fst \<circ> env_pair) ys) \<Longrightarrow> set ys \<subseteq> set (dedup_env (xs @ ys))"
proof (induction xs)
  case Nil
  then show ?case by (induction ys) auto
qed auto

lemma dedup_keys: "distinct (map (fst \<circ> env_pair) (dedup_env xs))"
proof (induction xs)
  case (Cons x xs)
  then show ?case using dedup_subset[of xs] by auto
qed simp

lemma workflow_secrets:
  assumes "distinct ks" "set ks = dom e" "\<forall>k \<in> set ks. CHR ''='' \<notin> set k"
    and "\<forall>kv \<in> set base. secret_entry kv = None"
    and "\<forall>k v. e k = Some v \<longrightarrow> (case cut_prefix runnerSecretPrefix k of None \<Rightarrow> True | Some n \<Rightarrow> n \<noteq> [] \<longrightarrow> secrets n = Some v)"
    and "\<forall>n v. secrets n = Some v \<longrightarrow> n \<noteq> [] \<and> e (runnerSecretPrefix @ n) = Some v"
  shows "set (snd (actArgs dir (local_env base ks e))) = {n @ ''='' @ v | n v. secrets n = Some v}"
proof -
  let ?es = "flattenEnv ks e"
  have pair: "env_pair (k @ ''='' @ v) = (k, v)" if "k \<in> set ks" for k v
    using assms(3) that env_pair_entry by blast
  have "map (fst \<circ> env_pair) ?es = ks" using pair by (simp add: flattenEnv_def map_idI)
  then have kept: "set ?es \<subseteq> set (local_env base ks e)"
    unfolding local_env_def using assms(1) by (intro dedup_keeps_last) simp
  have sub: "set (local_env base ks e) \<subseteq> set base \<union> set ?es"
    unfolding local_env_def using dedup_subset by fastforce
  have entry: "secret_entry (k @ ''='' @ v) = (case cut_prefix runnerSecretPrefix k of None \<Rightarrow> None
      | Some n \<Rightarrow> if n = [] then None else Some (n @ ''='' @ v))" if "k \<in> set ks" for k v
    using pair[OF that] by (simp add: secret_entry_def)
  show ?thesis
  proof (intro equalityI subsetI)
    fix x assume "x \<in> set (snd (actArgs dir (local_env base ks e)))"
    then obtain kv where kv: "kv \<in> set (local_env base ks e)" "secret_entry kv = Some x"
      by (auto simp: snd_actArgs in_map_filter)
    with sub assms(4) have "kv \<in> set ?es" by auto
    then obtain k where k: "k \<in> set ks" "kv = k @ ''='' @ the (e k)" by (auto simp: flattenEnv_def)
    with assms(2) obtain v where v: "e k = Some v" by auto
    with k kv(2) entry obtain n where n: "cut_prefix runnerSecretPrefix k = Some n" "n \<noteq> []" "x = n @ ''='' @ v"
      by (auto split: option.splits if_splits)
    have "secrets n = Some v" using assms(5)[rule_format, OF v] n by simp
    with n show "x \<in> {n @ ''='' @ v | n v. secrets n = Some v}" by blast
  next
    fix x assume "x \<in> {n @ ''='' @ v | n v. secrets n = Some v}"
    then obtain n v where n: "secrets n = Some v" "x = n @ ''='' @ v" by blast
    let ?k = "runnerSecretPrefix @ n"
    from assms(6) n have e: "n \<noteq> []" "e ?k = Some v" by auto
    with assms(2) have k: "?k \<in> set ks" by auto
    from imageI[OF k, of "\<lambda>k. k @ ''='' @ the (e k)"] e(2) have "?k @ ''='' @ v \<in> set ?es"
      by (simp add: flattenEnv_def)
    moreover have "secret_entry (?k @ ''='' @ v) = Some x" using entry[OF k] e(1) n(2) by simp
    ultimately show "x \<in> set (snd (actArgs dir (local_env base ks e)))"
      using kept unfolding snd_actArgs in_map_filter by blast
  qed
qed



text \<open>
  The hypothesis on the environment does not hold for the local trigger: it starts the runner
  over the environment of the server, and the server's master key is a variable with the
  secrets' prefix. The engine takes it for a secret named \<open>KEY_V1\<close>, and every workflow
  can read it.
\<close>

lemma dedup_keeps_entry:
  "fst (env_pair kv) \<notin> (\<lambda>x. fst (env_pair x)) ` set ys \<Longrightarrow> kv \<in> set (dedup_env (xs @ kv # ys))"
  by (induction xs) auto

lemma local_runner_gets_master_key:
  assumes "list_all (\<lambda>k. CHR ''='' \<notin> set k \<and> k \<noteq> keyEnvPrefix @ ''1'') ks"
  shows "''KEY_V1='' @ key \<in> set (snd (actArgs dir (local_env (server_env @ [keyEnvPrefix @ ''1='' @ key]) ks e)))"
proof -
  let ?kv = "keyEnvPrefix @ ''1='' @ key"
  have "CHR ''='' \<notin> set (keyEnvPrefix @ ''1'')" by (simp add: keyEnvPrefix_def)
  from env_pair_entry[OF this, of key] have p: "env_pair ?kv = (keyEnvPrefix @ ''1'', key)" by simp
  have "fst (env_pair (k @ ''='' @ v)) = k" if "k \<in> set ks" for k v
    using assms that env_pair_entry[of k v] by (simp add: list_all_iff)
  then have "fst (env_pair ?kv) \<notin> (\<lambda>x. fst (env_pair x)) ` set (flattenEnv ks e)"
    using assms p by (auto simp: flattenEnv_def list_all_iff)
  from dedup_keeps_entry[OF this, of server_env]
  have "?kv \<in> set (local_env (server_env @ [?kv]) ks e)" by (simp add: local_env_def)
  moreover have "cut_prefix runnerSecretPrefix (keyEnvPrefix @ ''1'') = Some ''KEY_V1''" by code_simp
  then have "secret_entry ?kv = Some (''KEY_V1='' @ key)" unfolding secret_entry_def p by simp
  ultimately show ?thesis unfolding snd_actArgs in_map_filter by blast
qed

section \<open>The socket of the Docker daemon\<close>

lemma act_var_switches:
  "self_hosted (act_var kv st) \<longleftrightarrow> self_hosted st \<or> (fst (env_pair kv) = actPlatformsEnv \<and> platforms (snd (env_pair kv)) \<noteq> [])"
  "allow_builds (act_var kv st) = (if fst (env_pair kv) = allowBuildsEnv
     then parse_bool (trim_space (snd (env_pair kv))) else allow_builds st)"
proof -
  have "allowBuildsEnv \<noteq> actPlatformsEnv" by (simp add: allowBuildsEnv_def actPlatformsEnv_def)
  then show "self_hosted (act_var kv st) \<longleftrightarrow> self_hosted st \<or> (fst (env_pair kv) = actPlatformsEnv \<and> platforms (snd (env_pair kv)) \<noteq> [])"
    "allow_builds (act_var kv st) = (if fst (env_pair kv) = allowBuildsEnv
     then parse_bool (trim_space (snd (env_pair kv))) else allow_builds st)"
    by (auto simp: act_var_def Let_def split: prod.split option.split)
qed

definition opted_in :: "string list \<Rightarrow> bool" where
  "opted_in env \<longleftrightarrow> (\<exists>kv \<in> set env. fst (env_pair kv) = allowBuildsEnv \<and> parse_bool (trim_space (snd (env_pair kv))))"

definition hosts_itself :: "string list \<Rightarrow> bool" where
  "hosts_itself env \<longleftrightarrow> (\<exists>kv \<in> set env. fst (env_pair kv) = actPlatformsEnv \<and> platforms (snd (env_pair kv)) \<noteq> [])"

lemma fold_switches:
  "self_hosted (fold act_var env st) \<longleftrightarrow> self_hosted st \<or> hosts_itself env"
  "\<not> allow_builds st \<Longrightarrow> \<not> opted_in env \<Longrightarrow> \<not> allow_builds (fold act_var env st)"
  by (induction env arbitrary: st) (auto simp: act_var_switches hosts_itself_def opted_in_def)

text \<open>
  No workflow reaches the Docker daemon of the host by default: unless the operator has
  opted in with a value that Go reads as true, or steps run without a container anyway, the
  last word of the command line suppresses the mount, whatever else the environment holds.
\<close>

theorem socket_suppressed:
  assumes "\<not> opted_in environ" "\<not> hosts_itself environ"
  shows "\<exists>args. fst (actArgs dir environ) = args @ [''--container-daemon-socket'', ''-'']"
  using assms fold_switches[where env = environ] by (simp add: actArgs_def scan_env_def socket_args_def Let_def)

lemma socket_suppressed_witness:
  "\<exists>args. fst (actArgs ''wf'' [''GITMOTE_CI_ALLOW_BUILDS=yes'', ''GITMOTE_ACT_PLATFORMS= , '']) =
     args @ [''--container-daemon-socket'', ''-'']"
proof (rule socket_suppressed)
  show "\<not> opted_in [''GITMOTE_CI_ALLOW_BUILDS=yes'', ''GITMOTE_ACT_PLATFORMS= , '']" by code_simp
  show "\<not> hosts_itself [''GITMOTE_CI_ALLOW_BUILDS=yes'', ''GITMOTE_ACT_PLATFORMS= , '']" by code_simp
qed

section \<open>The runner and the server\<close>

text \<open>
  The calls of the runner answered by the endpoints of \<open>Report\<close>: the answer to a claim comes as
  the bytes that the server writes, and the runner decodes them. The clone and the engine are
  any operations on the state of the server: whatever other requests come in meanwhile.
\<close>

definition served :: "'s store_ops \<Rightarrow> string \<Rightarrow> bool \<Rightarrow> time \<Rightarrow> 's ci_server world \<Rightarrow> bool" where
  "served S secret leader now W \<longleftrightarrow>
     (\<forall>hdr i s. w_claim W hdr i s = (case handleClaim secret leader now hdr (format_int i) s of
        ((code, b), t) \<Rightarrow> (Inr (code, writeBody b), t))) \<and>
     (\<forall>hdr i st log s. w_complete W hdr i st log s =
        (case handleComplete S secret leader now hdr (format_int i) st (Some log) s of
           ((code, b), t) \<Rightarrow> (Inr (code, writeBody b), t)))"

definition job_finished :: "int \<Rightarrow> db \<Rightarrow> bool" where
  "job_finished i d \<longleftrightarrow> (\<exists>j \<in> set (jobs d). job_id j = i \<and> isTerminal (job_stat j))"

lemma jobID_format: "int64_id i \<Longrightarrow> jobID (format_int i) = Some i"
  by (simp add: jobID_def int64_id_def)

lemma handleClaim_spec:
  assumes "handleClaim secret leader now hdr (format_int i) s = ((code, Spec sp), t)" "int64_id i"
  shows "js_job sp = i"
proof -
  from assms have "authed secret leader hdr = None"
    by (auto simp: handleClaim_def authed_def split: option.splits if_splits)
  with assms have "lookupE (on_cdb (ClaimJob i now)) (respond 404 (Message ''job not found or not claimable''))
         (\<lambda>_. respond 500 (Message ''internal error''))
         (\<lambda>j. handleE (on_cdb (GetRun (job_run j))) (\<lambda>r. case r of
              Inl e \<Rightarrow> respond 500 (Message ''internal error'')
            | Inr rn \<Rightarrow> handleE (on_cdb (GetRepoByID (run_repo rn))) (\<lambda>r. case r of
                Inl e \<Rightarrow> respond 500 (Message ''internal error'')
              | Inr rp \<Rightarrow> respond 200 (Spec \<lparr>js_job = job_id j, js_run = run_id rn, js_repo = repo_name rp,
                    js_sha = run_sha rn, js_ref = run_ref rn, js_dir = workflowDir\<rparr>)))) s = ((code, Spec sp), t)"
    by (simp add: handleClaim_def jobID_format)
  then show ?thesis
  proof (rule lookupE_cases)
    fix j u
    assume c: "on_cdb (ClaimJob i now) s = (Inr j, u)" and
      k: "handleE (on_cdb (GetRun (job_run j))) (\<lambda>r. case r of
              Inl e \<Rightarrow> respond 500 (Message ''internal error'')
            | Inr rn \<Rightarrow> handleE (on_cdb (GetRepoByID (run_repo rn))) (\<lambda>r. case r of
                Inl e \<Rightarrow> respond 500 (Message ''internal error'')
              | Inr rp \<Rightarrow> respond 200 (Spec \<lparr>js_job = job_id j, js_run = run_id rn, js_repo = repo_name rp,
                    js_sha = run_sha rn, js_ref = run_ref rn, js_dir = workflowDir\<rparr>))) u = ((code, Spec sp), t)"
    from k have "js_job sp = job_id j"
      by (auto simp: handleE_def respond_def split: prod.splits sum.splits)
    moreover have "ClaimJob i now (cdb s) = (Inr j, cdb u)" using c by (auto simp: on_cdb_def split: prod.splits)
    from first_where_Some[OF ClaimJob_Inr(3)[OF this]] have "job_id j = i" by simp
    ultimately show ?thesis by simp
  qed (auto simp: respond_def)
qed

lemma handleClaim_200:
  assumes "handleClaim secret leader now hdr pv s = ((200, b), t)"
  obtains sp where "b = Spec sp"
proof -
  obtain i where "lookupE (on_cdb (ClaimJob i now)) (respond 404 (Message ''job not found or not claimable''))
         (\<lambda>_. respond 500 (Message ''internal error''))
         (\<lambda>j. handleE (on_cdb (GetRun (job_run j))) (\<lambda>r. case r of
              Inl e \<Rightarrow> respond 500 (Message ''internal error'')
            | Inr rn \<Rightarrow> handleE (on_cdb (GetRepoByID (run_repo rn))) (\<lambda>r. case r of
                Inl e \<Rightarrow> respond 500 (Message ''internal error'')
              | Inr rp \<Rightarrow> respond 200 (Spec \<lparr>js_job = job_id j, js_run = run_id rn, js_repo = repo_name rp,
                    js_sha = run_sha rn, js_ref = run_ref rn, js_dir = workflowDir\<rparr>)))) s = ((200, b), t)"
    using assms by (auto simp: handleClaim_def authed_def respond_def split: option.splits if_splits)
  then show thesis
    by (rule lookupE_cases) (auto simp: respond_def handleE_def intro: that split: prod.splits sum.splits)
qed

lemma claimed_job:
  assumes "served S secret leader now W" "runner_claim W c s = (Claimed sp, t)" "int64_id (rc_job c)"
  shows "js_job sp = rc_job c"
proof -
  obtain code b u where h: "handleClaim secret leader now (rc_secret c) (format_int (rc_job c)) s = ((code, b), u)"
    by (metis prod.collapse)
  with assms(1,2) have d: "code = 200" "decode_spec (writeBody b) = Some sp"
    by (auto simp: runner_claim_def handleE_def served_def split: if_splits option.splits)
  from handleClaim_200[OF h[unfolded d(1)]] obtain sp0 where b: "b = Spec sp0" by blast
  with d(2) have "js_job sp = js_job sp0" by (simp add: decoded_spec_job)
  with handleClaim_spec[OF h[unfolded b] assms(3)] show ?thesis by simp
qed

lemma completionStatus_terminal: "completionStatus st = Some status \<Longrightarrow> isTerminal status"
  by (auto simp: completionStatus_def split: if_splits)

lemma complete_check_finished:
  assumes "complete_check secret leader hdr (format_int i) st s = (Inl (200, x), t)" "int64_id i"
  shows "job_finished i (cdb t)"
proof -
  from assms obtain status where a: "authed secret leader hdr = None" "completionStatus st = Some status"
    by (auto simp: complete_check_def errE_def authed_def jobID_format split: option.splits if_splits)
  have "lookupE (on_cdb (GetJob i)) (errE (404, Message ''job not found''))
      (\<lambda>_. errE (500, Message ''internal error''))
      (\<lambda>j. if isTerminal (job_stat j) then errE (200, OkTrue)
           else handleE (on_cdb (GetRun (job_run j))) (\<lambda>r. case r of
                Inl e \<Rightarrow> errE (500, Message ''internal error'') | Inr rn \<Rightarrow> retE (j, rn, status))) s = (Inl (200 :: nat, x), t)"
    using assms a by (simp add: complete_check_def jobID_format)
  then show ?thesis
  proof (rule lookupE_cases)
    fix j u
    assume g: "on_cdb (GetJob i) s = (Inr j, u)" and
      k: "(if isTerminal (job_stat j) then errE (200, OkTrue)
           else handleE (on_cdb (GetRun (job_run j))) (\<lambda>r. case r of
                Inl e \<Rightarrow> errE (500, Message ''internal error'') | Inr rn \<Rightarrow> retE (j, rn, status))) u = (Inl (200 :: nat, x), t)"
    from k have "isTerminal (job_stat j)" "t = u"
      by (auto simp: errE_def handleE_def retE_def split: if_splits prod.splits sum.splits)
    moreover from on_cdb_query_row[OF g[unfolded GetJob_def]] obtain fs where
      "u = s\<lparr>cdb := (cdb s)\<lparr>faults := fs\<rparr>\<rparr>" "first_where (\<lambda>j. job_id j = i) (jobs (cdb s)) = Some j"
      by auto
    moreover from first_where_Some[OF this(2)] have "j \<in> set (jobs (cdb s))" "job_id j = i" by auto
    ultimately show ?thesis by (auto simp: job_finished_def)
  qed (auto simp: errE_def)
qed

lemma rollupRun_jobs: "jobs (cdb (snd (rollupRun i now s))) = jobs (cdb s)"
proof -
  have "keeps (\<lambda>s'. jobs (cdb s') = jobs (cdb s)) (rollupRun i now)"
    by (rule keeps_rollupRun[where P = "\<lambda>d. jobs d = jobs (cdb s)"])
       (simp_all add: keeps_jobs_SetRunStatus fault_free_def)
  then show ?thesis by (auto dest: keepsD)
qed

lemma complete_write_finished:
  assumes "complete_write S now body (j, rn, status) s = ((200, x), t)" "isTerminal status"
  shows "job_finished (job_id j) (cdb t)"
proof -
  obtain r u where l: "storeLog S (logKey rn j) body s = (r, u)" by fastforce
  obtain q v where q: "SetJobResult (job_id j) status (logKey rn j) now (cdb u) = (q, v)" by fastforce
  obtain y z where x: "rollupRun (run_id rn) now (u\<lparr>cdb := v\<rparr>) = (y, z)"
    by (cases "rollupRun (run_id rn) now (u\<lparr>cdb := v\<rparr>)")
  from assms(1) l q x have rq: "q = Inr ()" "t = snd (on_clive (Finish (job_id j) now) z)"
    by (auto simp: complete_write_def handleE_def respond_def on_cdb_def on_clive_def split: sum.splits)
  have "job_is (job_id j) status (logKey rn j) v" using SetJobResult_sets(1) q rq(1) by blast
  then have "job_finished (job_id j) v" using assms(2) by (auto simp: job_is_def job_finished_def)
  moreover have "jobs (cdb z) = jobs v" using rollupRun_jobs[of "run_id rn" now "u\<lparr>cdb := v\<rparr>"] x by simp
  ultimately show ?thesis by (simp add: rq(2) on_clive_def job_finished_def)
qed

lemma handleComplete_finished:
  assumes "handleComplete S secret leader now hdr (format_int i) st body s = ((200, x), t)" "int64_id i"
  shows "job_finished i (cdb t)"
proof -
  obtain r u where c: "complete_check secret leader hdr (format_int i) st s = (r, u)" by fastforce
  show ?thesis
  proof (cases r)
    case (Inl resp)
    with assms(1) c have "complete_check secret leader hdr (format_int i) st s = (Inl (200, x), t)"
      by (simp add: handleComplete_def handleE_def)
    then show ?thesis by (rule complete_check_finished[OF _ assms(2)])
  next
    case (Inr y)
    obtain j rn status where y: "y = (j, rn, status)" by (cases y)
    with assms(1) c Inr have w: "complete_write S now body (j, rn, status) u = ((200, x), t)"
      by (simp add: handleComplete_def handleE_def)
    note chk = complete_check_Inr[OF c[unfolded Inr y]]
    from chk(2) assms(2) have "job_id j = i" by (simp add: jobID_format)
    with complete_write_finished[OF w completionStatus_terminal[OF chk(3)]] show ?thesis by simp
  qed
qed

lemma complete_finished:
  assumes "served S secret leader now W" "complete W c i st log s = (None, t)" "int64_id i"
  shows "job_finished i (cdb t)"
proof -
  obtain code b u where h: "handleComplete S secret leader now (rc_secret c) (format_int i) st (Some log) s = ((code, b), u)"
    by (metis prod.collapse)
  with assms(1,2) have "code = 200" "u = t"
    by (auto simp: complete_def handleE_def served_def split: if_splits)
  with handleComplete_finished[OF _ assms(3)] h show ?thesis by blast
qed

lemma Run_finishes:
  assumes "served S secret leader now W" "int64_id (rc_job c)" "Run W c wd s = (None, t)"
  shows "fst (runner_claim W c s) = NotClaimable \<or> job_finished (rc_job c) (cdb t)"
proof -
  obtain cl s1 where cl: "runner_claim W c s = (cl, s1)" by fastforce
  show ?thesis
  proof (cases cl)
    case (Claimed sp)
    from claimed_job[OF assms(1) cl[unfolded Claimed] assms(2)] have js: "js_job sp = rc_job c" .
    have "\<exists>st log s2. complete W c (js_job sp) st log s2 = (None, t)"
      using assms(3) cl Claimed
      by (auto simp: Run_def handleE_def Let_def split: prod.splits sum.splits option.splits)
    with complete_finished[OF assms(1) _ assms(2)] js show ?thesis by auto
  qed (use assms(3) cl in \<open>simp_all add: Run_def handleE_def\<close>)
qed

text \<open>
  C36. A runner that exits without an error leaves no job open: either the server refused it
  the job, or the job that it asked for has a final status when it exits, though it knows the job
  only from the JSON that the server sent, whatever the clone and the engine did
  and whatever other requests the server handled meanwhile.
\<close>

theorem runner_leaves_no_open_job:
  assumes "served S secret leader now W" "int64_id (rc_job c)" "Run W c wd s = (None, t)"
  shows "fst (runner_claim W c s) = NotClaimable \<or> job_finished (rc_job c) (cdb t)"
  by (rule Run_finishes[OF assms])

definition sample_world :: "mem ci_server world" where
  "sample_world = \<lparr>
     w_claim = (\<lambda>hdr i s. case handleClaim ''s3cret'' True 5 hdr (format_int i) s of
        ((code, b), t) \<Rightarrow> (Inr (code, writeBody b), t)),
     w_tempdir = Pair (Inr ''/tmp/x''), w_clone = (\<lambda>_ _ _ _ _. Pair None),
     w_engine = (\<lambda>_ _ _. Pair (''ok'', True, None)),
     w_complete = (\<lambda>hdr i st log s. case handleComplete Mem ''s3cret'' True 5 hdr (format_int i) st (Some log) s of
           ((code, b), t) \<Rightarrow> (Inr (code, writeBody b), t))\<rparr>"

lemma runner_leaves_no_open_job_witness:
  "let c = \<lparr>rc_base = ''http://h'', rc_job = 1, rc_secret = ''s3cret'', rc_token = ''t''\<rparr>;
       t = snd (Run sample_world c None sample_ci)
   in fst (Run sample_world c None sample_ci) = None \<and> job_finished 1 (cdb t)"
proof -
  let ?c = "\<lparr>rc_base = ''http://h'', rc_job = 1, rc_secret = ''s3cret'', rc_token = ''t''\<rparr>"
  have sv: "served Mem ''s3cret'' True 5 sample_world" by (simp add: served_def sample_world_def)
  have i: "int64_id (rc_job ?c)" by (simp add: int64_id_def)
  have f: "format_int 1 = ''1''" "jobID ''1'' = Some 1" "completionStatus ''passed'' = Some RunPassed" by code_simp+
  have log: "storeLog Mem key (Some ''ok'') s = on_cstore (Put Mem key (Some ''ok'')) s" for key and s :: "mem ci_server"
    by (simp add: storeLog_def logCap_def)
  define s1 where "s1 = sample_ci\<lparr>cdb := sample_db\<lparr>jobs := update_where (\<lambda>j. job_id j = 1 \<and> job_stat j = RunQueued)
        (\<lambda>j. j\<lparr>job_stat := RunRunning, job_updated := 5\<rparr>) (jobs sample_db)\<rparr>\<rparr>"
  define sp where "sp = \<lparr>js_job = 1, js_run = 1, js_repo = ''app'', js_sha = sha1_a, js_ref = ''refs/heads/main'', js_dir = workflowDir\<rparr>"
  have "handleClaim ''s3cret'' True 5 ''s3cret'' ''1'' sample_ci = ((200, Spec sp), s1)"
    by (simp add: handleClaim_def authed_def f handleE_def lookupE_def GetJob_def GetRun_def GetRepoByID_def
        ClaimJob_def on_cdb_def sample_ci_def sample_db_def query_row_def sql_def update_jobs_def respond_def
        bindE_def update_where_def s1_def sp_def)
  moreover have "decode_spec (writeBody (Spec sp)) = Some sp"
  proof -
    have "\<forall>k \<in> {''app'', sha1_a, ''refs/heads/main'', workflowDir}. \<forall>c \<in> set k. byte c < 128" by code_simp
    then have "utf8_spec sp = sp" by (simp add: utf8_spec_def sp_def ascii_name(1))
    then show ?thesis using spec_roundtrip[of sp] by (simp add: sp_def int64_id_def)
  qed
  ultimately have cl: "runner_claim sample_world ?c sample_ci = (Claimed sp, s1)"
    by (simp add: runner_claim_def sample_world_def handleE_def f)
  have "fst (handleComplete Mem ''s3cret'' True 5 ''s3cret'' ''1'' ''passed'' (Some ''ok'') s1) = (200, OkTrue)"
    by (simp add: handleComplete_def complete_check_def authed_def f handleE_def lookupE_def GetJob_def GetRun_def
        on_cdb_def errE_def retE_def sample_ci_def sample_db_def query_row_def sql_def complete_write_def
        log[unfolded Mem_def] on_cstore_def Mem_def mem_put_def SetJobResult_def update_jobs_def respond_def split_beta s1_def
        update_where_def)
  then have "fst (complete sample_world ?c 1 ''passed'' ''ok'' s1) = None"
    by (simp add: complete_def handleE_def sample_world_def f split_beta)
  moreover have "w_tempdir sample_world = Pair (Inr ''/tmp/x'')" "w_clone sample_world a b c d e = Pair None"
    "w_engine sample_world i a b = Pair (''ok'', True, None)" for a b c d e i
    by (simp_all add: sample_world_def)
  ultimately have r: "fst (Run sample_world ?c None sample_ci) = None"
    using cl by (simp add: Run_def handleE_def sp_def)
  then have "Run sample_world ?c None sample_ci = (None, snd (Run sample_world ?c None sample_ci))"
    by (metis prod.collapse)
  from runner_leaves_no_open_job[OF sv i this] cl r show ?thesis by (simp add: Let_def)
qed

section \<open>What the live tail shows\<close>

definition written :: "stream_event list \<Rightarrow> bytes" where
  "written evs = concat (map (\<lambda>e. case e of StreamWrite p \<Rightarrow> p | StreamFlush _ \<Rightarrow> []) evs)"

definition all_posted :: "stream_event list \<Rightarrow> bool" where
  "all_posted evs \<longleftrightarrow> list_all (\<lambda>e. e \<noteq> StreamFlush False) evs"

lemma stream_steps:
  "all_posted evs \<Longrightarrow>
   concat (stream_posted (foldl stream_step s evs)) @ stream_pending (foldl stream_step s evs) =
     concat (stream_posted s) @ stream_pending s @ written evs"
proof (induction evs arbitrary: s)
  case (Cons e evs)
  from Cons.prems have a: "all_posted evs" "e \<noteq> StreamFlush False" by (simp_all add: all_posted_def)
  have "concat (stream_posted (stream_step s e)) @ stream_pending (stream_step s e) =
      concat (stream_posted s) @ stream_pending s @ written [e]"
  proof (cases e)
    case (StreamFlush ok)
    with a(2) have "ok" by simp
    with StreamFlush show ?thesis by (simp add: stream_flush_def written_def Let_def)
  qed (simp add: stream_write_def written_def)
  with Cons.IH[OF a(1), of "stream_step s e"] show ?case by (simp add: written_def)
qed (simp add: written_def)

lemma stream_whole:
  assumes "all_posted evs"
  shows "concat (stream_posted (stream_run evs True)) = written evs" "stream_pending (stream_run evs ok) = []"
proof -
  let ?s = "foldl stream_step newLogStreamer evs"
  have e: "concat (stream_posted ?s) @ stream_pending ?s = written evs"
    using stream_steps[OF assms, of newLogStreamer] by (simp add: newLogStreamer_def)
  show "concat (stream_posted (stream_run evs True)) = written evs"
    using e by (cases "stream_pending ?s") (simp_all add: stream_run_def stream_flush_def Let_def)
  show "stream_pending (stream_run evs ok) = []"
    by (simp add: stream_run_def stream_flush_def Let_def)
qed

definition deliver :: "int \<Rightarrow> time \<Rightarrow> bytes list \<Rightarrow> LiveLogs \<Rightarrow> LiveLogs" where
  "deliver job now chunks l = fold (\<lambda>c. Append job c now) chunks l"

lemma deliver_shows: "shows_log l job bs \<Longrightarrow> shows_log (deliver job now chunks l) job (bs @ concat chunks)"
proof (induction chunks arbitrary: l bs)
  case (Cons c cs)
  from Cons.IH[OF append_shows(1)[OF Cons.prems, of c now]] show ?case by (simp add: deliver_def)
qed (simp add: deliver_def)

text \<open>
  However the writes of the engine and the ticks of the flush loop are interleaved, the buffer
  of the server holds what the engine has written once the streamer has stopped, if no call
  failed: nothing is lost, repeated or reordered.
\<close>

lemma tail_shows_output:
  assumes "all_posted evs" "shows_log l job []"
  shows "shows_log (deliver job now (stream_posted (stream_run evs True)) l) job (written evs)"
  using deliver_shows[OF assms(2), of now "stream_posted (stream_run evs True)"] stream_whole(1)[OF assms(1)] by simp

end
