(* ===== verification/Lease.thy ===== *)
theory Lease
  imports Prelude
begin

text \<open>
  The lease of the writer in \<open>cmd/gitmote/main.go\<close>: \<open>leaseActivity\<close> with \<open>track\<close>,
  \<open>maybeYield\<close> and \<open>yieldWhenIdle\<close>, and \<open>reconcileOnce\<close>. The requests, the sweep of the CI jobs
  and the yield run at the same time, so the state has a program counter for each of them and
  an event is one step of one of them, cut where the code takes or leaves the mutex, reads
  the clock or calls s3lite. The mutex is a \<open>sync.RWMutex\<close> that only \<open>TryLock\<close> takes for writing,
  so no writer ever waits in it.

  \<open>s3lite\<close> is not part of the repository. Of \<open>TryPromote\<close> the model relies on what the comment of
  the gate says: it is true for the writer at once, and when it is true the instance is the
  writer. A yield that succeeds gives the lease up, one that fails keeps or drops it, and the
  lease may be lost at any time (\<open>Demote\<close>).
\<close>

section \<open>The state of an instance\<close>

datatype request_pc = Away | Gating | Serving | Refused | Stamped

datatype sweep_pc = SweepIdle | SweepGating | SweepRuns | SweepOver

datatype yield_pc = YieldIdle | YieldChecked | YieldLocked | Yielding | YieldUnlocks

record instance_state =
  mu_readers :: nat
  mu_writer :: bool
  act_last :: int
  wall :: int
  leader :: bool
  reqs :: "nat \<Rightarrow> request_pc"
  sweeper :: sweep_pc
  yielder :: yield_pc

datatype lease_event = Arrive nat | Gate nat bool | Stamp nat | Leave nat
  | SweepLock | SweepGate bool | SweepEnd
  | Check | TryLock | Recheck | Yield bool bool | Unlock
  | Tick int | Demote

definition idleYieldAfter :: int where "idleYieldAfter = 5 * 10 ^ 9"

definition newLeaseActivity :: "int \<Rightarrow> bool \<Rightarrow> instance_state" where
  "newLeaseActivity t lead = \<lparr>mu_readers = 0, mu_writer = False, act_last = t, wall = t, leader = lead,
     reqs = (\<lambda>_. Away), sweeper = SweepIdle, yielder = YieldIdle\<rparr>"

definition idle :: "instance_state \<Rightarrow> bool" where
  "idle s \<longleftrightarrow> idleYieldAfter \<le> wall s - act_last s"

section \<open>Steps\<close>

text \<open>\<open>a.mu.RLock()\<close> and \<open>a.mu.RUnlock()\<close>; \<open>None\<close> is a step that cannot be taken now.\<close>

definition rlock :: "(instance_state \<Rightarrow> instance_state) \<Rightarrow> instance_state \<Rightarrow> instance_state option" where
  "rlock k s = (if mu_writer s then None else Some (k (s\<lparr>mu_readers := mu_readers s + 1\<rparr>)))"

definition runlock :: "instance_state \<Rightarrow> instance_state" where
  "runlock s = s\<lparr>mu_readers := mu_readers s - 1\<rparr>"

definition at_req :: "nat \<Rightarrow> request_pc \<Rightarrow> instance_state \<Rightarrow> instance_state" where
  "at_req i pc s = s\<lparr>reqs := (reqs s)(i := pc)\<rparr>"

definition tryPromoted :: "bool \<Rightarrow> (instance_state \<Rightarrow> instance_state) \<Rightarrow> instance_state \<Rightarrow> instance_state option" where
  "tryPromoted ok k s = (if leader s \<and> \<not> ok then None else Some (k (s\<lparr>leader := ok\<rparr>)))"

text \<open>A request that is not always servable: the lock, the gate, the time of its end, the unlock.\<close>

definition track_arrive :: "nat \<Rightarrow> instance_state \<Rightarrow> instance_state option" where
  "track_arrive i s = (if reqs s i = Away then rlock (at_req i Gating) s else None)"

definition track_gate :: "nat \<Rightarrow> bool \<Rightarrow> instance_state \<Rightarrow> instance_state option" where
  "track_gate i ok s = (if reqs s i = Gating then tryPromoted ok (at_req i (if ok then Serving else Refused)) s else None)"

definition track_stamp :: "nat \<Rightarrow> instance_state \<Rightarrow> instance_state option" where
  "track_stamp i s = (if reqs s i = Serving \<or> reqs s i = Refused
     then Some (at_req i Stamped (s\<lparr>act_last := wall s\<rparr>)) else None)"

definition track_leave :: "nat \<Rightarrow> instance_state \<Rightarrow> instance_state option" where
  "track_leave i s = (if reqs s i = Stamped then Some (at_req i Away (runlock s)) else None)"

text \<open>\<open>reconcileOnce\<close>: the lock, the gate, the sweep; its end is not an activity.\<close>

definition sweep_lock :: "instance_state \<Rightarrow> instance_state option" where
  "sweep_lock s = (if sweeper s = SweepIdle then rlock (\<lambda>s. s\<lparr>sweeper := SweepGating\<rparr>) s else None)"

definition sweep_gate :: "bool \<Rightarrow> instance_state \<Rightarrow> instance_state option" where
  "sweep_gate ok s = (if sweeper s = SweepGating
     then tryPromoted ok (\<lambda>s. s\<lparr>sweeper := (if ok then SweepRuns else SweepOver)\<rparr>) s else None)"

definition sweep_end :: "instance_state \<Rightarrow> instance_state option" where
  "sweep_end s = (if sweeper s = SweepRuns \<or> sweeper s = SweepOver
     then Some ((runlock s)\<lparr>sweeper := SweepIdle\<rparr>) else None)"

text \<open>\<open>maybeYield\<close>, from its first test to the deferred unlock.\<close>

definition yield_check :: "instance_state \<Rightarrow> instance_state option" where
  "yield_check s = (if yielder s = YieldIdle
     then Some (s\<lparr>yielder := (if \<not> leader s \<or> \<not> idle s then YieldIdle else YieldChecked)\<rparr>) else None)"

definition yield_tryLock :: "instance_state \<Rightarrow> instance_state option" where
  "yield_tryLock s = (if yielder s = YieldChecked
     then Some (if mu_readers s = 0 \<and> \<not> mu_writer s then s\<lparr>mu_writer := True, yielder := YieldLocked\<rparr>
                else s\<lparr>yielder := YieldIdle\<rparr>) else None)"

definition yield_recheck :: "instance_state \<Rightarrow> instance_state option" where
  "yield_recheck s = (if yielder s = YieldLocked
     then Some (s\<lparr>yielder := (if idle s then Yielding else YieldUnlocks)\<rparr>) else None)"

definition yield_call :: "bool \<Rightarrow> bool \<Rightarrow> instance_state \<Rightarrow> instance_state option" where
  "yield_call ok kept s = (if yielder s = Yielding
     then Some (s\<lparr>leader := leader s \<and> \<not> ok \<and> kept, yielder := YieldUnlocks\<rparr>) else None)"

definition yield_unlock :: "instance_state \<Rightarrow> instance_state option" where
  "yield_unlock s = (if yielder s = YieldUnlocks then Some (s\<lparr>mu_writer := False, yielder := YieldIdle\<rparr>) else None)"

fun instance_step :: "lease_event \<Rightarrow> instance_state \<Rightarrow> instance_state option" where
  "instance_step (Arrive i) s = track_arrive i s"
| "instance_step (Gate i ok) s = track_gate i ok s"
| "instance_step (Stamp i) s = track_stamp i s"
| "instance_step (Leave i) s = track_leave i s"
| "instance_step SweepLock s = sweep_lock s"
| "instance_step (SweepGate ok) s = sweep_gate ok s"
| "instance_step SweepEnd s = sweep_end s"
| "instance_step Check s = yield_check s"
| "instance_step TryLock s = yield_tryLock s"
| "instance_step Recheck s = yield_recheck s"
| "instance_step (Yield ok kept) s = yield_call ok kept s"
| "instance_step Unlock s = yield_unlock s"
| "instance_step (Tick d) s = (if d < 0 then None else Some (s\<lparr>wall := wall s + d\<rparr>))"
| "instance_step Demote s = Some (s\<lparr>leader := False\<rparr>)"

text \<open>\<open>runs evs s\<close>: an instance that started is in state \<open>s\<close> after the events \<open>evs\<close>, the latest first.\<close>

inductive runs :: "lease_event list \<Rightarrow> instance_state \<Rightarrow> bool" where
  start: "runs [] (newLeaseActivity t lead)"
| step: "runs evs s \<Longrightarrow> instance_step e s = Some s' \<Longrightarrow> runs (e # evs) s'"

section \<open>The mutex counts its holders\<close>

definition busy :: "instance_state \<Rightarrow> nat set" where
  "busy s = {i. reqs s i \<noteq> Away}"

definition holders :: "instance_state \<Rightarrow> nat" where
  "holders s = card (busy s) + (if sweeper s = SweepIdle then 0 else 1)"

definition lease_inv :: "instance_state \<Rightarrow> bool" where
  "lease_inv s \<longleftrightarrow> finite (busy s) \<and> mu_readers s = holders s \<and>
     (mu_writer s \<longleftrightarrow> yielder s \<in> {YieldLocked, Yielding, YieldUnlocks}) \<and>
     (mu_writer s \<longrightarrow> mu_readers s = 0) \<and> (yielder s = Yielding \<longrightarrow> idle s)"

lemma busy_at_req [simp]: "busy (at_req i pc s) = (if pc = Away then busy s - {i} else insert i (busy s))"
  by (auto simp: busy_def at_req_def)

lemma busy_update [simp]:
  "busy (s\<lparr>mu_readers := n\<rparr>) = busy s" "busy (s\<lparr>mu_writer := b\<rparr>) = busy s" "busy (s\<lparr>act_last := t\<rparr>) = busy s"
  "busy (s\<lparr>wall := t\<rparr>) = busy s" "busy (s\<lparr>leader := b\<rparr>) = busy s" "busy (s\<lparr>sweeper := sw\<rparr>) = busy s"
  "busy (s\<lparr>yielder := y\<rparr>) = busy s"
  by (simp_all add: busy_def)

lemma at_req_fields [simp]:
  "mu_readers (at_req i pc s) = mu_readers s" "mu_writer (at_req i pc s) = mu_writer s"
  "act_last (at_req i pc s) = act_last s" "wall (at_req i pc s) = wall s" "leader (at_req i pc s) = leader s"
  "sweeper (at_req i pc s) = sweeper s" "yielder (at_req i pc s) = yielder s"
  "reqs (at_req i pc s) = (reqs s)(i := pc)"
  by (simp_all add: at_req_def)

lemma busyI: "reqs s i \<noteq> Away \<Longrightarrow> i \<in> busy s" "reqs s i = Away \<Longrightarrow> i \<notin> busy s"
  by (simp_all add: busy_def)

lemmas pc_steps = track_arrive_def track_gate_def track_stamp_def track_leave_def sweep_lock_def sweep_gate_def
  sweep_end_def yield_check_def yield_tryLock_def yield_recheck_def yield_call_def yield_unlock_def
  rlock_def runlock_def tryPromoted_def

lemma busy_absorb: "reqs s i \<noteq> Away \<Longrightarrow> insert i (busy s) = busy s"
  by (auto simp: busy_def)

text \<open>A request that holds the mutex keeps the yield out, and so does the sweep.\<close>

lemma holder_blocks:
  assumes "lease_inv s" "reqs s i \<noteq> Away \<or> sweeper s \<noteq> SweepIdle"
  shows "\<not> mu_writer s" "yielder s = YieldIdle \<or> yielder s = YieldChecked"
proof -
  have "0 < mu_readers s"
  proof (cases "sweeper s = SweepIdle")
    case True
    with assms have "i \<in> busy s" by (simp add: busyI)
    moreover have "finite (busy s)" "mu_readers s = card (busy s)"
      using assms(1) True by (simp_all add: lease_inv_def holders_def)
    ultimately show ?thesis by (auto simp: card_gt_0_iff)
  qed (use assms(1) in \<open>simp add: lease_inv_def holders_def\<close>)
  with assms(1) show "\<not> mu_writer s" by (auto simp: lease_inv_def)
  with assms(1) show "yielder s = YieldIdle \<or> yielder s = YieldChecked"
    by (cases "yielder s") (auto simp: lease_inv_def)
qed

lemma keep_lock:
  assumes "lease_inv s" "instance_step e s = Some s'"
  shows "lease_inv s'"
proof (cases e)
  case (Arrive i)
  with assms show ?thesis
    by (auto simp: pc_steps lease_inv_def holders_def idle_def busyI split: if_splits)
next
  case (Gate i ok)
  with assms(2) have g: "reqs s i = Gating" "s' = at_req i (if ok then Serving else Refused) (s\<lparr>leader := ok\<rparr>)"
    by (auto simp: pc_steps split: if_splits)
  then have "insert i (busy s) = busy s" by (simp add: busy_absorb)
  with assms(1) g show ?thesis by (auto simp: lease_inv_def holders_def idle_def)
next
  case (Stamp i)
  with assms(2) have g: "reqs s i \<noteq> Away" "s' = at_req i Stamped (s\<lparr>act_last := wall s\<rparr>)"
    by (auto simp: pc_steps split: if_splits)
  then have "insert i (busy s) = busy s" by (simp add: busy_absorb)
  with assms(1) g holder_blocks[OF assms(1), of i] show ?thesis by (auto simp: lease_inv_def holders_def)
next
  case (Leave i)
  with assms(2) have g: "reqs s i \<noteq> Away" "s' = at_req i Away (runlock s)"
    by (auto simp: pc_steps split: if_splits)
  with assms(1) busyI(1)[of s i] have "card (busy s - {i}) = card (busy s) - 1" "0 < card (busy s)"
    by (auto simp: lease_inv_def card_gt_0_iff)
  with assms(1) g holder_blocks[OF assms(1), of i] show ?thesis
    by (auto simp: lease_inv_def holders_def runlock_def idle_def)
next
  case SweepEnd
  with assms(2) have "sweeper s \<noteq> SweepIdle" "s' = (runlock s)\<lparr>sweeper := SweepIdle\<rparr>"
    by (auto simp: pc_steps split: if_splits)
  with assms(1) holder_blocks[OF assms(1)] show ?thesis
    by (auto simp: lease_inv_def holders_def runlock_def idle_def)
next
  case SweepLock
  with assms show ?thesis by (auto simp: pc_steps lease_inv_def holders_def idle_def split: if_splits)
next
  case (SweepGate ok)
  with assms show ?thesis by (auto simp: pc_steps lease_inv_def holders_def idle_def split: if_splits)
next
  case Check
  with assms show ?thesis by (auto simp: pc_steps lease_inv_def holders_def idle_def split: if_splits)
next
  case TryLock
  with assms show ?thesis by (auto simp: pc_steps lease_inv_def holders_def idle_def split: if_splits)
next
  case Recheck
  with assms show ?thesis by (auto simp: pc_steps lease_inv_def holders_def idle_def split: if_splits)
next
  case (Yield ok kept)
  with assms show ?thesis by (auto simp: pc_steps lease_inv_def holders_def idle_def split: if_splits)
next
  case Unlock
  with assms show ?thesis by (auto simp: pc_steps lease_inv_def holders_def idle_def split: if_splits)
next
  case (Tick d)
  with assms(2) have "0 \<le> d" "s' = s\<lparr>wall := wall s + d\<rparr>" by (simp_all split: if_splits)
  then have "idle s \<Longrightarrow> idle s'" by (simp add: idle_def)
  with assms(1) \<open>s' = s\<lparr>wall := wall s + d\<rparr>\<close> show ?thesis by (auto simp: lease_inv_def holders_def)
next
  case Demote
  with assms(2) have "s' = s\<lparr>leader := False\<rparr>" by simp
  with assms(1) show ?thesis by (auto simp: lease_inv_def holders_def idle_def)
qed

lemma runs_inv: "runs evs s \<Longrightarrow> lease_inv s"
proof (induction rule: runs.induct)
  case (start t lead)
  then show ?case by (simp add: newLeaseActivity_def lease_inv_def holders_def busy_def)
qed (rule keep_lock)

text \<open>
  C38. A writer that hands its lease back while it is idle never fences a request: whatever the
  interleaving of requests, sweeps and yields, at the moment of the yield no request is
  between its arrival and its end, no sweep runs, and the latest request ended at least
  \<open>idleYieldAfter\<close> ago.
\<close>

theorem yield_never_fences:
  assumes "runs evs s" "yielder s = Yielding"
  shows "reqs s i = Away \<and> sweeper s = SweepIdle \<and> act_last s + idleYieldAfter \<le> wall s"
proof -
  have "reqs s i = Away \<and> sweeper s = SweepIdle" using holder_blocks(2)[OF runs_inv[OF assms(1)], of i] assms(2) by auto
  moreover have "idle s" using runs_inv[OF assms(1)] assms(2) by (simp add: lease_inv_def)
  ultimately show ?thesis by (simp add: idle_def)
qed

text \<open>A run of given events, to show that these states are reached.\<close>

fun play :: "lease_event list \<Rightarrow> instance_state \<Rightarrow> instance_state option" where
  "play [] s = Some s"
| "play (e # evs) s = (case play evs s of None \<Rightarrow> None | Some t \<Rightarrow> instance_step e t)"

lemma play_runs: "play evs (newLeaseActivity t lead) = Some s \<Longrightarrow> runs evs s"
  by (induction evs arbitrary: s) (auto intro: runs.intros split: option.splits)

lemma yield_never_fences_witness:
  "\<exists>s. runs [Recheck, TryLock, Check, Tick idleYieldAfter, Leave 7, Stamp 7, Gate 7 True, Arrive 7] s \<and>
     yielder s = Yielding \<and> reqs s 7 = Away \<and> sweeper s = SweepIdle \<and> act_last s + idleYieldAfter \<le> wall s"
proof -
  let ?evs = "[Recheck, TryLock, Check, Tick idleYieldAfter, Leave 7, Stamp 7, Gate 7 True, Arrive 7]"
  obtain s where s: "play ?evs (newLeaseActivity 0 False) = Some s" "yielder s = Yielding"
    by (simp add: pc_steps idle_def idleYieldAfter_def newLeaseActivity_def at_req_def)
  note y = yield_never_fences[OF play_runs[OF s(1)] s(2), of 7]
  with play_runs[OF s(1)] s(2) show ?thesis by blast
qed

definition served_ok :: "instance_state \<Rightarrow> bool" where
  "served_ok s \<longleftrightarrow> (\<forall>i. reqs s i = Serving \<longrightarrow> leader s) \<and> (sweeper s = SweepRuns \<longrightarrow> leader s)"

lemma keep_served:
  assumes "lease_inv s" "served_ok s" "instance_step e s = Some s'" "e \<noteq> Demote"
  shows "served_ok s'"
proof (cases e)
  case (Yield ok kept)
  with assms(3) have "yielder s = Yielding" "s' = s\<lparr>leader := leader s \<and> \<not> ok \<and> kept, yielder := YieldUnlocks\<rparr>"
    by (auto simp: pc_steps split: if_splits)
  moreover have "reqs s i \<noteq> Serving \<and> sweeper s \<noteq> SweepRuns" for i
    using holder_blocks(2)[OF assms(1), of i] \<open>yielder s = Yielding\<close> by auto
  ultimately show ?thesis by (simp add: served_ok_def)
next
  case (Stamp i)
  with assms(2,3) show ?thesis by (auto simp: pc_steps served_ok_def split: if_splits)
qed (use assms in \<open>auto simp: pc_steps served_ok_def split: if_splits\<close>)

lemma runs_served: "runs evs s \<Longrightarrow> Demote \<notin> set evs \<Longrightarrow> served_ok s"
proof (induction rule: runs.induct)
  case (start t lead)
  then show ?case by (simp add: newLeaseActivity_def served_ok_def)
next
  case (step evs s e s')
  then show ?case by (auto intro: keep_served[OF runs_inv[OF step.hyps(1)] _ step.hyps(2)])
qed

text \<open>
  C39. Every request that the gate let through is served by the writer: unless s3lite loses the
  lease, the instance holds it as long as a request or a sweep is under way, since nothing
  that the server does meanwhile gives it up.
\<close>

theorem served_by_writer:
  assumes "runs evs s" "Demote \<notin> set evs" "reqs s i = Serving \<or> sweeper s = SweepRuns"
  shows "leader s"
  using runs_served[OF assms(1,2)] assms(3) by (auto simp: served_ok_def)

lemma served_by_writer_witness:
  "\<exists>s. runs [Stamp 1, Gate 2 True, Arrive 2, Gate 1 False, Arrive 1] s \<and> reqs s 2 = Serving \<and> leader s"
proof -
  let ?evs = "[Stamp 1, Gate 2 True, Arrive 2, Gate 1 False, Arrive 1]"
  obtain s where s: "play ?evs (newLeaseActivity 0 False) = Some s" "reqs s 2 = Serving"
    by (simp add: pc_steps newLeaseActivity_def at_req_def)
  from served_by_writer[OF play_runs[OF s(1)], of 2] s play_runs[OF s(1)] show ?thesis by auto
qed

section \<open>An idle writer does yield\<close>

text \<open>\<open>maybeYield\<close> when nothing else moves while it runs: \<open>ok\<close> is the success of the yield.\<close>

definition maybeYield :: "bool \<Rightarrow> bool \<Rightarrow> instance_state \<Rightarrow> bool \<times> instance_state" where
  "maybeYield ok kept s =
     (if \<not> leader s \<or> \<not> idle s then (False, s)
      else if mu_readers s \<noteq> 0 \<or> mu_writer s then (False, s)
      else (ok, s\<lparr>leader := \<not> ok \<and> kept\<rparr>))"

lemma maybe_yield_plays:
  assumes "yielder s = YieldIdle" "leader s" "idle s" "mu_readers s = 0" "\<not> mu_writer s"
  shows "play [Unlock, Yield ok kept, Recheck, TryLock, Check] s = Some (snd (maybeYield ok kept s))"
  using assms by (auto simp: pc_steps maybeYield_def idle_def)

lemma maybe_yield_refused:
  assumes "yielder s = YieldIdle" "\<not> (leader s \<and> idle s)"
  shows "play [Check] s = Some (snd (maybeYield ok kept s))"
  using assms by (auto simp: pc_steps maybeYield_def)

lemma maybe_yield_busy:
  assumes "yielder s = YieldIdle" "leader s" "idle s" "mu_readers s \<noteq> 0 \<or> mu_writer s"
  shows "play [TryLock, Check] s = Some (snd (maybeYield ok kept s))"
  using assms by (auto simp: pc_steps maybeYield_def idle_def)

text \<open>
  An idle writer does give the lease back: from any state that a run reaches, if the
  instance is the writer, nothing is under way and the last request is long enough ago, the next
  check of the loop gets to the yield, and a yield that succeeds leaves the lease free and the
  mutex open.
\<close>

theorem idle_writer_yields:
  assumes "runs evs s" "leader s" "idle s" "busy s = {}" "sweeper s = SweepIdle" "yielder s = YieldIdle"
  shows "case play [Unlock, Yield True kept, Recheck, TryLock, Check] s of
      None \<Rightarrow> False | Some t \<Rightarrow> \<not> leader t \<and> \<not> mu_writer t \<and> mu_readers t = 0"
proof -
  from runs_inv[OF assms(1)] assms(4-6) have "mu_readers s = 0" "\<not> mu_writer s"
    by (simp_all add: lease_inv_def holders_def)
  with maybe_yield_plays[OF assms(6,2,3), of True kept] assms(2,3) show ?thesis by (simp add: maybeYield_def)
qed

lemma idle_writer_yields_witness:
  "case play [Unlock, Yield True True, Recheck, TryLock, Check] ((newLeaseActivity 0 True)\<lparr>wall := idleYieldAfter\<rparr>) of
      None \<Rightarrow> False | Some t \<Rightarrow> \<not> leader t \<and> \<not> mu_writer t \<and> mu_readers t = 0"
proof (rule idle_writer_yields)
  have "play [Tick idleYieldAfter] (newLeaseActivity 0 True) = Some ((newLeaseActivity 0 True)\<lparr>wall := idleYieldAfter\<rparr>)"
    by (simp add: newLeaseActivity_def idleYieldAfter_def)
  then show "runs [Tick idleYieldAfter] ((newLeaseActivity 0 True)\<lparr>wall := idleYieldAfter\<rparr>)" by (rule play_runs)
qed (simp_all add: newLeaseActivity_def idle_def busy_def)

end
