(* ===== verification/Bootstrap.thy ===== *)
theory Bootstrap
  imports Auth
begin

text \<open>
  \<open>internal/bootstrap\<close>: the first administrator and its token, and the recovery of a lost
  token. The random bytes of the token are arguments, as in \<open>Auth\<close>.
\<close>

definition DefaultAdminHandle :: string where "DefaultAdminHandle = ''admin''"

record Options =
  AdminHandle :: string
  RepoName :: string
  DefaultBranch :: string
  TokenLabel :: string

record bootResult =
  AlreadyBootstrapped :: bool
  Admin :: "user option"
  Repo :: "repo option"
  RawToken :: string

datatype boot_error = BootMeta meta_error | BootRandom | NoUser string | NotAdmin string

type_synonym 'a bootop = "db \<Rightarrow> (boot_error + 'a) \<times> db"

definition liftB :: "'a dbop \<Rightarrow> 'a bootop" where
  "liftB m s = (case m s of (r, t) \<Rightarrow> (map_sum BootMeta id r, t))"

definition admin_handle :: "Options \<Rightarrow> string" where
  "admin_handle opts = (if AdminHandle opts = [] then DefaultAdminHandle else AdminHandle opts)"

definition mintToken :: "(bytes \<Rightarrow> bytes) \<Rightarrow> bytes option \<Rightarrow> bytes option \<Rightarrow> time \<Rightarrow> int \<Rightarrow> string \<Rightarrow> string bootop" where
  "mintToken H b1 b2 nw uid label0 =
     (let label = (if label0 = [] then ''bootstrap'' else label0) in
      case Mint H b1 b2 of
        None \<Rightarrow> errE BootRandom
      | Some (raw, sel, ver) \<Rightarrow> bindE (liftB (CreateToken uid sel ver label nw)) (\<lambda>_. retE raw))"

definition RunBootstrap :: "(bytes \<Rightarrow> bytes) \<Rightarrow> bytes option \<Rightarrow> bytes option \<Rightarrow> time \<Rightarrow> Options \<Rightarrow> bootResult bootop" where
  "RunBootstrap H b1 b2 nw opts = bindE (liftB AdminExists) (\<lambda>found.
     if found then retE \<lparr>AlreadyBootstrapped = True, Admin = None, Repo = None, RawToken = []\<rparr>
     else bindE (liftB (CreateAdmin (admin_handle opts) nw)) (\<lambda>admin.
       bindE (mintToken H b1 b2 nw (user_id admin) (TokenLabel opts)) (\<lambda>raw.
         if RepoName opts = []
         then retE \<lparr>AlreadyBootstrapped = False, Admin = Some admin, Repo = None, RawToken = raw\<rparr>
         else bindE (liftB (CreateRepo (RepoName opts) (DefaultBranch opts) nw)) (\<lambda>rp.
           bindE (liftB (SetACL (repo_id rp) (user_id admin) PermAdmin)) (\<lambda>_.
             retE \<lparr>AlreadyBootstrapped = False, Admin = Some admin, Repo = Some rp, RawToken = raw\<rparr>)))))"

definition Reissue :: "(bytes \<Rightarrow> bytes) \<Rightarrow> bytes option \<Rightarrow> bytes option \<Rightarrow> time \<Rightarrow> Options \<Rightarrow> bootResult bootop" where
  "Reissue H b1 b2 nw opts = (let h = admin_handle opts in
     lookupE (GetUser h) (errE (NoUser h)) (\<lambda>e. errE (BootMeta e)) (\<lambda>u.
       if \<not> is_admin u then errE (NotAdmin h)
       else bindE (mintToken H b1 b2 nw (user_id u)
                (if TokenLabel opts = [] then ''bootstrap (reissued)'' else TokenLabel opts)) (\<lambda>raw.
         retE \<lparr>AlreadyBootstrapped = False, Admin = Some u, Repo = None, RawToken = raw\<rparr>)))"

section \<open>A usable instance\<close>

lemma liftB_Inr: "liftB m s = (Inr x, t) \<longleftrightarrow> m s = (Inr x, t)"
  by (auto simp: liftB_def split: prod.splits) (case_tac x1; auto)+

lemma mintToken_Inr:
  assumes "no_faults s" "mintToken H b1 b2 nw uid label0 s = (Inr raw, s')"
  shows "\<exists>sel ver label. Mint H b1 b2 = Some (raw, sel, ver) \<and>
    s' = s\<lparr>tokens := tokens s @ [\<lparr>token_id = next_id token_id (tokens s), token_user = uid, selector = sel,
               verifier = ver, token_label = label, token_created = nw, last_used = None,
               expires_at = None, repo_scope = None, read_only = False\<rparr>]\<rparr>"
proof -
  let ?label = "if label0 = [] then ''bootstrap'' else label0"
  from assms(2) obtain sel ver where m: "Mint H b1 b2 = Some (raw, sel, ver)"
    and c: "\<exists>i. CreateToken uid sel ver ?label nw s = (Inr i, s')"
    by (auto simp: mintToken_def Let_def errE_def retE_def bindE_Inr liftB_Inr split: option.splits)
  from c assms(1) show ?thesis using m
    by (auto simp: CreateToken_def CreateScopedToken_def Let_def split: if_splits)
qed

lemma keeps_mintToken: "keeps db_ok (mintToken H b1 b2 nw uid label0)"
proof -
  have "keeps db_ok (liftB m)" if "keeps db_ok m" for m :: "'b dbop"
    using that by (fastforce simp: keeps_def liftB_def split: prod.splits)
  then show ?thesis unfolding mintToken_def Let_def CreateToken_def
    by (auto intro!: keeps_errE keeps_bindE keeps_retE keeps_CreateScopedToken split: option.split prod.split)
qed

text \<open>
  The owner of the token that was minted last is authenticated by it, whatever else happened
  to repositories and grants after it.
\<close>

lemma minted_last_verifies:
  assumes "db_ok s" "no_faults s" "u \<in> set (users s)" "t \<in> set (tokens s)"
    and "token_user t = user_id u" "selector t = sel" "verifier t = ver" "expires_at t = None"
    and "Mint H b1 b2 = Some (raw, sel, ver)" "b1 \<noteq> Some []" "b2 \<noteq> Some []"
  shows "fst (verify H nw raw s) = Inr \<lparr>vt_user = u, vt_scope = repo_scope t, vt_read_only = read_only t\<rparr>"
proof -
  from Mint_split[OF assms(9-11)] assms have "token_valid H nw s raw t u"
    by (auto simp: token_valid_def)
  from verify_complete[OF assms(1,2) this] show ?thesis by auto
qed

lemma repo_steps_keep:
  "CreateRepo n b ts s = (r, s') \<Longrightarrow> users s' = users s \<and> tokens s' = tokens s \<and> (no_faults s \<longrightarrow> no_faults s')"
  "SetACL i j p s = (q, s') \<Longrightarrow> users s' = users s \<and> tokens s' = tokens s \<and> (no_faults s \<longrightarrow> no_faults s')"
  by (auto simp: CreateRepo_def SetACL_def sql_def errE_def Let_def no_faults_def
      split: option.splits list.splits if_splits)

lemma CreateAdmin_new:
  assumes "no_faults s" "CreateAdmin h ts s = (Inr a, s1)"
  shows "is_admin a \<and> handle a = h \<and> s1 = s\<lparr>users := users s @ [a]\<rparr>"
  using assms by (auto simp: CreateAdmin_def createUser_def Let_def split: if_splits)

lemma bootstrap_steps:
  assumes "db_ok s" "no_faults s" "RunBootstrap H b1 b2 nw opts s = (Inr res, s')" "\<not> AlreadyBootstrapped res"
  obtains a s1 s2 where "CreateAdmin (admin_handle opts) nw s = (Inr a, s1)"
    "mintToken H b1 b2 nw (user_id a) (TokenLabel opts) s1 = (Inr (RawToken res), s2)"
    "Admin res = Some a" "users s' = users s2" "tokens s' = tokens s2" "db_ok s'" "no_faults s'"
proof -
  from assms obtain a s1 s2 raw where c: "CreateAdmin (admin_handle opts) nw s = (Inr a, s1)"
    and m: "mintToken H b1 b2 nw (user_id a) (TokenLabel opts) s1 = (Inr raw, s2)"
    and r: "(if RepoName opts = []
         then retE \<lparr>AlreadyBootstrapped = False, Admin = Some a, Repo = None, RawToken = raw\<rparr>
         else bindE (liftB (CreateRepo (RepoName opts) (DefaultBranch opts) nw)) (\<lambda>rp.
           bindE (liftB (SetACL (repo_id rp) (user_id a) PermAdmin)) (\<lambda>_.
             retE \<lparr>AlreadyBootstrapped = False, Admin = Some a, Repo = Some rp, RawToken = raw\<rparr>))) s2 = (Inr res, s')"
    by (auto simp: RunBootstrap_def bindE_Inr liftB_Inr retE_def AdminExists_def split: if_splits)
  have ok1: "db_ok s1" using keeps_result[OF keeps_createUser c[unfolded CreateAdmin_def] assms(1)] .
  have ok2: "db_ok s2" by (rule keeps_result[OF keeps_mintToken m ok1])
  have nf1: "no_faults s1" using CreateAdmin_new[OF assms(2) c] assms(2) by (simp add: no_faults_def)
  have nf2: "no_faults s2" using mintToken_Inr[OF nf1 m] nf1 by (auto simp: no_faults_def)
  show thesis
  proof (cases "RepoName opts = []")
    case True
    with r have "res = \<lparr>AlreadyBootstrapped = False, Admin = Some a, Repo = None, RawToken = raw\<rparr>" "s' = s2"
      by (simp_all add: retE_def)
    with c m ok2 nf2 show thesis by (intro that[of a s1 s2]) simp_all
  next
    case False
    with r obtain rp s3 where q: "CreateRepo (RepoName opts) (DefaultBranch opts) nw s2 = (Inr rp, s3)"
      "SetACL (repo_id rp) (user_id a) PermAdmin s3 = (Inr (), s')"
      "res = \<lparr>AlreadyBootstrapped = False, Admin = Some a, Repo = Some rp, RawToken = raw\<rparr>"
      by (auto simp: retE_def bindE_Inr liftB_Inr)
    have "db_ok s'" using keeps_result[OF keeps_SetACL q(2)] keeps_result[OF keeps_CreateRepo q(1) ok2] by blast
    with q c m nf2 repo_steps_keep(1)[OF q(1)] repo_steps_keep(2)[OF q(2)] show thesis
      by (intro that[of a s1 s2]) simp_all
  qed
qed

lemma bootstrap_admin_in:
  assumes "db_ok s" "no_faults s" "RunBootstrap H b1 b2 nw opts s = (Inr res, s')" "\<not> AlreadyBootstrapped res"
    and "b1 \<noteq> Some []" "b2 \<noteq> Some []"
  shows "\<exists>a. Admin res = Some a \<and> is_admin a \<and> a \<in> set (users s') \<and>
    fst (verify H later (RawToken res) s') = Inr \<lparr>vt_user = a, vt_scope = None, vt_read_only = False\<rparr>"
proof -
  from bootstrap_steps[OF assms(1-4)] obtain a s1 s2 where b:
    "CreateAdmin (admin_handle opts) nw s = (Inr a, s1)"
    "mintToken H b1 b2 nw (user_id a) (TokenLabel opts) s1 = (Inr (RawToken res), s2)"
    "Admin res = Some a" "users s' = users s2" "tokens s' = tokens s2" "db_ok s'" "no_faults s'" by blast
  have a: "is_admin a" "s1 = s\<lparr>users := users s @ [a]\<rparr>" using CreateAdmin_new[OF assms(2) b(1)] by simp_all
  with assms(2) have "no_faults s1" by (simp add: no_faults_def)
  from mintToken_Inr[OF this b(2)] obtain sel ver label where m: "Mint H b1 b2 = Some (RawToken res, sel, ver)"
    "s2 = s1\<lparr>tokens := tokens s1 @ [\<lparr>token_id = next_id token_id (tokens s1), token_user = user_id a,
       selector = sel, verifier = ver, token_label = label, token_created = nw, last_used = None,
       expires_at = None, repo_scope = None, read_only = False\<rparr>]\<rparr>" by blast
  have u: "a \<in> set (users s')" using b(4) a(2) m(2) by simp
  let ?t = "\<lparr>token_id = next_id token_id (tokens s1), token_user = user_id a,
       selector = sel, verifier = ver, token_label = label, token_created = nw, last_used = None,
       expires_at = None, repo_scope = None, read_only = False\<rparr>"
  have "?t \<in> set (tokens s')" using b(5) m(2) by simp
  from minted_last_verifies[OF b(6,7) u this _ _ _ _ m(1) assms(5,6), of later] a(1) b(3) u
  show ?thesis by simp
qed

lemma bootstrap_again:
  assumes "no_faults s" "a \<in> set (users s)" "is_admin a"
  shows "RunBootstrap H b1 b2 nw opts s =
    (Inr \<lparr>AlreadyBootstrapped = True, Admin = None, Repo = None, RawToken = []\<rparr>, s)"
  using assms by (auto simp: RunBootstrap_def AdminExists_def bindE_def liftB_def retE_def)

text \<open>
  A bootstrap that reports success on an instance without an administrator leaves one, and
  the token it prints signs its owner in, unscoped, writable and without an expiry. Any later
  bootstrap, whatever its options, finds that administrator and changes nothing.
\<close>

theorem bootstrap_signs_in:
  assumes "db_ok s" "no_faults s" "RunBootstrap H b1 b2 nw opts s = (Inr res, s')" "\<not> AlreadyBootstrapped res"
    and "b1 \<noteq> Some []" "b2 \<noteq> Some []"
  shows "\<exists>a. Admin res = Some a \<and> is_admin a \<and>
    fst (verify H later (RawToken res) s') = Inr \<lparr>vt_user = a, vt_scope = None, vt_read_only = False\<rparr> \<and>
    RunBootstrap H c1 c2 nw' opts' s' =
      (Inr \<lparr>AlreadyBootstrapped = True, Admin = None, Repo = None, RawToken = []\<rparr>, s')"
proof -
  from bootstrap_steps[OF assms(1-4)] have "no_faults s'" by blast
  with bootstrap_admin_in[OF assms, of later] show ?thesis using bootstrap_again by blast
qed

definition sample_options :: Options where
  "sample_options = \<lparr>AdminHandle = [], RepoName = ''app.git'', DefaultBranch = [], TokenLabel = []\<rparr>"

lemma bootstrap_signs_in_witness:
  "\<exists>res s' a. RunBootstrap (\<lambda>x. x) (Some ''01'') (Some ''xyz'') 3 sample_options empty_db = (Inr res, s') \<and>
     Admin res = Some a \<and> is_admin a \<and>
     fst (verify (\<lambda>x. x) 900 (RawToken res) s') = Inr \<lparr>vt_user = a, vt_scope = None, vt_read_only = False\<rparr>"
proof -
  let ?m = "RunBootstrap (\<lambda>x. x) (Some ''01'') (Some ''xyz'') 3 sample_options empty_db"
  have "map_sum id AlreadyBootstrapped (fst ?m) = Inr False" by code_simp
  then obtain res s' where m: "?m = (Inr res, s')" "\<not> AlreadyBootstrapped res"
    by (cases ?m; cases "fst ?m") auto
  have nf: "no_faults empty_db" by (simp add: no_faults_def empty_db_def)
  from bootstrap_signs_in[OF db_ok_empty nf m, of 900 None None 4 sample_options] m(1) show ?thesis by auto
qed

lemma reissue_admin_only:
  assumes "Reissue H b1 b2 nw opts s = (Inr res, s')"
  shows "\<exists>u \<in> set (users s). Admin res = Some u \<and> is_admin u \<and> handle u = admin_handle opts"
proof -
  from assms obtain u t where g: "GetUser (admin_handle opts) s = (Inr u, t)" "is_admin u" "Admin res = Some u"
    by (auto simp: Reissue_def Let_def errE_def retE_def bindE_Inr elim!: lookupE_cases split: if_splits)
  with query_row_Inr[OF g(1)[unfolded GetUser_def]] show ?thesis by (auto dest!: first_where_Some)
qed

end
