(* ===== verification/Startup.thy ===== *)
theory Startup
  imports Bootstrap MetaSecrets Keyring Store GoPath Report GoStruct
begin

text \<open>
  The start of the server in \<open>cmd/gitmote/main.go\<close>: the configuration that it derives from the
  environment, the bootstrap command and the bootstrap of a first boot, and \<open>buildGitHandler\<close>
  with what it opens and closes. Also the trigger of \<open>internal/scaleway\<close>, which the start
  chooses. \<open>getenv\<close> is \<open>os.Getenv\<close>, empty for an unset variable. The opening of the database,
  the connection to the bucket, the socket of the hook and the lookup of \<open>git\<close> are parameters
  that succeed or fail; the lease is \<open>s3lite\<close>, as in \<open>MetaSecrets\<close>. The log of the server and
  the signals that end it are left out.
\<close>

section \<open>Configuration\<close>

type_synonym getenv = "string \<Rightarrow> string"

definition envOr :: "getenv \<Rightarrow> string \<Rightarrow> string \<Rightarrow> string" where
  "envOr getenv key fallback = (if getenv key \<noteq> [] then getenv key else fallback)"

definition defaultListenAddr :: string where "defaultListenAddr = '':8080''"

definition listenAddrFromEnv :: "getenv \<Rightarrow> string" where
  "listenAddrFromEnv getenv =
     (let v = getenv ''GITMOTE_LISTEN_ADDR'' in if v \<noteq> [] then v else defaultListenAddr)"

definition dataDir :: "string \<Rightarrow> getenv \<Rightarrow> string" where
  "dataDir tmp getenv = envOr getenv ''GITMOTE_DATA'' (path_join [tmp, ''gitmote''])"

definition dbPath :: "string \<Rightarrow> getenv \<Rightarrow> string" where
  "dbPath tmp getenv = path_join [dataDir tmp getenv, ''meta.sqlite3'']"

definition cachePath :: "string \<Rightarrow> getenv \<Rightarrow> string" where
  "cachePath tmp getenv = path_join [dataDir tmp getenv, ''cache'']"

definition sockPath :: "string \<Rightarrow> getenv \<Rightarrow> string" where
  "sockPath tmp getenv = path_join [dataDir tmp getenv, ''gitmote.sock'']"

text \<open>The directory of the executable, when it can be determined.\<close>

definition besideExe :: "string option \<Rightarrow> string \<Rightarrow> string" where
  "besideExe dir name = (case dir of Some d \<Rightarrow> path_join [d, name] | None \<Rightarrow> name)"

definition replicaTarget :: "getenv \<Rightarrow> string" where
  "replicaTarget getenv = (case ParseBucket (getenv ''GITMOTE_S3_BUCKET'') of (bucket, base) \<Rightarrow>
     if bucket = [] then []
     else (let root = (if base \<noteq> [] then bucket @ ''/'' @ base else bucket) in ''s3://'' @ root @ ''/meta''))"

datatype role = RoleAuto | RoleWriter

record meta_config =
  LocalPath :: string
  RestoreFrom :: string
  BackupTo :: string
  Endpoint :: string
  Role :: "role option"
  OnDemandPromotion :: bool

definition metaConfigFromEnv :: "string \<Rightarrow> getenv \<Rightarrow> role \<Rightarrow> meta_config" where
  "metaConfigFromEnv tmp getenv r = (let replica = replicaTarget getenv in
     \<lparr>LocalPath = dbPath tmp getenv, RestoreFrom = replica, BackupTo = replica,
      Endpoint = getenv ''GITMOTE_S3_ENDPOINT'',
      Role = (if replica \<noteq> [] then Some r else None), OnDemandPromotion = (replica \<noteq> [])\<rparr>)"

section \<open>Server secrets\<close>

definition genSecretBytes :: nat where "genSecretBytes = 32"

text \<open>\<open>draw\<close> is the result of \<open>rand.Read\<close> on \<open>genSecretBytes\<close> bytes.\<close>

definition genSecret :: "bytes option \<Rightarrow> meta_error + bytes" where
  "genSecret draw = (case draw of None \<Rightarrow> Inl Unavailable | Some b \<Rightarrow> Inr (hex_encode b))"

definition resolveCookieKey :: "'p s3lite \<Rightarrow> nat \<Rightarrow> getenv \<Rightarrow> bytes option \<Rightarrow> 'p node \<Rightarrow> (meta_error + bytes) \<times> 'p node" where
  "resolveCookieKey L tries getenv draw =
     (let v = getenv ''GITMOTE_COOKIE_KEY'' in
      if v \<noteq> [] then retE v else GetOrCreateSecret L tries ''cookie_key'' (genSecret draw))"

definition resolveWorkerSecret :: "'p s3lite \<Rightarrow> nat \<Rightarrow> getenv \<Rightarrow> bytes option \<Rightarrow> 'p node \<Rightarrow> (meta_error + string) \<times> 'p node" where
  "resolveWorkerSecret L tries getenv draw =
     (let v = getenv ''WORKER_SECRET'' in
      if v \<noteq> [] then retE v
      else bindE (GetOrCreateSecret L tries ''worker_secret'' (genSecret draw)) retE)"

section \<open>The trigger of the cloud\<close>

record JobsClient =
  jc_secret :: string
  jc_region :: string
  jc_definition :: string

record jobs_request =
  jr_url :: string
  jr_token :: string
  jr_body :: bytes

definition NewJobsClient :: "string \<Rightarrow> string \<Rightarrow> string \<Rightarrow> JobsClient" where
  "NewJobsClient secretKey region jobDefinitionID =
     \<lparr>jc_secret = secretKey, jc_region = region, jc_definition = jobDefinitionID\<rparr>"

text \<open>The body; \<open>json.Marshal\<close> writes the keys of a map in their order.\<close>

definition marshal_env :: "(string \<Rightarrow> string option) \<Rightarrow> json" where
  "marshal_env env = JObj [(''environment_variables'',
     JObj (map (\<lambda>k. (k, JStr (the (env k)))) (sorted_list_of_set (dom env))))]"

text \<open>\<open>post\<close> is the HTTP client: an error of the transport or a status with a body.\<close>

datatype jobs_error = Transport string | Refused nat string

definition Trigger :: "(jobs_request \<Rightarrow> 'w \<Rightarrow> (string + nat \<times> string) \<times> 'w) \<Rightarrow> JobsClient \<Rightarrow>
    (string \<Rightarrow> string option) \<Rightarrow> 'w \<Rightarrow> jobs_error option \<times> 'w" where
  "Trigger post c env =
     (if jc_definition c = [] then Pair None
      else handleE (post \<lparr>jr_url = ''https://api.scaleway.com/serverless-jobs/v1alpha2/regions/'' @ jc_region c @
               ''/job-definitions/'' @ jc_definition c @ ''/start'', jr_token = jc_secret c, jr_body = print_json (marshal_env env)\<rparr>)
       (\<lambda>r. Pair (case r of
           Inl m \<Rightarrow> Some (Transport m)
         | Inr (status, body) \<Rightarrow> if 300 \<le> status then Some (Refused status body) else None)))"

text \<open>
  The job sees the environment that the dispatcher made, if it is UTF-8: every variable once, with
  its value.
\<close>

lemma marshalled_env_read:
  "decode_json (print_json (marshal_env env)) = Parsed (valid_json (marshal_env env)) []"
proof -
  have "integral (marshal_env env)" "json_depth (marshal_env env) \<le> maxNestingDepth"
    by (auto simp: marshal_env_def maxNestingDepth_def)
  from json_roundtrip[of "marshal_env env" "[]"] this show ?thesis by (simp add: marshal_env_def)
qed

theorem job_gets_env:
  assumes "finite (dom env)" "\<forall>k v. env k = Some v \<longrightarrow> valid_utf8 k = k \<and> valid_utf8 v = v"
  shows "\<exists>ms. decode_json (print_json (marshal_env env)) = Parsed (JObj [(''environment_variables'', JObj ms)]) [] \<and>
    map_of ms = (\<lambda>k. map_option JStr (env k)) \<and> distinct (map fst ms)"
proof -
  let ?ks = "sorted_list_of_set (dom env)"
  let ?ms = "map (\<lambda>k. (k, JStr (the (env k)))) ?ks"
  have "map (\<lambda>(k, v). (valid_utf8 k, valid_json v)) ?ms = ?ms"
    using assms by (auto simp: dom_def)
  moreover have "valid_utf8 ''environment_variables'' = ''environment_variables''" by (rule ascii_name) simp
  ultimately have "valid_json (marshal_env env) = JObj [(''environment_variables'', JObj ?ms)]"
    by (simp add: marshal_env_def)
  moreover have "map_of ?ms = (\<lambda>k. map_option JStr (env k))"
  proof
    fix k
    show "map_of ?ms k = map_option JStr (env k)"
      using assms(1) by (cases "env k") (auto simp: map_of_map_restrict restrict_map_def dom_def comp_def map_of_eq_None_iff)
  qed
  moreover have "distinct (map fst ?ms)" by (simp add: comp_def)
  ultimately show ?thesis using marshalled_env_read by auto
qed

section \<open>Bootstrap\<close>

definition bar :: string where "bar = replicate 72 (CHR ''='')"

definition writeBootstrapBanner :: "user \<Rightarrow> repo option \<Rightarrow> string \<Rightarrow> string" where
  "writeBootstrapBanner admin rp raw =
     (let nl = [newline];
          repoLines = (case rp of
              None \<Rightarrow> ''  Repos:    create one in the UI, then clone:'' @ nl @
                ''            git clone http://'' @ handle admin @ '':<token>@<host>/<repo>'' @ nl
            | Some r \<Rightarrow> ''  Clone:    git clone http://'' @ handle admin @ '':<token>@<host>/'' @ repo_name r @ nl)
      in nl @ bar @ nl @
        ''  gitmote access token '' @ [CHR 0xE2, CHR 0x80, CHR 0x94] @ '' SAVE IT NOW (shown only once)'' @ nl @
        bar @ nl @ nl @
        ''  admin user:   '' @ handle admin @ nl @ nl @
        ''  access token:'' @ nl @ nl @ ''      '' @ raw @ nl @ nl @
        ''  Sign in:  open  http://<host>/login  and paste the token'' @ nl @
        repoLines @
        nl @ ''  This token is NOT stored and will NOT be shown again.'' @ nl @
        ''  Lost it? Stop the server (scale to zero) and run:  gitmote bootstrap -reissue'' @ nl @
        ''  Then rotate: sign in, mint your own token, and revoke this one.'' @ nl @
        bar @ nl @ nl)"

definition already_text :: string where
  "already_text = ''already bootstrapped: an admin exists; nothing to do '' @
     ''(run with -reissue to mint a fresh token)'' @ [newline]"

text \<open>What the start takes from outside the program.\<close>

record 'p host =
  h_env :: getenv
  h_environ :: "string list"
  h_tmp :: string
  h_exe :: "string option"
  h_hash :: "bytes \<Rightarrow> bytes"
  h_now :: time
  h_open :: "meta_config \<Rightarrow> 'p node option"
  h_lease :: "'p s3lite"
  h_tries :: nat
  h_connect :: "string \<Rightarrow> bool"
  h_listen :: "string \<Rightarrow> bool"
  h_git :: bool
  h_selector :: "bytes option"
  h_secret :: "bytes option"
  h_cookie :: "bytes option"
  h_worker :: "bytes option"

datatype cli_outcome = CliWrote string | CliOpenFailed | CliFailed boot_error

text \<open>
  The \<open>bootstrap\<close> command with its flags parsed. The close of the database, which flushes the
  replica, follows whatever the outcome is.
\<close>

definition runBootstrap :: "'p host \<Rightarrow> string \<Rightarrow> string \<Rightarrow> string \<Rightarrow> bool \<Rightarrow> cli_outcome \<times> 'p node option" where
  "runBootstrap h hnd repoName branch reissue =
     (case h_open h (metaConfigFromEnv (h_tmp h) (h_env h) RoleWriter) of
        None \<Rightarrow> (CliOpenFailed, None)
      | Some n \<Rightarrow>
          (let opts = \<lparr>AdminHandle = hnd, RepoName = repoName, DefaultBranch = branch, TokenLabel = []\<rparr>;
               op = (if reissue then Reissue else RunBootstrap) in
           case op (h_hash h) (h_selector h) (h_secret h) (h_now h) opts (ndb n) of
             (Inl e, d) \<Rightarrow> (CliFailed e, Some (n\<lparr>ndb := d\<rparr>))
           | (Inr res, d) \<Rightarrow>
               (CliWrote (if \<not> reissue \<and> AlreadyBootstrapped res then already_text
                          else case Admin res of
                              Some a \<Rightarrow> writeBootstrapBanner a (Repo res) (RawToken res)
                            | None \<Rightarrow> []), Some (n\<lparr>ndb := d\<rparr>))))"

section \<open>The server\<close>

datatype trigger = NoopTrigger | LocalTrigger string | CloudTrigger JobsClient

datatype build_error = BuildMeta | BuildStore | BuildWriter | BuildSecrets secret_error | BuildNoURL
  | BuildWorkerSecret meta_error | BuildGit | BuildCookieKey meta_error | BuildUI

record server_plan =
  pl_trigger :: trigger
  pl_worker_secret :: string
  pl_cookie_key :: bytes
  pl_keyring :: Keyring

text \<open>The process: its node once the database is open, what is open, and what it printed.\<close>

record 'p process =
  node :: "'p node"
  meta_open :: bool
  writer_open :: bool
  yield_loop :: bool
  stderr :: "string list"

definition maybeAutoBootstrap :: "'p host \<Rightarrow> 'p process \<Rightarrow> 'p process" where
  "maybeAutoBootstrap h p =
     (if \<not> isLeader (h_lease h) (node p) then p
      else (case on_db AdminExists (node p) of
          (Inl e, n) \<Rightarrow> p\<lparr>node := n\<rparr>
        | (Inr True, n) \<Rightarrow> p\<lparr>node := n\<rparr>
        | (Inr False, n) \<Rightarrow>
            (case RunBootstrap (h_hash h) (h_selector h) (h_secret h) (h_now h)
                 \<lparr>AdminHandle = DefaultAdminHandle, RepoName = [], DefaultBranch = [], TokenLabel = []\<rparr> (ndb n) of
               (Inl e, d) \<Rightarrow> p\<lparr>node := n\<lparr>ndb := d\<rparr>\<rparr>
             | (Inr res, d) \<Rightarrow>
                 (case Admin res of
                    None \<Rightarrow> p\<lparr>node := n\<lparr>ndb := d\<rparr>\<rparr>
                  | Some a \<Rightarrow> p\<lparr>node := n\<lparr>ndb := d\<rparr>,
                      stderr := stderr p @ [writeBootstrapBanner a (Repo res) (RawToken res)]\<rparr>))))"

definition choose_trigger :: "'p host \<Rightarrow> trigger" where
  "choose_trigger h = (let jobDefID = h_env h ''SCW_CI_JOB_DEFINITION_ID''; gitmoteURL = h_env h ''GITMOTE_URL'' in
     if jobDefID \<noteq> [] then CloudTrigger (NewJobsClient (h_env h ''SCW_SECRET_KEY'')
        (envOr (h_env h) ''SCW_REGION'' (h_env h ''AWS_REGION'')) jobDefID)
     else if gitmoteURL \<noteq> [] then LocalTrigger (besideExe (h_exe h) ''gitmote-runner'')
     else NoopTrigger)"

text \<open>\<open>_ = writer.Close(); _ = md.Close()\<close>, and \<open>_ = md.Close()\<close> before there is a writer.\<close>

definition close_all :: "'p process \<Rightarrow> 'p process" where
  "close_all p = p\<lparr>writer_open := False, meta_open := False\<rparr>"

definition on_node :: "('p node \<Rightarrow> 'r \<times> 'p node) \<Rightarrow> 'p process \<Rightarrow> 'r \<times> 'p process" where
  "on_node m p = (case m (node p) of (r, n) \<Rightarrow> (r, p\<lparr>node := n\<rparr>))"

text \<open>\<open>buildUI\<close> and what follows it: the last step that may fail, then the loop of the yield.\<close>

definition finish_build :: "'p host \<Rightarrow> Keyring \<Rightarrow> string \<Rightarrow> 'p process \<Rightarrow> (build_error + server_plan) \<times> 'p process" where
  "finish_build h kr secret = handleE (on_node (resolveCookieKey (h_lease h) (h_tries h) (h_env h) (h_cookie h)))
     (\<lambda>r p. case r of
        Inl e \<Rightarrow> (Inl (BuildCookieKey e), close_all p)
      | Inr key \<Rightarrow>
          if key = [] then (Inl BuildUI, close_all p)
          else (Inr \<lparr>pl_trigger = choose_trigger h, pl_worker_secret = secret, pl_cookie_key = key, pl_keyring = kr\<rparr>,
                p\<lparr>yield_loop := True\<rparr>))"

text \<open>From the keyring to \<open>githttp.New\<close>, with the database and the writer open.\<close>

definition build_ci :: "'p host \<Rightarrow> 'p process \<Rightarrow> (build_error + server_plan) \<times> 'p process" where
  "build_ci h p = (case NewKeyringFromEnv (h_environ h) of
      Inl e \<Rightarrow> (Inl (BuildSecrets e), close_all p)
    | Inr kr \<Rightarrow>
        (let jobDefID = h_env h ''SCW_CI_JOB_DEFINITION_ID''; gitmoteURL = h_env h ''GITMOTE_URL'' in
         if jobDefID \<noteq> [] \<and> gitmoteURL = [] then (Inl BuildNoURL, close_all p)
         else handleE (if jobDefID \<noteq> [] \<or> gitmoteURL \<noteq> []
                then on_node (resolveWorkerSecret (h_lease h) (h_tries h) (h_env h) (h_worker h))
                else Pair (Inr []))
           (\<lambda>r p. case r of
              Inl e \<Rightarrow> (Inl (BuildWorkerSecret e), close_all p)
            | Inr secret \<Rightarrow>
                if \<not> h_git h then (Inl BuildGit, close_all p)
                else finish_build h kr secret p) p))"

text \<open>\<open>Inr None\<close> is the server without git endpoints; the process is given once there is one.\<close>

definition buildGitHandler :: "'p host \<Rightarrow> (build_error + server_plan option) \<times> 'p process option" where
  "buildGitHandler h =
     (if h_env h ''GITMOTE_S3_BUCKET'' = [] then (Inr None, None)
      else (case h_open h (metaConfigFromEnv (h_tmp h) (h_env h) RoleAuto) of
          None \<Rightarrow> (Inl BuildMeta, None)
        | Some n \<Rightarrow>
            (let p = \<lparr>node = n, meta_open = True, writer_open = False, yield_loop = False, stderr = []\<rparr> in
             if fst (ParseBucket (h_env h ''GITMOTE_S3_BUCKET'')) = [] \<or>
                \<not> h_connect h (fst (ParseBucket (h_env h ''GITMOTE_S3_BUCKET'')))
             then (Inl BuildStore, Some (p\<lparr>meta_open := False\<rparr>))
             else (let p = maybeAutoBootstrap h p in
               if \<not> h_listen h (sockPath (h_tmp h) (h_env h))
               then (Inl BuildWriter, Some (p\<lparr>meta_open := False\<rparr>))
               else (case build_ci h (p\<lparr>writer_open := True\<rparr>) of
                   (Inl e, q) \<Rightarrow> (Inl e, Some q)
                 | (Inr plan, q) \<Rightarrow> (Inr (Some plan), Some q))))))"

section \<open>A start that fails leaves nothing open\<close>

definition all_closed :: "'p process \<Rightarrow> bool" where
  "all_closed p \<longleftrightarrow> \<not> meta_open p \<and> \<not> writer_open p \<and> \<not> yield_loop p"

definition all_open :: "'p process \<Rightarrow> bool" where
  "all_open p \<longleftrightarrow> meta_open p \<and> writer_open p \<and> yield_loop p"

text \<open>What a step of the start that only uses the node leaves as it was.\<close>

definition same_open :: "'p process \<Rightarrow> 'p process \<Rightarrow> bool" where
  "same_open p q \<longleftrightarrow> meta_open q = meta_open p \<and> writer_open q = writer_open p \<and> yield_loop q = yield_loop p"

lemma same_open_on_node: "on_node m p = (r, q) \<Longrightarrow> same_open p q"
  by (auto simp: on_node_def same_open_def split: prod.splits)

lemma same_open_bootstrap: "same_open p (maybeAutoBootstrap h p)"
  by (simp add: maybeAutoBootstrap_def same_open_def split: prod.split sum.split bool.split option.split)

lemma closed_close_all: "\<not> yield_loop p \<Longrightarrow> all_closed (close_all p)"
  by (simp add: all_closed_def close_all_def)

lemma finish_build_open:
  assumes "meta_open p" "writer_open p" "\<not> yield_loop p" "finish_build h kr secret p = (r, q)"
  shows "(case r of Inl e \<Rightarrow> all_closed q | Inr plan \<Rightarrow> all_open q)"
proof -
  obtain k t where k: "on_node (resolveCookieKey (h_lease h) (h_tries h) (h_env h) (h_cookie h)) p = (k, t)"
    by (metis prod.collapse)
  from same_open_on_node[OF k] assms k show ?thesis
    by (auto simp: finish_build_def handleE_def same_open_def all_open_def closed_close_all split: sum.splits if_splits)
qed

lemma build_ci_open:
  assumes "meta_open p" "writer_open p" "\<not> yield_loop p" "build_ci h p = (r, q)"
  shows "(case r of Inl e \<Rightarrow> all_closed q | Inr plan \<Rightarrow> all_open q)"
proof (cases "NewKeyringFromEnv (h_environ h)")
  case (Inl e)
  with assms show ?thesis by (auto simp: build_ci_def closed_close_all)
next
  case (Inr kr)
  let ?m = "if h_env h ''SCW_CI_JOB_DEFINITION_ID'' \<noteq> [] \<or> h_env h ''GITMOTE_URL'' \<noteq> []
    then on_node (resolveWorkerSecret (h_lease h) (h_tries h) (h_env h) (h_worker h)) else Pair (Inr [])"
  obtain w t where w: "?m p = (w, t)" by (metis prod.collapse)
  have t: "same_open p t"
    using w by (auto simp: same_open_def dest!: same_open_on_node split: if_splits)
  show ?thesis
  proof (cases w)
    case (Inl e)
    with w t assms Inr show ?thesis
      by (auto simp: build_ci_def Let_def handleE_def same_open_def closed_close_all split: if_splits)
  next
    case (Inr secret)
    with w t assms \<open>NewKeyringFromEnv _ = Inr kr\<close> finish_build_open[of t h kr secret] show ?thesis
      by (auto simp: build_ci_def Let_def handleE_def same_open_def closed_close_all split: if_splits)
  qed
qed

lemma build_open:
  assumes "buildGitHandler h = (r, Some p)"
  shows "case r of Inl e \<Rightarrow> all_closed p | Inr plan \<Rightarrow> all_open p"
proof -
  from assms obtain n where n: "h_open h (metaConfigFromEnv (h_tmp h) (h_env h) RoleAuto) = Some n"
    by (auto simp: buildGitHandler_def split: if_splits option.splits)
  define p0 where "p0 = maybeAutoBootstrap h
    \<lparr>node = n, meta_open = True, writer_open = False, yield_loop = False, stderr = []\<rparr>"
  have o: "meta_open p0" "\<not> writer_open p0" "\<not> yield_loop p0"
    using same_open_bootstrap[of "\<lparr>node = n, meta_open = True, writer_open = False, yield_loop = False, stderr = []\<rparr>" h]
    by (simp_all add: p0_def same_open_def)
  obtain b q where b: "build_ci h (p0\<lparr>writer_open := True\<rparr>) = (b, q)" by (metis prod.collapse)
  have "case b of Inl e \<Rightarrow> all_closed q | Inr plan \<Rightarrow> all_open q"
    by (rule build_ci_open[OF _ _ _ b]) (use o in simp_all)
  with assms b o n show ?thesis
    unfolding buildGitHandler_def
    by (auto simp: p0_def[symmetric] Let_def all_closed_def split: if_splits sum.splits)
qed

text \<open>
  C40. A start that fails at any step has closed the database, which flushes the replica and
  frees the lease, and the socket of the hook, and has started no background loop; one that
  succeeds has all three.
\<close>

theorem failed_start_closes:
  assumes "buildGitHandler h = (r, Some p)"
  shows "case r of Inl e \<Rightarrow> all_closed p | Inr plan \<Rightarrow> all_open p"
  by (rule build_open[OF assms])

definition sample_lease :: "unit s3lite" where
  "sample_lease = \<lparr>isLeader = (\<lambda>_. True), refresh = retE (), tryPromote = retE True\<rparr>"

definition sample_getenv :: getenv where
  "sample_getenv k = (if k = ''GITMOTE_S3_BUCKET'' then ''forge/base'' else if k = ''GITMOTE_URL'' then ''http://x''
     else if k = ''GITMOTE_DATA'' then ''/data'' else [])"

definition sample_host :: "bool \<Rightarrow> unit host" where
  "sample_host git = \<lparr>h_env = sample_getenv, h_environ = [], h_tmp = ''/tmp'', h_exe = Some ''/app'', h_hash = (\<lambda>x. x),
     h_now = 5, h_open = (\<lambda>c. Some \<lparr>ndb = empty_db, s3 = ()\<rparr>), h_lease = sample_lease, h_tries = 2,
     h_connect = (\<lambda>b. True), h_listen = (\<lambda>s. s = ''/data/gitmote.sock''), h_git = git,
     h_selector = Some ''s'', h_secret = Some ''t'', h_cookie = Some ''u'', h_worker = Some ''v''\<rparr>"

lemma failed_start_closes_witness:
  "\<exists>e p q plan. buildGitHandler (sample_host False) = (Inl e, Some p) \<and> all_closed p \<and>
     buildGitHandler (sample_host True) = (Inr (Some plan), Some q) \<and> all_open q \<and> length (stderr q) = 1"
proof -
  have "fst (buildGitHandler (sample_host False)) = Inl BuildGit" by code_simp
  moreover have "snd (buildGitHandler (sample_host False)) \<noteq> None" by code_simp
  ultimately obtain p where p: "buildGitHandler (sample_host False) = (Inl BuildGit, Some p)"
    by (metis not_None_eq prod.collapse)
  have "(case buildGitHandler (sample_host True) of (Inr (Some plan), Some q) \<Rightarrow> length (stderr q) = 1 | _ \<Rightarrow> False)"
    by code_simp
  then obtain plan q where q: "buildGitHandler (sample_host True) = (Inr (Some plan), Some q)" "length (stderr q) = 1"
    by (auto split: prod.splits sum.splits option.splits)
  from failed_start_closes[OF p] failed_start_closes[OF q(1)] p q show ?thesis by auto
qed

section \<open>The replica and the objects\<close>

lemma trim_char_end: "trim_char c s \<noteq> [] \<Longrightarrow> last (trim_char c s) \<noteq> c"
  unfolding trim_char_def last_rev by (rule hd_dropWhile) simp

text \<open>
  The replica of the metadata lies beside the objects, below the same base of the same
  bucket, however the storage root is written: a root that holds the one holds the other. With
  no usable root there is neither.
\<close>

theorem replica_beside_objects:
  shows "case ParseBucket (getenv ''GITMOTE_S3_BUCKET'') of (bucket, base) \<Rightarrow>
    if bucket = [] then replicaTarget getenv = [] \<and> NewS3FromEnv getenv connect = None
    else replicaTarget getenv = ''s3://'' @ bucket @ ''/'' @ s3_prefix base @ ''meta'' \<and>
      NewS3FromEnv getenv connect = map_option (\<lambda>client. NewS3 client base) (connect bucket)"
proof -
  obtain bucket base where p: "ParseBucket (getenv ''GITMOTE_S3_BUCKET'') = (bucket, base)"
    by (metis prod.collapse)
  let ?r = "trim_char (CHR ''/'') (getenv ''GITMOTE_S3_BUCKET'')"
  have "\<not> has_suffix ''/'' base"
  proof
    assume s: "has_suffix ''/'' base"
    then obtain u where u: "base = u @ ''/''" by (auto simp: has_suffix_iff)
    with p have "cut ''/'' ?r = Some (bucket, base)"
      by (auto simp: ParseBucket_def Let_def split: option.splits)
    then have "?r = bucket @ ''/'' @ base" by (rule cut_Some)
    with u trim_char_end[of "CHR ''/''" "getenv ''GITMOTE_S3_BUCKET''"] show False by simp
  qed
  then have "base \<noteq> [] \<Longrightarrow> s3_prefix base = base @ ''/''" by (simp add: s3_prefix_def)
  moreover have "s3_prefix [] = []" by (simp add: s3_prefix_def)
  ultimately show ?thesis by (auto simp: p replicaTarget_def NewS3FromEnv_def Let_def)
qed

section \<open>What the start sets up\<close>

lemma build_ci_Inr:
  assumes "build_ci h p = (Inr plan, q)"
  shows "pl_trigger plan = choose_trigger h"
    "h_env h ''SCW_CI_JOB_DEFINITION_ID'' = [] \<or> h_env h ''GITMOTE_URL'' \<noteq> []"
    "h_env h ''SCW_CI_JOB_DEFINITION_ID'' = [] \<Longrightarrow> h_env h ''GITMOTE_URL'' = [] \<Longrightarrow> pl_worker_secret plan = []"
    "pl_cookie_key plan \<noteq> []"
  using assms
  by (auto simp: build_ci_def finish_build_def Let_def handleE_def split: sum.splits prod.splits if_splits)

lemma built_ci:
  assumes "buildGitHandler h = (Inr (Some plan), Some p)"
  shows "\<exists>p0. build_ci h p0 = (Inr plan, p)"
  using assms by (auto simp: buildGitHandler_def Let_def split: if_splits option.splits prod.splits sum.splits)

text \<open>
  A server that starts without a substrate for CI has no trigger and no worker secret, and
  then the report API refuses every request; one that starts with a substrate knows the URL that
  its runners need. Its session key is never empty.
\<close>

theorem ci_off_is_closed:
  assumes "buildGitHandler h = (Inr (Some plan), Some p)"
  shows "(pl_trigger plan = NoopTrigger) = (h_env h ''GITMOTE_URL'' = []) \<and> pl_cookie_key plan \<noteq> [] \<and>
    (if pl_trigger plan = NoopTrigger
     then authed (pl_worker_secret plan) lead header = Some (401, Message ''unauthorized'')
     else h_env h ''GITMOTE_URL'' \<noteq> [])"
proof -
  from built_ci[OF assms] obtain p0 where b: "build_ci h p0 = (Inr plan, p)" by blast
  have "(pl_trigger plan = NoopTrigger) = (h_env h ''GITMOTE_URL'' = [])"
    using build_ci_Inr(1,2)[OF b] by (auto simp: choose_trigger_def Let_def)
  with build_ci_Inr[OF b] show ?thesis by (auto simp: authed_def)
qed

lemma ci_off_is_closed_witness:
  "\<exists>plan p. buildGitHandler (sample_host True) = (Inr (Some plan), Some p) \<and>
     pl_trigger plan \<noteq> NoopTrigger \<and> pl_cookie_key plan \<noteq> []"
proof -
  have "(case buildGitHandler (sample_host True) of (Inr (Some plan), Some q) \<Rightarrow> True | _ \<Rightarrow> False)"
    by code_simp
  then obtain plan p where q: "buildGitHandler (sample_host True) = (Inr (Some plan), Some p)"
    by (auto split: prod.splits sum.splits option.splits)
  moreover have "h_env (sample_host True) ''GITMOTE_URL'' \<noteq> []" by code_simp
  ultimately show ?thesis using ci_off_is_closed[OF q] by auto
qed

text \<open>
  The token that the first boot prints signs its owner in; a later boot and a follower print
  nothing and leave the database as it is.
\<close>

lemma banner_shows_token: "\<exists>a b. writeBootstrapBanner u r raw = a @ raw @ b"
  unfolding writeBootstrapBanner_def Let_def by (metis append.assoc)

lemma first_boot_prints_token:
  assumes "db_ok (ndb (node p))" "no_faults (ndb (node p))" "isLeader (h_lease h) (node p)"
    and "maybeAutoBootstrap h p = q" "stderr q \<noteq> stderr p" "h_selector h \<noteq> Some []" "h_secret h \<noteq> Some []"
  shows "\<exists>a raw pre post. stderr q = stderr p @ [pre @ raw @ post] \<and> is_admin a \<and>
    fst (verify (h_hash h) later raw (ndb (node q))) = Inr \<lparr>vt_user = a, vt_scope = None, vt_read_only = False\<rparr>"
proof -
  let ?o = "\<lparr>AdminHandle = DefaultAdminHandle, RepoName = [], DefaultBranch = [], TokenLabel = []\<rparr>"
  let ?run = "RunBootstrap (h_hash h) (h_selector h) (h_secret h) (h_now h) ?o"
  have e: "on_db AdminExists (node p) = (Inr (\<exists>u \<in> set (users (ndb (node p))). is_admin u), node p)"
    using assms(2) by (simp add: on_db_def AdminExists_def)
  obtain r d where r: "?run (ndb (node p)) = (r, d)" by (metis prod.collapse)
  have n: "\<not> (\<exists>u \<in> set (users (ndb (node p))). is_admin u)"
    using assms(4,5) e assms(3) by (auto simp: maybeAutoBootstrap_def split: bool.splits)
  with assms(3-5) e r obtain res a where res: "r = Inr res" "Admin res = Some a"
      "q = p\<lparr>node := (node p)\<lparr>ndb := d\<rparr>, stderr := stderr p @ [writeBootstrapBanner a (Repo res) (RawToken res)]\<rparr>"
    by (auto simp: maybeAutoBootstrap_def split: sum.splits option.splits)
  have "\<not> AlreadyBootstrapped res"
    using r res(1,2) by (auto simp: RunBootstrap_def bindE_Inr liftB_Inr retE_def split: if_splits)
  from bootstrap_admin_in[OF assms(1,2) r[unfolded res(1)] this assms(6,7), of later] res
    banner_shows_token[of a "Repo res" "RawToken res"]
  show ?thesis by fastforce
qed

lemma follower_prints_nothing: "\<not> isLeader (h_lease h) (node p) \<Longrightarrow> maybeAutoBootstrap h p = p"
  by (simp add: maybeAutoBootstrap_def)

lemma trigger_reports_refusal:
  "fst (Trigger (\<lambda>q. Pair (Inr (status, body))) c env w) =
     (if jc_definition c \<noteq> [] \<and> 300 \<le> status then Some (Refused status body) else None)"
  by (simp add: Trigger_def handleE_def)

end
