(* ===== verification/HookRpc.thy ===== *)
theory HookRpc
  imports GoStruct Receive
begin

text \<open>
  \<open>internal/hookrpc\<close>: the channel from the pre-receive hook to the server, and the two ends put
  together. A call is one connection of the unix socket: the request as JSON, then the verdict as
  JSON. \<open>marshal\<close> and \<open>unmarshal\<close> are what \<open>encoding/json\<close> does with the tagged structs of the
  file. The network is a function from the bytes that are sent to the bytes that come back, \<open>None\<close>
  if the dial or the write fails.
\<close>

section \<open>The structs on the wire\<close>

definition marshal_command :: "ref_command \<Rightarrow> json" where
  "marshal_command c = JObj [(''old'', JStr (c_old c)), (''new'', JStr (c_new c)), (''ref'', JStr (c_ref c)),
     (''force'', JBool (c_force c))]"

text \<open>A slice that no line was appended to is nil, and \<open>null\<close> on the wire.\<close>

definition marshal_request :: "request \<Rightarrow> json" where
  "marshal_request rq = JObj [(''nonce'', JStr (rq_nonce rq)),
     (''commands'', if rq_commands rq = [] then JNull else JArr (map marshal_command (rq_commands rq))),
     (''quarantine_path'', JStr (rq_quarantine rq))]"

definition marshal_response :: "response \<Rightarrow> json" where
  "marshal_response r = (case r of Accepted \<Rightarrow> JObj [(''ok'', JBool True)]
     | Refused why \<Rightarrow> JObj ((''ok'', JBool False) # (if why = [] then [] else [(''reason'', JStr why)])))"

definition zero_command :: ref_command where
  "zero_command = \<lparr>c_old = [], c_new = [], c_ref = [], c_force = False\<rparr>"

definition command_field :: "bytes \<times> json \<Rightarrow> ref_command \<Rightarrow> ref_command option" where
  "command_field m c = (let (k, v) = m in
     if is_field ''old'' k then map_option (\<lambda>s. c\<lparr>c_old := s\<rparr>) (unmarshal_string v (c_old c))
     else if is_field ''new'' k then map_option (\<lambda>s. c\<lparr>c_new := s\<rparr>) (unmarshal_string v (c_new c))
     else if is_field ''ref'' k then map_option (\<lambda>s. c\<lparr>c_ref := s\<rparr>) (unmarshal_string v (c_ref c))
     else if is_field ''force'' k then map_option (\<lambda>b. c\<lparr>c_force := b\<rparr>) (unmarshal_bool v (c_force c))
     else Some c)"

definition zero_request :: request where
  "zero_request = \<lparr>rq_nonce = [], rq_commands = [], rq_quarantine = []\<rparr>"

definition request_field :: "bytes \<times> json \<Rightarrow> request \<Rightarrow> request option" where
  "request_field m rq = (let (k, v) = m in
     if is_field ''nonce'' k then map_option (\<lambda>s. rq\<lparr>rq_nonce := s\<rparr>) (unmarshal_string v (rq_nonce rq))
     else if is_field ''commands'' k then map_option (\<lambda>cs. rq\<lparr>rq_commands := cs\<rparr>)
       (unmarshal_list (unmarshal_struct command_field) zero_command v (rq_commands rq))
     else if is_field ''quarantine_path'' k then
       map_option (\<lambda>s. rq\<lparr>rq_quarantine := s\<rparr>) (unmarshal_string v (rq_quarantine rq))
     else Some rq)"

definition response_field :: "bytes \<times> json \<Rightarrow> bool \<times> string \<Rightarrow> (bool \<times> string) option" where
  "response_field m r = (let (k, v) = m in
     if is_field ''ok'' k then map_option (\<lambda>b. (b, snd r)) (unmarshal_bool v (fst r))
     else if is_field ''reason'' k then map_option (\<lambda>s. (fst r, s)) (unmarshal_string v (snd r))
     else Some r)"

definition decode_request :: "bytes \<Rightarrow> request option" where
  "decode_request = Decode (\<lambda>v. unmarshal_struct request_field v zero_request)"

definition decode_response :: "bytes \<Rightarrow> response option" where
  "decode_response = Decode (\<lambda>v. map_option (\<lambda>(ok, why). if ok then Accepted else Refused why)
     (unmarshal_struct response_field v (False, [])))"

section \<open>The two ends\<close>

definition Call :: "(string \<Rightarrow> bytes \<Rightarrow> bytes option) \<Rightarrow> string \<Rightarrow> request \<Rightarrow> response option" where
  "Call net sock rq = (case net sock (Encode (marshal_request rq)) of None \<Rightarrow> None
     | Some out \<Rightarrow> decode_response out)"

definition serveConn :: "(request \<Rightarrow> 's \<Rightarrow> response \<times> 's) \<Rightarrow> bytes \<Rightarrow> 's \<Rightarrow> bytes \<times> 's" where
  "serveConn h input s = (case decode_request input of
       None \<Rightarrow> (Encode (marshal_response (Refused ''malformed request'')), s)
     | Some rq \<Rightarrow> (let (r, t) = h rq s in (Encode (marshal_response r), t)))"

datatype accept = Conn bytes | AcceptFailed | ListenerClosed

text \<open>The connections that the accept loop gives a goroutine, in their order.\<close>

fun Serve :: "accept list \<Rightarrow> bytes list" where
  "Serve [] = []"
| "Serve (Conn input # as) = input # Serve as"
| "Serve (AcceptFailed # as) = Serve as"
| "Serve (ListenerClosed # as) = []"

section \<open>What arrives\<close>

text \<open>The replacement character stands for bytes of a ref or of a path that are not UTF-8.\<close>

definition utf8_command :: "ref_command \<Rightarrow> ref_command" where
  "utf8_command c = c\<lparr>c_old := valid_utf8 (c_old c), c_new := valid_utf8 (c_new c), c_ref := valid_utf8 (c_ref c)\<rparr>"

definition utf8_request :: "request \<Rightarrow> request" where
  "utf8_request rq = \<lparr>rq_nonce = valid_utf8 (rq_nonce rq), rq_commands = map utf8_command (rq_commands rq),
     rq_quarantine = valid_utf8 (rq_quarantine rq)\<rparr>"

definition utf8_response :: "response \<Rightarrow> response" where
  "utf8_response r = (case r of Accepted \<Rightarrow> Accepted | Refused why \<Rightarrow> Refused (valid_utf8 why))"

lemma keys_utf8 [simp]:
  "valid_utf8 ''old'' = ''old''" "valid_utf8 ''new'' = ''new''" "valid_utf8 ''ref'' = ''ref''"
  "valid_utf8 ''force'' = ''force''" "valid_utf8 ''nonce'' = ''nonce''" "valid_utf8 ''commands'' = ''commands''"
  "valid_utf8 ''quarantine_path'' = ''quarantine_path''" "valid_utf8 ''ok'' = ''ok''" "valid_utf8 ''reason'' = ''reason''"
  by (rule ascii_name, simp)+

lemma is_field_other [simp]:
  "\<not> is_field ''old'' ''new''" "\<not> is_field ''old'' ''ref''" "\<not> is_field ''old'' ''force''"
  "\<not> is_field ''new'' ''ref''" "\<not> is_field ''new'' ''force''" "\<not> is_field ''ref'' ''force''"
  "\<not> is_field ''nonce'' ''commands''" "\<not> is_field ''nonce'' ''quarantine_path''"
  "\<not> is_field ''commands'' ''quarantine_path''" "\<not> is_field ''ok'' ''reason''"
  by (simp_all add: is_field_ascii to_upper_def)

lemma unmarshal_command [simp]:
  "unmarshal_struct command_field (valid_json (marshal_command c)) zero_command = Some (utf8_command c)"
  by (simp add: marshal_command_def unmarshal_struct_def command_field_def unmarshal_string_def
      unmarshal_bool_def zero_command_def utf8_command_def)

lemma unmarshal_commands:
  "unmarshal_elems (unmarshal_struct command_field) zero_command (map valid_json (map marshal_command cs)) [] =
   Some (map utf8_command cs)"
  by (induction cs) simp_all

lemma printable_marshalled:
  "printable maxNestingDepth (marshal_request rq)" "printable maxNestingDepth (marshal_response r)"
proof -
  have "printable d (marshal_request rq)" "printable d (marshal_response r)" if "3 \<le> d" for d
    using that by (auto simp: marshal_request_def marshal_response_def marshal_command_def split: response.split)
  moreover have "3 \<le> maxNestingDepth" by (simp add: maxNestingDepth_def)
  ultimately show "printable maxNestingDepth (marshal_request rq)" "printable maxNestingDepth (marshal_response r)"
    by blast+
qed

lemma marshalled_ends: "ends (marshal_request rq) t" "ends (marshal_response r) t"
  by (simp_all add: marshal_request_def marshal_response_def split: response.split)

lemma decode_request_encoded: "decode_request (Encode (marshal_request rq) @ t) = Some (utf8_request rq)"
proof -
  have "decode_json (Encode (marshal_request rq) @ t) = Parsed (valid_json (marshal_request rq)) (newline # t)"
    using json_roundtrip[OF printable_marshalled(1) marshalled_ends(1), of rq "newline # t"] by (simp add: Encode_def)
  moreover have "unmarshal_struct request_field (valid_json (marshal_request rq)) zero_request = Some (utf8_request rq)"
    using unmarshal_commands[of "rq_commands rq"]
    by (auto simp: marshal_request_def unmarshal_struct_def request_field_def unmarshal_string_def
        unmarshal_list_def zero_request_def utf8_request_def)
  ultimately show ?thesis by (simp add: decode_request_def Decode_def)
qed

lemma decode_response_encoded [simp]:
  "decode_response (Encode (marshal_response r) @ t) = Some (utf8_response r)"
proof -
  have "decode_json (Encode (marshal_response r) @ t) = Parsed (valid_json (marshal_response r)) (newline # t)"
    using json_roundtrip[OF printable_marshalled(2) marshalled_ends(2), of r "newline # t"] by (simp add: Encode_def)
  moreover have "map_option (\<lambda>(ok, why). if ok then Accepted else Refused why)
      (unmarshal_struct response_field (valid_json (marshal_response r)) (False, [])) = Some (utf8_response r)"
    by (auto simp: marshal_response_def unmarshal_struct_def response_field_def unmarshal_string_def
        unmarshal_bool_def utf8_response_def split: response.split)
  ultimately show ?thesis by (simp add: decode_response_def Decode_def)
qed

text \<open>
  A call that reaches the server is answered by the handler: it gets the request that the hook
  sent and the hook gets its verdict, up to bytes that are not UTF-8; and a connection that does
  not carry a request is refused and changes nothing.
\<close>

theorem call_reaches_handler:
  "serveConn h (Encode (marshal_request rq)) s =
     (Encode (marshal_response (fst (h (utf8_request rq) s))), snd (h (utf8_request rq) s)) \<and>
   Call (\<lambda>_ input. Some (fst (serveConn h input s))) sock rq =
     Some (utf8_response (fst (h (utf8_request rq) s)))"
  using decode_request_encoded[of rq "[]"]
    decode_response_encoded[of "fst (h (utf8_request rq) s)" "[]"]
  by (simp add: serveConn_def Call_def case_prod_beta)

text \<open>
  C13. Every connection is answered, whatever bytes come in: the decoder does not run out of its
  fuel, and the hook can read the answer, which is the verdict of the handler on the request that
  was read, or a refusal that leaves the state as it was if the bytes are no request.
\<close>

theorem every_connection_answered:
  "decode_json input \<noteq> NoFuel \<and>
   (case decode_request input of
      None \<Rightarrow> decode_response (fst (serveConn h input s)) = Some (Refused ''malformed request'') \<and>
        snd (serveConn h input s) = s
    | Some rq \<Rightarrow> decode_response (fst (serveConn h input s)) = Some (utf8_response (fst (h rq s))) \<and>
        snd (serveConn h input s) = snd (h rq s))"
proof -
  have "valid_utf8 ''malformed request'' = ''malformed request''" by (rule ascii_name) simp
  then show ?thesis
    using json_never_starves decode_response_encoded[of _ "[]"]
    by (simp add: serveConn_def utf8_response_def split: option.split prod.split)
qed

section \<open>From git to the database and back\<close>

text \<open>A socket that the server listens on and that no failure cuts.\<close>

definition server_socket :: "'s store_ops \<Rightarrow> (string \<Rightarrow> walk_entry list) \<Rightarrow> time \<Rightarrow> 's writer \<Rightarrow>
    string \<Rightarrow> bytes \<Rightarrow> bytes option" where
  "server_socket S walk ts w sock input = Some (fst (serveConn (handle_push S walk ts) input w))"

definition hook_request :: "(string \<Rightarrow> string) \<Rightarrow> (string \<Rightarrow> string \<Rightarrow> bool) \<Rightarrow> ref_command list \<Rightarrow> string \<Rightarrow> request" where
  "hook_request env is_ancestor cs q = \<lparr>rq_nonce = env ''GITMOTE_NONCE'',
     rq_commands = map (mark_force is_ancestor) cs, rq_quarantine = q\<rparr>"

lemma Call_server_socket: "Call (server_socket S walk ts w) sock rq =
    Some (utf8_response (fst (handle_push S walk ts (utf8_request rq) w)))"
  using decode_request_encoded[of rq "[]"] decode_response_encoded[of "fst (handle_push S walk ts (utf8_request rq) w)" "[]"]
  by (simp add: Call_def server_socket_def serveConn_def case_prod_beta)

text \<open>A socket that may break: nothing comes back, or the answer comes up to some byte.\<close>

definition may_break :: "(string \<Rightarrow> bytes \<Rightarrow> bytes option) \<Rightarrow> (string \<Rightarrow> bytes \<Rightarrow> bytes option) \<Rightarrow> bool" where
  "may_break net whole \<longleftrightarrow> (\<forall>sock input out. net sock input = Some out \<longrightarrow> (\<exists>x. whole sock input = Some (out @ x)))"

lemma decode_response_cut:
  assumes "p @ x = Encode (marshal_response resp)" "decode_response p = Some v"
  shows "v = utf8_response resp"
proof -
  obtain w r where w: "decode_json p = Parsed w r" "map_option (\<lambda>(ok, why). if ok then Accepted else Refused why)
      (unmarshal_struct response_field w (False, [])) = Some v"
    using assms(2) by (auto simp: decode_response_def Decode_def split: parsed.splits)
  have "\<forall>l. w \<noteq> JNum l" using w(2) by (auto simp: unmarshal_struct_def)
  from cut_value_rejected[OF printable_marshalled(2) marshalled_ends(2) this w(1)] assms(1)
  have "decode_json (Encode (marshal_response resp)) = Parsed w [newline]"
    using json_roundtrip[OF printable_marshalled(2) marshalled_ends(2), of resp "[newline]"] by (simp add: Encode_def)
  with w(2) have "decode_response (Encode (marshal_response resp)) = Some v"
    by (simp add: decode_response_def Decode_def)
  with decode_response_encoded[of resp "[]"] show ?thesis by simp
qed

lemma Call_may_break:
  assumes "may_break net (server_socket S walk ts w)"
  shows "Call net sock rq \<in> {None, Some (utf8_response (fst (handle_push S walk ts (utf8_request rq) w)))}"
proof (cases "net sock (Encode (marshal_request rq))")
  case (Some out)
  with assms obtain x where "out @ x = fst (serveConn (handle_push S walk ts) (Encode (marshal_request rq)) w)"
    by (fastforce simp: may_break_def server_socket_def)
  then have "out @ x = Encode (marshal_response (fst (handle_push S walk ts (utf8_request rq) w)))"
    using decode_request_encoded[of rq "[]"] by (simp add: serveConn_def case_prod_beta)
  from decode_response_cut[OF this] Some show ?thesis by (cases "decode_response out") (auto simp: Call_def)
qed (simp add: Call_def)


definition sample_env :: "string \<Rightarrow> string" where
  "sample_env v = (if v = ''GITMOTE_NONCE'' then ''n1'' else if v = ''GIT_OBJECT_DIRECTORY'' then ''/q'' else ''/s'')"

definition sample_update :: ref_command where
  "sample_update = \<lparr>c_old = sha1_a, c_new = sha1_b, c_ref = ''refs/heads/main'', c_force = False\<rparr>"

lemma sample_arrives:
  "utf8_request (hook_request sample_env (\<lambda>_ _. True) [sample_update] ''/q'') = sample_request"
proof -
  have "valid_utf8 sha1_a = sha1_a" "valid_utf8 sha1_b = sha1_b" "valid_utf8 ''refs/heads/main'' = ''refs/heads/main''"
    "valid_utf8 ''n1'' = ''n1''" "valid_utf8 ''/q'' = ''/q''"
    by (rule ascii_name, code_simp)+
  then show ?thesis
    by (simp add: utf8_request_def utf8_command_def hook_request_def sample_request_def mark_force_def
        sample_update_def sample_env_def)
qed

lemma sample_writer_ok: "db_ok (wdb (sample_writer name))" "wdb (sample_writer name) = sample_db"
  by (simp_all add: sample_writer_def)


text \<open>
  The third case is real: if the connection breaks after the server has moved the refs, the hook
  rejects the push that is committed, and the client is told that it failed.
\<close>

lemma lost_answer_moves_refs:
  "hook_run sample_env Some (\<lambda>_ _. True) (Call (\<lambda>_ _. Some [])) (print_command sample_update @ [newline]) = Inl RpcFailed \<and>
   may_break (\<lambda>_ _. Some []) (server_socket Mem sample_walk 5 (sample_writer ''app'')) \<and>
   ref_map (wdb (snd (serveConn (handle_push Mem sample_walk 5)
     (Encode (marshal_request (hook_request sample_env (\<lambda>_ _. True) [sample_update] ''/q''))) (sample_writer ''app''))))
     2 ''refs/heads/main'' = Some sha1_b"
proof -
  let ?enc = "Encode (marshal_request (hook_request sample_env (\<lambda>_ _. True) [sample_update] ''/q''))"
  have "decode_response [] = None"
    by (simp add: decode_response_def Decode_def decode_json_def skip_space_def)
  moreover have "parseCommands (print_command sample_update @ [newline]) = Inr [sample_update]" by code_simp
  ultimately have "hook_run sample_env Some (\<lambda>_ _. True) (Call (\<lambda>_ _. Some [])) (print_command sample_update @ [newline])
      = Inl RpcFailed"
    by (simp add: hook_run_def sample_env_def Call_def)
  moreover have "may_break (\<lambda>_ _. Some []) (server_socket Mem sample_walk 5 (sample_writer ''app''))"
    by (simp add: may_break_def server_socket_def)
  moreover have "snd (serveConn (handle_push Mem sample_walk 5) ?enc (sample_writer ''app'')) =
      snd (handle_push Mem sample_walk 5 sample_request (sample_writer ''app''))"
    using decode_request_encoded[of "hook_request sample_env (\<lambda>_ _. True) [sample_update] ''/q''" "[]"] sample_arrives
    by (simp add: serveConn_def case_prod_beta)
  moreover have "ref_map (wdb (snd (handle_push Mem sample_walk 5 sample_request (sample_writer ''app'')))) 2
      ''refs/heads/main'' = Some sha1_b"
    by code_simp
  ultimately show ?thesis by simp
qed

text \<open>
  A ref whose name is not UTF-8, which git allows, never gets into the database: a push that is
  accepted writes another name.
\<close>

lemma rune_size_replacement [simp]: "rune_size (replacement @ t) = Suc 2"
  by (simp add: rune_size_def replacement_def byte_in_def second_ok_def)

lemma is_utf8_valid: "is_utf8 (valid_utf8 s)"
proof (induction s rule: valid_utf8.induct)
  case (2 c cs)
  show ?case
  proof (cases "rune_size (c # cs)")
    case 0
    have "is_utf8 (replacement @ t) = is_utf8 t" for t
      using rune_size_replacement[of t] by (simp add: replacement_def)
    with 0 2(1) show ?thesis by (simp add: valid_utf8.simps(2))
  next
    case (Suc n)
    with 2(2) rune_size_take(1)[OF Suc, of "valid_utf8 (drop n cs)"] rune_size_take(2)[OF Suc] show ?thesis
      by (simp add: valid_utf8.simps(2))
  qed
qed simp

lemma abs_cas_other: "abs_cas us m = Some m' \<Longrightarrow> n \<notin> up_name ` set us \<Longrightarrow> m' n = m n"
  by (induction us arbitrary: m) (auto split: if_splits)

theorem non_utf8_ref_stays:
  assumes "object_store contents S" "db_ok (wdb w)" "\<not> is_utf8 name"
    and "snd (serveConn (handle_push S walk ts) (Encode (marshal_request rq)) w) = w'"
  shows "ref_map (wdb w') i name = ref_map (wdb w) i name"
proof -
  obtain resp where h: "handle_push S walk ts (utf8_request rq) w = (resp, w')"
    using assms(4) decode_request_encoded[of rq "[]"]
    by (cases "handle_push S walk ts (utf8_request rq) w") (simp add: serveConn_def)
  show ?thesis
  proof (cases resp)
    case Accepted
    with h have a: "handle_push S walk ts (utf8_request rq) w = (Accepted, w')" by simp
    have other: "name \<notin> up_name ` set (map update_of (rq_commands (utf8_request rq)))"
      using assms(3) is_utf8_valid by (auto simp: utf8_request_def utf8_command_def update_of_def)
    show ?thesis
    proof (rule handle_accepted_moves[OF assms(1,2) a])
      fix pop
      assume m: "abs_cas (map update_of (rq_commands (utf8_request rq))) (ref_map (wdb w) (op_repo_id pop)) =
          Some (ref_map (wdb w') (op_repo_id pop))"
        "\<forall>i. i \<noteq> op_repo_id pop \<longrightarrow> ref_map (wdb w') i = ref_map (wdb w) i"
      from m(2) abs_cas_other[OF m(1) other] show ?thesis by (cases "i = op_repo_id pop") simp_all
    qed
  next
    case (Refused why)
    with h handle_refused_keeps(1)[of S walk ts "utf8_request rq" w why w'] show ?thesis by simp
  qed
qed

lemma non_utf8_ref_stays_witness:
  "ref_map (wdb (snd (serveConn (handle_push Mem sample_walk 5) (Encode (marshal_request sample_request))
     (sample_writer ''app'')))) 2 [char_of (233 :: nat)] = ref_map sample_db 2 [char_of (233 :: nat)]"
proof -
  have "\<not> is_utf8 [char_of (233 :: nat)]" by (simp add: rune_size_def byte_in_def)
  from non_utf8_ref_stays[OF mem.object_store_axioms sample_writer_ok(1) this refl] show ?thesis
    unfolding sample_writer_ok(2) .
qed

end
