(* ===== verification/Lifecycle.thy ===== *)
theory Lifecycle
  imports Startup HookRpc Dispatcher
begin

text \<open>
  What begins and ends with the server. \<open>NewWriter\<close> and \<open>Close\<close> of \<open>githttp/receive.go\<close> set up
  the hook directory and the socket on a file system whose calls may fail; \<open>run\<close> of
  \<open>cmd/gitmote/main.go\<close> takes the server from its start through its two ways to end; its two
  background loops run until their context is done; and the after-commit hook, which
  \<open>buildGitHandler\<close> installs, hands every ref of a push to the dispatcher.
\<close>

section \<open>Opening the database\<close>

text \<open>
  \<open>meta.Open\<close> over the open of s3lite, which applies the schema and gives the columns of the table of
  the tokens: the migration follows, and a database whose migration fails is closed again. The
  second part of the result says whether the database is left open.
\<close>

definition Open :: "(meta_config \<Rightarrow> table_state option) \<Rightarrow> meta_config \<Rightarrow> table_state option \<times> bool" where
  "Open s3open cfg = (case s3open cfg of None \<Rightarrow> (None, False)
     | Some ts \<Rightarrow> (case migrate ts of (Inl e, ts') \<Rightarrow> (None, False) | (Inr _, ts') \<Rightarrow> (Some ts', True)))"

lemma open_migrates:
  assumes "Open s3open cfg = (r, is_open)"
  shows "is_open \<longleftrightarrow> r \<noteq> None" and "r = Some (cols, fs) \<Longrightarrow> fst ` set tokenColumns \<subseteq> set cols"
    and "r = Some (cols, fs) \<Longrightarrow> Open (\<lambda>_. Some (cols, gs)) cfg = (Some (cols, gs), True)"
proof -
  show "is_open \<longleftrightarrow> r \<noteq> None"
    using assms by (auto simp: Open_def split: option.splits prod.splits sum.splits)
  show c: "fst ` set tokenColumns \<subseteq> set cols" if "r = Some (cols, fs)"
  proof -
    from assms that obtain h g u where "migrate (h, g) = (Inr u, (cols, fs))"
      by (auto simp: Open_def split: option.splits prod.splits sum.splits)
    then show ?thesis using addColumns_have[of tokenColumns h g "Inr u" cols fs] by (simp add: migrate_def)
  qed
  show "Open (\<lambda>_. Some (cols, gs)) cfg = (Some (cols, gs), True)" if "r = Some (cols, fs)"
    using addColumns_done[OF c[OF that]] by (simp add: Open_def migrate_def)
qed

section \<open>The hook directory and the socket\<close>

text \<open>A hook directory and the target of its \<open>pre-receive\<close> link, the socket files and the listeners.\<close>

record host_files =
  hook_dirs :: "string \<Rightarrow> string option option"
  sock_files :: "string list"
  listeners :: "string list"

record setup_env =
  su_abs :: "string \<Rightarrow> string option"
  su_stat :: "string \<Rightarrow> bool"
  su_temp :: "string option"
  su_symlink :: bool
  su_mkdir :: bool
  su_listen :: bool

definition installHook :: "setup_env \<Rightarrow> string \<Rightarrow> host_files \<Rightarrow> string option \<times> host_files" where
  "installHook su hookBinary fs = (case su_abs su hookBinary of None \<Rightarrow> (None, fs)
     | Some bin \<Rightarrow>
         if \<not> su_stat su bin then (None, fs)
         else (case su_temp su of None \<Rightarrow> (None, fs)
           | Some dir \<Rightarrow> (let fs1 = fs\<lparr>hook_dirs := (hook_dirs fs)(dir \<mapsto> None)\<rparr> in
               if \<not> su_symlink su then (None, fs1)
               else (Some dir, fs1\<lparr>hook_dirs := (hook_dirs fs1)(dir \<mapsto> Some bin)\<rparr>))))"

record 's write_path =
  hookDir :: string
  sockAddr :: string
  coordinator :: "'s writer"

definition NewWriter :: "setup_env \<Rightarrow> (nat \<Rightarrow> bool) \<Rightarrow> db \<Rightarrow> 's \<Rightarrow> string \<Rightarrow> string \<Rightarrow> host_files \<Rightarrow> 's write_path option \<times> host_files" where
  "NewWriter su wide d objs hookBinary sock fs = (case installHook su hookBinary fs of (None, fs1) \<Rightarrow> (None, fs1)
     | (Some dir, fs1) \<Rightarrow>
         (let fs2 = fs1\<lparr>sock_files := removeAll sock (sock_files fs1)\<rparr> in
          if \<not> su_mkdir su then (None, fs2)
          else if \<not> su_listen su then (None, fs2)
          else (Some \<lparr>hookDir = dir, sockAddr = sock, coordinator = \<lparr>wdb = d, objects = objs, locks = [],
                  pushes = (\<lambda>_. None), outcomes = (\<lambda>_. []), next_outcome = 0, wide_print = wide\<rparr>\<rparr>,
                fs2\<lparr>sock_files := sock # sock_files fs2, listeners := sock # listeners fs2\<rparr>)))"

definition Close :: "'s write_path \<Rightarrow> host_files \<Rightarrow> host_files" where
  "Close wp fs = fs\<lparr>listeners := removeAll (sockAddr wp) (listeners fs), sock_files := removeAll (sockAddr wp) (sock_files fs)\<rparr>"

definition HooksPath :: "'s write_path \<Rightarrow> string" where "HooksPath wp = hookDir wp"

definition SockPath :: "'s write_path \<Rightarrow> string" where "SockPath wp = sockAddr wp"

definition Committed :: "'s writer \<Rightarrow> push \<Rightarrow> commit_info list" where
  "Committed w p = outcomes w (p_outcome p)"

text \<open>
  A new writer is ready for pushes: git finds the hook through \<open>core.hooksPath\<close>, the hook finds
  the server through the socket, also if a crash left a stale one, and no lock and no nonce is
  taken. If it could not be made, nobody listens that did not before.
\<close>

theorem new_writer_ready:
  "case NewWriter su wide d objs bin sock fs of
     (Some wp, fs') \<Rightarrow> (\<exists>target. su_abs su bin = Some target \<and> hook_dirs fs' (HooksPath wp) = Some (Some target)) \<and>
        SockPath wp = sock \<and> listeners fs' = sock # listeners fs \<and> count_list (sock_files fs') sock = 1 \<and>
        locks (coordinator wp) = [] \<and> pushes (coordinator wp) = Map.empty
   | (None, fs') \<Rightarrow> listeners fs' = listeners fs"
  by (simp add: NewWriter_def installHook_def HooksPath_def SockPath_def Let_def count_list_0_iff
      split: option.split)

lemma close_frees_socket:
  "sockAddr wp \<notin> set (listeners (Close wp fs)) \<and> sockAddr wp \<notin> set (sock_files (Close wp fs))"
  by (simp add: Close_def)

text \<open>The directory of the hook stays behind, after a close and after a failure.\<close>

lemma hook_dir_stays: "hook_dirs (Close wp fs) = hook_dirs fs"
  by (simp add: Close_def)

section \<open>The after-commit hook\<close>

definition event_of :: "int \<Rightarrow> commit_info \<Rightarrow> event" where
  "event_of pusher c = \<lparr>ev_repo = ci_repo_id c, ev_name = ci_repo_name c, ev_ref = ci_ref c, ev_old = ci_old c,
     ev_new = ci_new c, ev_pusher = pusher\<rparr>"

text \<open>Each dispatch reads its own random bytes.\<close>

fun AfterCommit :: "'s dispatcher \<Rightarrow> (commit_info \<Rightarrow> bytes option \<times> bytes option) \<Rightarrow> time \<Rightarrow> int \<Rightarrow> commit_info list \<Rightarrow>
    's dispatch \<Rightarrow> 's dispatch" where
  "AfterCommit c rnd now pusher [] s = s"
| "AfterCommit c rnd now pusher (x # xs) s =
     AfterCommit c rnd now pusher xs (snd (Dispatch c (rnd x) now (event_of pusher x) s))"

text \<open>A push that only deletes refs or moves tags starts no CI.\<close>

lemma no_branch_no_ci:
  "\<forall>x \<in> set xs. \<not> has_prefix branchPrefix (ci_ref x) \<or> isAbsent (ci_new x) \<Longrightarrow>
   AfterCommit c rnd now pusher xs s = s"
  by (induction xs) (auto simp: Dispatch_def event_of_def)

section \<open>The background loops\<close>

datatype loop_event = Tick | Done

text \<open>\<open>reconcileLoop\<close> and \<open>yieldWhenIdle\<close>: the body at every tick, until the context is done.\<close>

fun ticker_loop :: "('s \<Rightarrow> 's) \<Rightarrow> loop_event list \<Rightarrow> 's \<Rightarrow> 's" where
  "ticker_loop body [] s = s"
| "ticker_loop body (Done # es) s = s"
| "ticker_loop body (Tick # es) s = ticker_loop body es (body s)"

lemma ticker_loop_stops: "ticker_loop body (replicate n Tick @ Done # es) s = (body ^^ n) s"
  by (induction n arbitrary: s) (simp_all add: funpow_swap1)

section \<open>From the start to the end\<close>

record run_env =
  ru_serve_first :: bool
  ru_shutdown :: bool
  ru_serve_closed :: bool
  ru_close_writer :: bool
  ru_close_meta :: bool

datatype run_result = RunEnded | RunBuildFailed build_error | RunServeFailed | RunShutdownFailed

text \<open>\<open>cleanup\<close> closes both whatever the first reports, and reports the first error; \<open>closeAll\<close>
  ends the loop of the yield before it.\<close>

definition cleanup :: "run_env \<Rightarrow> 'p process \<Rightarrow> bool \<times> 'p process" where
  "cleanup ru p = (let p1 = p\<lparr>writer_open := False\<rparr>; p2 = p1\<lparr>meta_open := False\<rparr> in
     (if \<not> ru_close_writer ru then False else ru_close_meta ru, p2))"

definition closeAll :: "run_env \<Rightarrow> 'p process \<Rightarrow> bool \<times> 'p process" where
  "closeAll ru p = cleanup ru (p\<lparr>yield_loop := False\<rparr>)"

text \<open>
  The server ends because it cannot listen, or because of a signal; the deferred \<open>closeMeta\<close> runs
  on both ways and its error is only logged. Without a bucket it does nothing.
\<close>

definition serve_until :: "run_env \<Rightarrow> run_result" where
  "serve_until ru = (if ru_serve_first ru then RunServeFailed
     else if \<not> ru_shutdown ru then RunShutdownFailed
     else if \<not> ru_serve_closed ru then RunServeFailed
     else RunEnded)"

definition run :: "'p host \<Rightarrow> run_env \<Rightarrow> run_result \<times> 'p process option" where
  "run h ru = (case buildGitHandler h of
       (Inl e, p) \<Rightarrow> (RunBuildFailed e, p)
     | (Inr None, p) \<Rightarrow> (serve_until ru, p)
     | (Inr (Some plan), p) \<Rightarrow> (serve_until ru, map_option (\<lambda>q. snd (closeAll ru q)) p))"

lemma no_bucket_no_process: "buildGitHandler h = (Inr None, p) \<Longrightarrow> p = None"
  by (auto simp: buildGitHandler_def Let_def split: if_splits option.splits prod.splits sum.splits)

text \<open>
  However the server ends, by an error of its start, of its listener or of its shutdown or by a
  signal, it has closed the database, which flushes the replica, and the socket, and the loop of
  the yield has ended before.
\<close>

theorem run_closes:
  assumes "run h ru = (res, Some p)"
  shows "all_closed p"
proof -
  obtain r q where b: "buildGitHandler h = (r, q)" by (cases "buildGitHandler h")
  with assms obtain q0 where q: "q = Some q0"
    by (auto simp: run_def split: sum.splits option.splits)
  from build_open[OF b[unfolded q]] no_bucket_no_process[of h q] b q assms show ?thesis
    by (auto simp: run_def closeAll_def cleanup_def all_closed_def Let_def split: sum.splits option.splits)
qed

lemma run_closes_witness:
  "\<exists>p q. run (sample_host False) \<lparr>ru_serve_first = False, ru_shutdown = True, ru_serve_closed = True,
        ru_close_writer = True, ru_close_meta = True\<rparr> = (RunBuildFailed BuildGit, Some p) \<and> all_closed p \<and>
     run (sample_host True) \<lparr>ru_serve_first = False, ru_shutdown = True, ru_serve_closed = True,
        ru_close_writer = False, ru_close_meta = True\<rparr> = (RunEnded, Some q) \<and> all_closed q"
proof -
  let ?ru = "\<lambda>b. \<lparr>ru_serve_first = False, ru_shutdown = True, ru_serve_closed = True,
        ru_close_writer = b, ru_close_meta = True\<rparr>"
  have "fst (run (sample_host False) (?ru True)) = RunBuildFailed BuildGit" "snd (run (sample_host False) (?ru True)) \<noteq> None"
    "fst (run (sample_host True) (?ru False)) = RunEnded" "snd (run (sample_host True) (?ru False)) \<noteq> None"
    by code_simp+
  then obtain p q where "run (sample_host False) (?ru True) = (RunBuildFailed BuildGit, Some p)"
    "run (sample_host True) (?ru False) = (RunEnded, Some q)"
    by (metis not_None_eq prod.collapse)
  with run_closes show ?thesis by blast
qed

end
