(* ===== verification/AtomicFile.thy ===== *)
theory AtomicFile
  imports Prelude
begin

text \<open>
  \<open>writeFileAtomic\<close> and the copy of \<open>copyObject\<close> in \<open>internal/repo/materialize.go\<close>, step by step:
  a temporary file, its content, and a rename. \<open>Materialize\<close> takes each of them as one step on the
  disk; here every state of the directory that a reader could meet in between is written down,
  and the theorems say that this is sound. The operating system chooses
  the name of the temporary file, how much it writes at a time and which call fails.
\<close>

type_synonym files = "string \<Rightarrow> bytes option"

record file_env =
  fe_temp :: "string option"
  fe_seen :: "nat list"
  fe_written :: nat
  fe_close :: bool
  fe_rename :: bool
  fe_remove :: bool

definition remove_temp :: "file_env \<Rightarrow> string \<Rightarrow> files \<Rightarrow> files" where
  "remove_temp env t fs = (if fe_remove env then fs(t := None) else fs)"

text \<open>The lengths in \<open>fe_seen\<close> are those that a reader sees while the content is written.\<close>

definition write_temp :: "file_env \<Rightarrow> string \<Rightarrow> bytes \<Rightarrow> files \<Rightarrow> files list" where
  "write_temp env t data fs =
     map (\<lambda>n. fs(t \<mapsto> take (min n (fe_written env)) data)) (fe_seen env) @ [fs(t \<mapsto> take (fe_written env) data)]"

text \<open>
  The states that follow one another, oldest first, and whether the call succeeds; \<open>complete\<close>
  says that the content came in whole.
\<close>

definition replace_file :: "file_env \<Rightarrow> bool \<Rightarrow> string \<Rightarrow> bytes \<Rightarrow> files \<Rightarrow> bool \<times> files list" where
  "replace_file env complete dst data fs = (case fe_temp env of None \<Rightarrow> (False, [])
     | Some t \<Rightarrow>
         (let written = fs(t \<mapsto> []) # write_temp env t data fs; now = last written in
          if \<not> complete \<or> fe_written env < length data then (False, written @ [remove_temp env t now])
          else if \<not> fe_close env then (False, written @ [remove_temp env t now])
          else if \<not> fe_rename env then (False, written @ [remove_temp env t now])
          else (True, written @ [now(t := None, dst := now t)])))"

definition writeFileAtomic :: "file_env \<Rightarrow> string \<Rightarrow> bytes \<Rightarrow> files \<Rightarrow> bool \<times> files list" where
  "writeFileAtomic env dst data fs = replace_file env True dst data fs"

text \<open>
  The object comes from the store as what its reader yields and whether it yields all of it;
  \<open>None\<close> if \<open>Get\<close> fails, and the directory may fail to be made.
\<close>

definition copyToDisk :: "file_env \<Rightarrow> bool \<Rightarrow> (bytes \<times> bool) option \<Rightarrow> string \<Rightarrow> files \<Rightarrow> bool \<times> files list" where
  "copyToDisk env mkdir src dst fs = (case src of None \<Rightarrow> (False, [])
     | Some (data, whole) \<Rightarrow> if mkdir then replace_file env whole dst data fs else (False, []))"

text \<open>A new temporary file, as \<open>os.CreateTemp\<close> promises.\<close>

definition fresh_temp :: "file_env \<Rightarrow> string \<Rightarrow> files \<Rightarrow> bool" where
  "fresh_temp env dst fs \<longleftrightarrow> (\<forall>t. fe_temp env = Some t \<longrightarrow> t \<noteq> dst \<and> fs t = None)"

definition same_but :: "string option \<Rightarrow> files \<Rightarrow> files \<Rightarrow> bool" where
  "same_but t f g \<longleftrightarrow> (\<forall>p. Some p \<noteq> t \<longrightarrow> f p = g p)"

lemma last_write_temp [simp]: "last (write_temp env t data fs) = fs(t \<mapsto> take (fe_written env) data)"
  "write_temp env t data fs \<noteq> []"
  by (simp_all add: write_temp_def)

lemma write_temp_same: "g \<in> set (write_temp env t data fs) \<Longrightarrow> same_but (Some t) g fs"
  by (auto simp: write_temp_def same_but_def)

lemma remove_temp_same: "same_but (Some t) g fs \<Longrightarrow> same_but (Some t) (remove_temp env t g) fs"
  by (simp add: remove_temp_def same_but_def)

text \<open>
  Until the last state nothing but the temporary file differs; in the last one the file has its
  whole new content and the temporary file is gone, or the call failed, and then the file is as
  it was.
\<close>

lemma replace_is_atomic:
  assumes "fresh_temp env dst fs" "replace_file env complete dst data fs = (ok, trace)"
  shows "\<forall>g \<in> set (butlast (fs # trace)). same_but (fe_temp env) g fs"
    "if ok then complete \<and> last (fs # trace) = fs(dst \<mapsto> data)
     else same_but (fe_temp env) (last (fs # trace)) fs \<and> (fe_remove env \<longrightarrow> last (fs # trace) = fs)"
proof -
  have "(\<forall>g \<in> set (butlast (fs # trace)). same_but (fe_temp env) g fs) \<and>
    (if ok then complete \<and> last (fs # trace) = fs(dst \<mapsto> data)
     else same_but (fe_temp env) (last (fs # trace)) fs \<and> (fe_remove env \<longrightarrow> last (fs # trace) = fs))"
  proof (cases "fe_temp env")
    case None
    with assms(2) show ?thesis by (auto simp: replace_file_def same_but_def)
  next
    case (Some t)
    with assms(1) have t: "t \<noteq> dst" "fs t = None" by (simp_all add: fresh_temp_def)
    have gone: "fs(t := None) = fs" using t(2) by auto
    have pre: "\<forall>g \<in> set (fs # fs(t \<mapsto> []) # write_temp env t data fs). same_but (Some t) g fs"
      using write_temp_same by (auto simp: same_but_def)
    show ?thesis
    proof (cases "complete \<and> length data \<le> fe_written env \<and> fe_close env \<and> fe_rename env")
      case True
      with assms(2) Some have e: "ok" "trace = (fs(t \<mapsto> []) # write_temp env t data fs) @ [fs(t := None, dst \<mapsto> data)]"
        by (auto simp: replace_file_def Let_def)
      have "fs(t := None, dst \<mapsto> data) = fs(dst \<mapsto> data)" by (simp only: gone)
      with pre show ?thesis by (simp add: e Some True butlast_append)
    next
      case False
      with assms(2) Some have e: "\<not> ok"
        "trace = (fs(t \<mapsto> []) # write_temp env t data fs) @ [remove_temp env t (fs(t \<mapsto> take (fe_written env) data))]"
        by (auto simp: replace_file_def Let_def split: if_splits)
      have "same_but (Some t) (remove_temp env t (fs(t \<mapsto> take (fe_written env) data))) fs"
        by (rule remove_temp_same) (simp add: same_but_def)
      with pre gone show ?thesis by (simp add: e Some butlast_append remove_temp_def)
    qed
  qed
  then show "\<forall>g \<in> set (butlast (fs # trace)). same_but (fe_temp env) g fs"
    "if ok then complete \<and> last (fs # trace) = fs(dst \<mapsto> data)
     else same_but (fe_temp env) (last (fs # trace)) fs \<and> (fe_remove env \<longrightarrow> last (fs # trace) = fs)"
    by blast+
qed

text \<open>
  C18. A reader of \<open>packed-refs\<close> sees the old text or the whole new one, whatever fails and however the
  system splits the write: this refines the one step that the cache takes.
\<close>

theorem write_is_atomic:
  assumes "fresh_temp env dst fs" "writeFileAtomic env dst data fs = (ok, trace)" "g \<in> set trace"
  shows "(g dst = fs dst \<or> g dst = Some data) \<and> (\<forall>p. p \<noteq> dst \<and> Some p \<noteq> fe_temp env \<longrightarrow> g p = fs p) \<and>
    last trace dst = (if ok then Some data else fs dst)"
proof -
  note r = replace_is_atomic[OF assms(1) assms(2)[unfolded writeFileAtomic_def]]
  have ne: "trace \<noteq> []" using assms(3) by auto
  have d: "fe_temp env \<noteq> Some dst" using assms(1) by (auto simp: fresh_temp_def)
  have "g \<in> set (butlast trace) \<or> g = last trace"
    using assms(3) ne by (metis append_butlast_last_id in_set_conv_decomp rotate1.simps(2) set_ConsD set_rotate1)
  with r ne d show ?thesis
    by (auto simp: same_but_def split: if_splits)
qed

definition sample_files :: files where
  "sample_files = [''packed-refs'' \<mapsto> ''old'']"

definition sample_file_env :: "nat \<Rightarrow> file_env" where
  "sample_file_env n = \<lparr>fe_temp = Some ''.packed-refs-1'', fe_seen = [1, 2], fe_written = n, fe_close = True,
     fe_rename = True, fe_remove = False\<rparr>"

lemma sample_fresh: "fresh_temp (sample_file_env n) ''packed-refs'' sample_files"
  by (simp add: fresh_temp_def sample_file_env_def sample_files_def)

text \<open>A write that is cut short leaves the temporary file and the old text.\<close>

lemma write_is_atomic_witness:
  "let whole = snd (writeFileAtomic (sample_file_env 3) ''packed-refs'' ''new'' sample_files);
       short = snd (writeFileAtomic (sample_file_env 2) ''packed-refs'' ''new'' sample_files) in
   map (\<lambda>g. g ''packed-refs'') whole = [Some ''old'', Some ''old'', Some ''old'', Some ''old'', Some ''new''] \<and>
   (whole ! 2) ''.packed-refs-1'' = Some ''ne'' \<and>
   last short ''.packed-refs-1'' = Some ''ne'' \<and> last short ''packed-refs'' = Some ''old''"
proof -
  let ?whole = "snd (writeFileAtomic (sample_file_env 3) ''packed-refs'' ''new'' sample_files)"
  let ?short = "snd (writeFileAtomic (sample_file_env 2) ''packed-refs'' ''new'' sample_files)"
  have w: "map (\<lambda>g. g ''packed-refs'') ?whole = [Some ''old'', Some ''old'', Some ''old'', Some ''old'', Some ''new'']"
    "(?whole ! 2) ''.packed-refs-1'' = Some ''ne''" "last ?short ''.packed-refs-1'' = Some ''ne''"
    "fst (writeFileAtomic (sample_file_env 2) ''packed-refs'' ''new'' sample_files) = False" "?short \<noteq> []"
    by code_simp+
  have "writeFileAtomic (sample_file_env 2) ''packed-refs'' ''new'' sample_files = (False, ?short)"
    using w(4) by (metis prod.collapse)
  from write_is_atomic[OF sample_fresh this, of "last ?short"] w(5) have "last ?short ''packed-refs'' = Some ''old''"
    by (simp add: sample_files_def)
  with w show ?thesis by (simp only: Let_def simp_thms)
qed

theorem copy_is_atomic:
  assumes "fresh_temp env dst fs" "copyToDisk env mkdir src dst fs = (ok, trace)" "g \<in> set trace"
  shows "(g dst = fs dst \<or> (\<exists>data. src = Some (data, True) \<and> g dst = Some data)) \<and>
    (\<forall>p. p \<noteq> dst \<and> Some p \<noteq> fe_temp env \<longrightarrow> g p = fs p) \<and> (\<not> ok \<longrightarrow> last trace dst = fs dst)"
proof -
  have ne: "trace \<noteq> []" using assms(3) by auto
  from assms(2,3) obtain data whole where s: "src = Some (data, whole)" "replace_file env whole dst data fs = (ok, trace)"
    by (auto simp: copyToDisk_def split: option.splits if_splits)
  note r = replace_is_atomic[OF assms(1) s(2)]
  have d: "fe_temp env \<noteq> Some dst" using assms(1) by (auto simp: fresh_temp_def)
  have "g \<in> set (butlast trace) \<or> g = last trace"
    using assms(3) ne by (metis append_butlast_last_id in_set_conv_decomp rotate1.simps(2) set_ConsD set_rotate1)
  with r ne d s(1) show ?thesis
    by (auto simp: same_but_def split: if_splits)
qed

end
