(* ===== verification/RenderMarkdown.thy ===== *)
theory RenderMarkdown
  imports Render
begin

text \<open>
  The Markdown and the highlighting of \<open>internal/render\<close>, around goldmark, bluemonday and chroma,
  which are parameters: a document is a tree of which only links and images are told apart, the
  parser, the renderer, the sanitizer and the lexers are functions. What the file adds to them is
  the rewriting of every destination of the tree, the order in which a lexer is looked for, and
  the stylesheet that is built once.
\<close>

section \<open>The rewriting of the tree\<close>

datatype node =
    Link bytes "node list"
  | Image bytes "node list"
  | Other string "node list"

text \<open>The walk enters a node before its children; without a context the tree stays as it is.\<close>

fun walk_links :: "(string \<Rightarrow> bool \<Rightarrow> string) \<Rightarrow> node \<Rightarrow> node" where
  "walk_links f (Link dest ns) = Link (f dest False) (map (walk_links f) ns)"
| "walk_links f (Image dest ns) = Image (f dest True) (map (walk_links f) ns)"
| "walk_links f (Other kind ns) = Other kind (map (walk_links f) ns)"

definition Transform :: "(string \<Rightarrow> url option) \<Rightarrow> LinkContext option \<Rightarrow> node \<Rightarrow> node" where
  "Transform parseURL lc doc = (case lc of None \<Rightarrow> doc | Some c \<Rightarrow> walk_links (rewrite parseURL c) doc)"

record markdown =
  md_parse :: "bytes \<Rightarrow> node"
  md_render :: "node \<Rightarrow> bytes option"
  md_sanitize :: "bytes \<Rightarrow> string"
  md_url :: "string \<Rightarrow> url option"

definition MarkdownLinks :: "markdown \<Rightarrow> bytes \<Rightarrow> LinkContext option \<Rightarrow> string" where
  "MarkdownLinks M src lc = (case md_render M (Transform (md_url M) lc (md_parse M src)) of
       None \<Rightarrow> [] | Some html \<Rightarrow> md_sanitize M html)"

definition Markdown :: "markdown \<Rightarrow> bytes \<Rightarrow> string" where
  "Markdown M src = MarkdownLinks M src None"

text \<open>The destinations in the order of the document, and the document without them.\<close>

fun destinations :: "node \<Rightarrow> (bool \<times> bytes) list" where
  "destinations (Link dest ns) = (False, dest) # concat (map destinations ns)"
| "destinations (Image dest ns) = (True, dest) # concat (map destinations ns)"
| "destinations (Other kind ns) = concat (map destinations ns)"

fun skeleton :: "node \<Rightarrow> node" where
  "skeleton (Link dest ns) = Link [] (map skeleton ns)"
| "skeleton (Image dest ns) = Image [] (map skeleton ns)"
| "skeleton (Other kind ns) = Other kind (map skeleton ns)"

lemma destinations_walk: "destinations (walk_links f n) = map (\<lambda>(img, d). (img, f d img)) (destinations n)"
  by (induction n rule: destinations.induct)
    (auto simp: map_concat comp_def intro!: arg_cong[where f = concat] map_cong)

lemma skeleton_walk: "skeleton (walk_links f n) = skeleton n"
  by (induction n rule: skeleton.induct) auto

text \<open>
  The transformer changes nothing of a document but the destinations of its links and images, each
  exactly once; and each that it changes points to a file below the repository and the ref of
  the page, at a path that does not climb out.
\<close>

theorem links_stay_in_repo:
  assumes "\<not> is_abs (lc_dir c)"
  shows "skeleton (Transform parseURL (Some c) doc) = skeleton doc \<and>
    length (destinations (Transform parseURL (Some c) doc)) = length (destinations doc) \<and>
    list_all2 (\<lambda>(img, d) (img', d'). img' = img \<and> (d' = d \<or>
        (\<exists>verb target suffix. d' = ''/'' @ lc_repo c @ ''/'' @ verb @ ''/'' @ lc_ref c @ ''/'' @ target @ suffix \<and>
          inside target \<and> link_verb c img target = Some verb)))
      (destinations doc) (destinations (Transform parseURL (Some c) doc))"
  using rewrite_inside[OF assms]
  by (auto simp: Transform_def skeleton_walk destinations_walk list_all2_map2 intro!: list_all2_refl)

definition sample_url :: "string \<Rightarrow> url option" where
  "sample_url s = Some \<lparr>url_scheme = [], url_host = [], url_path = s, url_raw_query = [], url_fragment = []\<rparr>"

definition sample_links :: LinkContext where
  "sample_links = \<lparr>lc_repo = ''app'', lc_ref = ''main'', lc_dir = ''docs'', lc_stat = [''docs/a.md'' \<mapsto> ''blob'']\<rparr>"

lemma links_stay_in_repo_witness:
  "let doc = Other ''p'' [Link ''a.md'' [Image ''../i.png'' []], Link ''../../x'' []] in
   destinations (Transform sample_url (Some sample_links) doc) =
     [(False, ''/app/blob/main/docs/a.md''), (True, ''/app/raw/main/i.png''), (False, ''../../x'')] \<and>
   skeleton (Transform sample_url (Some sample_links) doc) = skeleton doc"
proof -
  let ?doc = "Other ''p'' [Link ''a.md'' [Image ''../i.png'' []], Link ''../../x'' []]"
  have "\<not> is_abs (lc_dir sample_links)" by code_simp
  from links_stay_in_repo[OF this, of sample_url ?doc]
  have "skeleton (Transform sample_url (Some sample_links) ?doc) = skeleton ?doc" by blast
  moreover have "destinations (Transform sample_url (Some sample_links) ?doc) =
     [(False, ''/app/blob/main/docs/a.md''), (True, ''/app/raw/main/i.png''), (False, ''../../x'')]"
    by code_simp
  ultimately show ?thesis by (simp add: Let_def)
qed

text \<open>An error of the renderer gives the empty page, which the sanitizer never sees.\<close>

lemma failed_markdown_is_empty: "md_render M (md_parse M src) = None \<Longrightarrow> Markdown M src = []"
  by (simp add: Markdown_def MarkdownLinks_def Transform_def)

section \<open>Highlighting\<close>

record ('l, 'i) chroma =
  ch_match :: "string \<Rightarrow> 'l option"
  ch_analyse :: "bytes \<Rightarrow> 'l option"
  ch_fallback :: 'l
  ch_tokenise :: "'l \<Rightarrow> bytes \<Rightarrow> 'i option"
  ch_format :: "'i \<Rightarrow> string option"
  ch_css :: "bool \<Rightarrow> string"

definition Highlight :: "('l, 'i) chroma \<Rightarrow> bytes \<Rightarrow> string \<Rightarrow> string option" where
  "Highlight C code filename =
     (let lexer = (case ch_match C (path_base filename) of Some l \<Rightarrow> l
        | None \<Rightarrow> (case ch_analyse C code of Some l \<Rightarrow> l | None \<Rightarrow> ch_fallback C)) in
      case ch_tokenise C lexer code of None \<Rightarrow> None | Some it \<Rightarrow> ch_format C it)"

text \<open>The light theme, then the dark one in a media query; the argument is what the first call kept.\<close>

definition HighlightCSS :: "('l, 'i) chroma \<Rightarrow> string option \<Rightarrow> string \<times> string option" where
  "HighlightCSS C once = (case once of Some css \<Rightarrow> (css, once)
     | None \<Rightarrow> (let css = ch_css C False @ ''@media (prefers-color-scheme: dark) {'' @ [newline] @
           ch_css C True @ ''}'' @ [newline] in (css, Some css)))"

end
