(* ===== verification/LiveTail.thy ===== *)
theory LiveTail
  imports WebCI GoStruct
begin

text \<open>
  The live tail of a job as the browser shows it: the JSON of \<open>liveLogResp\<close> in
  \<open>internal/webui/ci.go\<close> and the loop of \<open>templates/ci_log.html\<close> that polls it. Escape sequences
  are stripped for the display only and are left out here.
\<close>

definition marshal_live :: "bytes \<Rightarrow> int \<Rightarrow> bool \<Rightarrow> json" where
  "marshal_live bs next dn = JObj [(''bytes'', JStr bs), (''next'', JNum (format_int next)), (''done'', JBool dn)]"

lemma live_body_read:
  "decode_json (Encode (marshal_live bs next dn)) =
     Parsed (JObj [(''bytes'', JStr (valid_utf8 bs)), (''next'', JNum (format_int next)), (''done'', JBool dn)]) [newline]"
proof -
  have "valid_utf8 ''bytes'' = ''bytes''" "valid_utf8 ''next'' = ''next''" "valid_utf8 ''done'' = ''done''"
    by (rule ascii_name, simp)+
  moreover have "integral (marshal_live bs next dn)" "json_depth (marshal_live bs next dn) \<le> maxNestingDepth"
    by (auto simp: marshal_live_def maxNestingDepth_def)
  ultimately show ?thesis
    using json_roundtrip[of "marshal_live bs next dn" "[newline]"] by (simp add: marshal_live_def Encode_def)
qed

text \<open>What the script takes from a response: \<open>d.bytes\<close> and \<open>d.next\<close>.\<close>

definition live_fields :: "json \<Rightarrow> (bytes \<times> int) option" where
  "live_fields v = (case v of
      JObj ms \<Rightarrow> (case (map_of (rev ms) ''bytes'', map_of (rev ms) ''next'') of
          (Some (JStr b), Some (JNum l)) \<Rightarrow> map_option (Pair b) (parse_int64 l) | _ \<Rightarrow> None)
    | _ \<Rightarrow> None)"

text \<open>One poll: the bytes are appended and the offset moves, if there are any.\<close>

definition page_poll :: "bytes \<Rightarrow> tail \<Rightarrow> tail" where
  "page_poll body t = (case decode_json body of
      Parsed v r \<Rightarrow> (case live_fields v of
          Some (b, n) \<Rightarrow> if b = [] then t else t\<lparr>offset := n, got := got t @ b\<rparr> | None \<Rightarrow> t)
    | _ \<Rightarrow> t)"

fun page_step :: "int \<Rightarrow> live_event \<Rightarrow> tail \<Rightarrow> tail" where
  "page_step job EvPoll t = (case Read job (offset t) (logs t) of
     (data, nx, dn, ok) \<Rightarrow> page_poll (Encode (marshal_live data nx dn)) t)"
| "page_step job e t = live_step job e t"

definition page_run :: "int \<Rightarrow> live_event list \<Rightarrow> tail \<Rightarrow> tail" where
  "page_run job es t = fold (page_step job) es t"

text \<open>The pieces that the polls of a reader return.\<close>

fun pieces :: "int \<Rightarrow> live_event list \<Rightarrow> tail \<Rightarrow> bytes list" where
  "pieces job [] t = []"
| "pieces job (e # es) t =
     (if e = EvPoll then [fst (Read job (offset t) (logs t))] else []) @ pieces job es (live_step job e t)"

lemma got_pieces: "got (live_run job es t) = got t @ concat (pieces job es t)"
proof (induction es arbitrary: t)
  case (Cons e es)
  then show ?case by (cases e) (auto split: prod.split)
qed simp

lemma valid_utf8_empty [simp]: "valid_utf8 s = [] \<longleftrightarrow> s = []"
proof (cases s)
  case (Cons c cs)
  then show ?thesis by (cases "rune_size (c # cs)") (simp_all add: valid_utf8.simps(2) replacement_def)
qed simp

lemma page_poll_read:
  assumes "int64_id nx"
  shows "page_poll (Encode (marshal_live data nx dn)) t =
    (if data = [] then t else t\<lparr>offset := nx, got := got t @ valid_utf8 data\<rparr>)"
  using assms by (simp add: page_poll_def live_body_read live_fields_def int64_id_def)

text \<open>
  The page and the reader of \<open>LiveLogs\<close> are at the same offset; the page has the
  pieces as UTF-8. The buffer, which the cap bounds, is shorter than a 64-bit offset counts.
\<close>

definition same_place :: "tail \<Rightarrow> tail \<Rightarrow> bool" where
  "same_place p t \<longleftrightarrow> logs p = logs t \<and> offset p = offset t"

lemma Read_next:
  assumes "tail_ok job bs t" "live_cap (logs t) \<le> logCap" "Read job (offset t) (logs t) = (data, nx, dn, ok)"
  shows "int64_id nx" "data = [] \<Longrightarrow> nx = offset t"
proof -
  have n: "length (capped (live_cap (logs t)) bs) \<le> logCap + length logTruncationMarker"
    using assms(2) by (simp add: capped_def)
  also have "\<dots> < 2 ^ 62" by (simp add: logCap_def logTruncationMarker_def)
  finally have n: "int (length (capped (live_cap (logs t)) bs)) < 2 ^ 63" by simp
  have o: "0 \<le> offset t" "offset t \<le> int (length (capped (live_cap (logs t)) bs))"
    using assms(1) by (auto simp: tail_ok_def)
  have r: "live_jobs (logs t) job = None \<and> nx = offset t \<or>
      nx = int (length (capped (live_cap (logs t)) bs)) \<and> data = drop (nat (offset t)) (capped (live_cap (logs t)) bs)"
    using assms(1,3) o by (auto simp: Read_def tail_ok_def shows_log_def Let_def split: option.splits)
  show "int64_id nx" using r n o by (auto simp: int64_id_def)
  show "nx = offset t" if "data = []"
    using r o that by auto
qed

lemma live_step_cap: "live_cap (logs (live_step job e t)) = live_cap (logs t)"
  by (cases e) (auto split: prod.split)

lemma page_run_pieces:
  assumes "tail_ok job bs t" "live_cap (logs t) \<le> logCap" "same_place p t"
  shows "got (page_run job es p) = got p @ concat (map valid_utf8 (pieces job es t))"
  using assms
proof (induction es arbitrary: p t bs)
  case (Cons e es)
  note IH = Cons.IH[OF tail_ok_step[OF Cons.prems(1), of e]]
  have cap: "live_cap (logs (live_step job e t)) \<le> logCap" using Cons.prems(2) by (simp add: live_step_cap)
  show ?case
  proof (cases "e = EvPoll")
    case True
    obtain data nx dn ok where r: "Read job (offset t) (logs t) = (data, nx, dn, ok)" by (metis prod_cases4)
    note n = Read_next[OF Cons.prems(1,2) r]
    have p: "page_step job e p = (if data = [] then p else p\<lparr>offset := nx, got := got p @ valid_utf8 data\<rparr>)"
      using Cons.prems(3) r page_poll_read[OF n(1)] by (simp add: True same_place_def)
    then have "same_place (page_step job e p) (live_step job e t)"
      using Cons.prems(3) r n(2) by (auto simp: True same_place_def)
    from IH[OF cap this] p r show ?thesis by (auto simp: page_run_def True)
  next
    case False
    then have "page_step job e p = live_step job e p" "got (live_step job e p) = got p" by (cases e; simp)+
    moreover from this(1) have "same_place (page_step job e p) (live_step job e t)"
      using Cons.prems(3) False by (cases e) (simp_all add: same_place_def)
    ultimately show ?thesis using IH[OF cap] False by (simp add: page_run_def)
  qed
qed (simp add: page_run_def)

text \<open>
  The page shows the pieces that its polls return, each made UTF-8 by itself; together they are
  the log up to the cap. So where every piece is UTF-8, the page shows the log.
\<close>

theorem page_shows:
  assumes "live_jobs l job = None" "live_cap l \<le> logCap"
  defines "t0 \<equiv> \<lparr>logs = l, offset = 0, got = []\<rparr>"
  shows "got (page_run job es t0) = concat (map valid_utf8 (pieces job es t0))"
    "concat (pieces job (es @ [EvPoll]) t0) = capped (live_cap l) (appended job es)"
    "\<forall>s \<in> set (pieces job (es @ [EvPoll]) t0). valid_utf8 s = s \<Longrightarrow>
       got (page_run job (es @ [EvPoll]) t0) = capped (live_cap l) (appended job es)"
proof -
  have ok: "tail_ok job [] t0" "live_cap (logs t0) \<le> logCap" "same_place t0 t0"
    using assms by (simp_all add: tail_ok_start same_place_def)
  have p: "got (page_run job es t0) = concat (map valid_utf8 (pieces job es t0))" for es
    using page_run_pieces[OF ok, of es] by (simp add: t0_def)
  show "got (page_run job es t0) = concat (map valid_utf8 (pieces job es t0))" by (rule p)
  have "got (live_run job (es @ [EvPoll]) t0) = concat (pieces job (es @ [EvPoll]) t0)"
    by (subst got_pieces) (simp add: t0_def)
  with poll_got[OF ok(1), of es]
  show c: "concat (pieces job (es @ [EvPoll]) t0) = capped (live_cap l) (appended job es)"
    by (simp add: t0_def)
  show "got (page_run job (es @ [EvPoll]) t0) = capped (live_cap l) (appended job es)"
    if "\<forall>s \<in> set (pieces job (es @ [EvPoll]) t0). valid_utf8 s = s"
    using that p[of "es @ [EvPoll]"] c by (simp add: map_idI)
qed

text \<open>
  A character whose bytes come with two polls is shown as replacement characters, though the log
  is UTF-8: the streamer cuts its output by time and the cap by length.
\<close>

lemma cut_character_garbled:
  defines "e_acute \<equiv> [CHR 0xC3, CHR 0xA9]" and "t0 \<equiv> \<lparr>logs = NewLiveLogs, offset = 0, got = []\<rparr>"
  shows "valid_utf8 e_acute = e_acute"
    "got (page_run 7 [EvAppend 7 [CHR 0xC3] 1, EvPoll, EvAppend 7 [CHR 0xA9] 2, EvPoll] t0) = replacement @ replacement"
proof -
  show "valid_utf8 e_acute = e_acute" unfolding e_acute_def by code_simp
  have p: "pieces 7 [EvAppend 7 [CHR 0xC3] 1, EvPoll, EvAppend 7 [CHR 0xA9] 2, EvPoll] t0 = [[CHR 0xC3], [CHR 0xA9]]"
    by (simp add: t0_def NewLiveLogs_def Append_def Read_def fresh_log_def Let_def logCap_def)
  have "valid_utf8 [CHR 0xC3] = replacement" "valid_utf8 [CHR 0xA9] = replacement" by code_simp+
  with page_shows(1)[of NewLiveLogs 7 "[EvAppend 7 [CHR 0xC3] 1, EvPoll, EvAppend 7 [CHR 0xA9] 2, EvPoll]"] p
  show "got (page_run 7 [EvAppend 7 [CHR 0xC3] 1, EvPoll, EvAppend 7 [CHR 0xA9] 2, EvPoll] t0) = replacement @ replacement"
    by (simp add: t0_def NewLiveLogs_def)
qed

end
