(* ===== verification/Spec2Isabelle.thy ===== *)
theory Spec2Isabelle
  imports Backend Dispatcher Routes Runner Lease Lifecycle AtomicFile RenderMarkdown LiveTail
begin

text \<open>
  A verification development for gitmote, a git forge in one Go process: git over smart HTTP, a web
  interface, CI, and all of its state in a SQLite database that s3lite replicates to a bucket
  and in the objects of that bucket. One instance at a time holds the lease of the writer.

  \<^bold>\<open>How the program is put together.\<close>
  A request first passes the gate of the writer and the router (\<open>cmd/gitmote\<close>). A git request
  goes to \<open>githttp\<close>: the guard (\<open>auth\<close>) admits it over the metadata (\<open>meta\<close>), the
  materializer (\<open>repo\<close>) brings a bare repository on the disk up to date from the metadata and
  the object store (\<open>store\<close>), and \<open>git http-backend\<close> answers. A push runs git's
  pre-receive hook (\<open>cmd/gitmote-hook\<close>), which calls back over a socket (\<open>hookrpc\<close>): the
  server uploads the new objects and then moves the refs by compare-and-swap. A push that moved
  a branch goes to the dispatcher (\<open>ci\<close>), which records a run and its jobs and starts
  a runner for each (\<open>ci/local.go\<close> or \<open>scaleway\<close>); the runner (\<open>runner\<close>) claims the job,
  runs act and reports to the report API (\<open>ci/report.go\<close>). The web interface (\<open>webui\<close>)
  manages users, tokens, access and secrets (\<open>secrets\<close>) and shows repositories
  (\<open>repo/browse.go\<close>, \<open>render\<close>) and runs.

  \<^bold>\<open>The theories, in the order in which they build on each other.\<close>
  \<^item> \<open>Prelude\<close>: operations with errors and state, tables, and the Go library functions on
    strings that the sources call. \<open>GoEncoding\<close>, \<open>GoPath\<close>, \<open>GoQuote\<close>: base64 with basic
    authentication, \<open>path\<close>, and the quoting of \<open>fmt\<close>.
  \<^item> \<open>MetaDB\<close>: the record \<open>db\<close> of the tables, the failure of any statement, and the
    invariant \<open>db_ok\<close> that the schema states. \<open>MetaRefs\<close> (\<open>refs.go\<close>), \<open>MetaForge\<close>
    (\<open>repos.go\<close>, \<open>users.go\<close>, \<open>acls.go\<close>), \<open>MetaCI\<close> (\<open>ci.go\<close>), \<open>MetaSecrets\<close>
    (\<open>secrets.go\<close> and the migration of \<open>meta.go\<close>): the statements, that each keeps
    \<open>db_ok\<close>, and the refinement of \<open>CASRefs\<close> to guarded assignments on a map.
  \<^item> \<open>Auth\<close> (\<open>internal/auth\<close>): tokens and the guard, sound and complete with respect to
    \<open>admitted\<close>. \<open>Keyring\<close> (\<open>internal/secrets\<close>): master keys, envelopes, rotation.
    \<open>Store\<close> (\<open>internal/store\<close>): the contract of an object store and the two that keep it.
  \<^item> \<open>Hook\<close> (\<open>cmd/gitmote-hook\<close>) and \<open>Receive\<close> (\<open>githttp/receive.go\<close>): the write path,
    whose state \<open>writer\<close> has the database, the store, the locks and the nonces in flight.
    \<open>GoJson\<close> and \<open>GoStruct\<close>: JSON as \<open>encoding/json\<close> writes and reads it, and its structs.
    \<open>HookRpc\<close> (\<open>internal/hookrpc\<close>): the messages of the hook, and both ends of the call put together.
    \<open>Materialize\<close> (\<open>repo/materialize.go\<close>): the cache on the disk, with a failure at every disk
    operation; \<open>AtomicFile\<close> takes its write of a file apart. \<open>Backend\<close> (\<open>githttp/backend.go\<close>) puts
    them together over the state \<open>server\<close>.
  \<^item> \<open>Browse\<close> (\<open>repo/browse.go\<close>): the read-only git commands and the parsing of what they
    print. \<open>Render\<close> and \<open>RenderMarkdown\<close> (\<open>internal/render\<close>): logs, diffs and links as HTML,
    and the rewriting of a document.
  \<^item> \<open>Triggers\<close>, \<open>EnvSecrets\<close>, \<open>LiveLogs\<close>, \<open>Report\<close>, \<open>ReportWire\<close>, \<open>Dispatcher\<close>
    (\<open>internal/ci\<close>): which pushes start which workflows, the secrets of a job, its log while
    it runs, the life of a job from the queue to its outcome. \<open>Runner\<close> (\<open>internal/runner\<close>,
    \<open>ci/local.go\<close>): the other end of the report API, composed with it over the bytes of a claim.
  \<^item> \<open>Session\<close>, \<open>WebUI\<close>, \<open>WebCI\<close>, \<open>WebBrowse\<close> (\<open>internal/webui\<close>): a handler is a
    function from the state to a reply, which is a status, a redirect or the data of a page, and
    the state. \<open>WebUI\<close> works on the database alone, the other two on the materializer's state.
    \<open>LiveTail\<close>: the page of a running job as a browser shows it.
  \<^item> \<open>Bootstrap\<close> (\<open>internal/bootstrap\<close>), \<open>Startup\<close>, \<open>Lifecycle\<close>, \<open>Routes\<close> and \<open>Lease\<close>
    (\<open>cmd/gitmote/main.go\<close>, \<open>internal/scaleway\<close>): the first administrator, the start with
    all that it opens and closes, the end, the table of routes under the search of
    \<open>http.ServeMux\<close>, and the lease as a machine in which requests, sweeps and the yield interleave.

  \<^bold>\<open>What the lemmas show.\<close>
  Data: the statements keep the schema's invariant under any pattern of failing statements
  (lemmas \<open>keeps_\<dots>\<close>), refs move only by compare-and-swap, a job is claimed once and its outcome
  is final. Pushes: content is in the store before a ref names it, the exit status of the
  hook is what was committed, over the bytes of its call and also if they are cut, a nonce works once, pushes to a
  repository exclude each other. Access: git, pages and management need what the rules grant, and a visitor learns nothing of a private
  repository from the browse pages; the exception of the git endpoints is recorded in
  \<open>bad_token_reveals_existence\<close>. CI: every selected workflow gets a job and a runner, stuck
  jobs end, a runner leaves no open job, its engine gets exactly the secrets of the job. Printed JSON
  is read back, with the integers and with U+FFFD for what is not UTF-8 (\<open>json_roundtrip\<close>).
  Rendering: what a browser reads of a log is the log. Lease: a yield never
  meets a request, and a request is served by the writer. The flaws that the
  modelling showed are lemmas too (\<open>completions_race\<close>, \<open>alias_filter_ignored\<close>,
  \<open>repo_dir_parent\<close>, \<open>env_secret_shared\<close>, \<open>local_runner_gets_master_key\<close>,
  \<open>escaped_link_broken\<close>, \<open>removed_comment_is_header\<close>, \<open>tag_below_branch\<close>,
  \<open>non_utf8_ref_stays\<close>, \<open>hook_dir_stays\<close>, \<open>lost_answer_moves_refs\<close>,
  \<open>cut_character_garbled\<close>).

  \<^bold>\<open>Parameters.\<close>
  Code that is not in the repository is an argument of the definitions that use it: the git
  program, the YAML decoders, AES-GCM with HKDF, HMAC and SHA-256, the client of the bucket, s3lite,
  act, the HTTP clients of the runner and of the cloud trigger, \<open>url.Parse\<close>, the Unicode tables
  of the Go release (\<open>wide_print\<close>), Markdown and
  highlighting. Where a theorem needs something of them it is a named hypothesis
  (\<open>opens_exactly\<close>, \<open>unforgeable\<close>, the locale \<open>object_store\<close>), and its witness has a
  concrete function for it. Random bytes and the clock are arguments too; the clock stands still
  while one request is served, except in \<open>Lease\<close>.

  \<^bold>\<open>Bounds.\<close>
  The wait for a server secret runs for a number of rounds (\<open>tries\<close>) that stands for its timeout;
  the theorems hold for every number. \<open>None\<close> is a push that waits for a lock, and a step of
  \<open>Lease\<close> that has to wait. Identifiers and times are unbounded integers; where the code parses
  or prints an \<open>int64\<close> the range is checked (\<open>parse_int64\<close>). The caps of the code
  (\<open>logCap\<close>, \<open>MaxSize\<close>, \<open>ciRunsLimit\<close>, \<open>logLimit\<close>) are those of the sources. All other
  recursion is structural or has a termination proof; the JSON parser has fuel for the length of
  its input, and \<open>json_terminates\<close> shows that no more is ever needed.

  \<^bold>\<open>Not modelled.\<close>
  The HTML templates, the stylesheets and the embedded mermaid library; the third-party Markdown,
  sanitizer and highlighter; log lines; the framing of HTTP and the escapes of URLs and forms, of which the decoded
  values are modelled; the redirects of \<open>http.ServeMux\<close> for paths that are not
  clean; the parsing of command-line flags, the delivery of signals and the HTTP listener; s3lite
  itself, so that the lease and the replication are what its documentation says; \<open>main\<close> of \<open>cmd/gitmote-runner\<close>,
  which only connects the parts of the runner.
\<close>

end
